(* ===== verification/Axiom_Prelude.thy ===== *)
theory Axiom_Prelude
  imports Main "HOL-Library.Word"
begin

text \<open>
  Shared vocabulary of the AxiomDB development: the machine integers of the Rust code, the
  errors the modelled operations return, little- and big-endian byte encodings, and byte
  memory (the \<open>[u8; PAGE_SIZE]\<close> buffer of a page as a function from offsets to bytes).
  The interface \<open>int_codec\<close> states what a fixed-width integer encoding promises; it is
  interpreted on the little- and big-endian encodings.
\<close>

unbundle bit_operations_syntax

named_theorems mem_simps \<open>reads over writes in byte memory\<close>

subsection \<open>Machine integers\<close>

type_synonym u8 = "8 word"
type_synonym u16 = "16 word"
type_synonym u32 = "32 word"
type_synonym u64 = "64 word"
type_synonym u128 = "128 word"
type_synonym txn_id = u64
type_synonym page_id = u64

text \<open>Rust's \<open>u64::MAX\<close>, saturating addition and multiplication on \<open>u64\<close>.\<close>

abbreviation u64_max :: u64 where "u64_max \<equiv> - 1"

definition saturating_add :: "u64 \<Rightarrow> u64 \<Rightarrow> u64" where
  "saturating_add a b = (if unat a + unat b < 2 ^ 64 then a + b else u64_max)"

definition saturating_mul :: "u64 \<Rightarrow> u64 \<Rightarrow> u64" where
  "saturating_mul a b = (if unat a * unat b < 2 ^ 64 then a * b else u64_max)"

text \<open>\<open>u64::trailing_zeros\<close> and \<open>u64::count_ones\<close>.\<close>

definition trailing_zeros :: "u64 \<Rightarrow> nat" where
  "trailing_zeros w = length (takeWhile (\<lambda>i. \<not> bit w i) [0..<64])"

definition count_ones :: "u64 \<Rightarrow> nat" where
  "count_ones w = length (filter (bit w) [0..<64])"

text \<open>\<open>Iterator::position\<close> and \<open>Vec::remove\<close>.\<close>

primrec position :: "('a \<Rightarrow> bool) \<Rightarrow> 'a list \<Rightarrow> nat option" where
  "position P [] = None"
| "position P (x # xs) = (if P x then Some 0 else map_option Suc (position P xs))"

definition remove_nth :: "nat \<Rightarrow> 'a list \<Rightarrow> 'a list" where
  "remove_nth i xs = take i xs @ drop (Suc i) xs"

lemma position_None: "position P xs = None \<longleftrightarrow> (\<forall>x \<in> set xs. \<not> P x)"
  by (induction xs) auto

lemma position_Some:
  "position P xs = Some i \<Longrightarrow> i < length xs \<and> P (xs ! i) \<and> (\<forall>j < i. \<not> P (xs ! j))"
proof (induction xs arbitrary: i)
  case (Cons x xs)
  then show ?case by (cases i) (auto split: if_splits simp: less_Suc_eq_0_disj)
qed simp

lemma remove_nth_append [simp]: "remove_nth (length xs) (xs @ y # ys) = xs @ ys"
  by (simp add: remove_nth_def)

lemma length_remove_nth [simp]: "i < length xs \<Longrightarrow> length (remove_nth i xs) = length xs - 1"
  by (simp add: remove_nth_def)

lemma set_remove_nth: "set (remove_nth i xs) \<subseteq> set xs"
  by (auto simp: remove_nth_def dest: in_set_takeD in_set_dropD)

subsection \<open>Errors\<close>

text \<open>
  The variants of \<open>DbError\<close> the modelled operations return; free-text messages are kept only
  where they are a constant of the source.
\<close>

datatype db_error =
    PageNotFound page_id
  | ChecksumMismatch page_id u32 u32
  | ParseError string
  | WalChecksumMismatch u64 u32 u32
  | WalEntryTruncated u64
  | WalUnknownEntryType u8
  | WalInvalidHeader
  | TransactionAlreadyActive u64
  | NoActiveTransaction
  | StorageFull
  | DeadlockDetected
  | HeapPageFull page_id nat nat
  | InvalidSlot page_id u16 u16
  | AlreadyDeleted page_id u16
  | BTreeCorrupted string
  | InvalidValue string
  | ValueTooLarge nat nat
  | IndexKeyTooLong nat nat
  | KeyTooLong nat nat
  | CatalogNotInitialized
  | SequenceOverflow
  | LockTimeout
  | Internal string
  | OtherError string
  | Panic

text \<open>\<open>Panic\<close> stands for a panic (an index out of range, a failed assertion, an arithmetic overflow
  under overflow checks). The question-mark operator of the source is \<open>ebind\<close>.\<close>

definition ebind :: "'e + 'a \<Rightarrow> ('a \<Rightarrow> 'e + 'b) \<Rightarrow> 'e + 'b" where
  "ebind r f = (case r of Inl e \<Rightarrow> Inl e | Inr x \<Rightarrow> f x)"

lemma ebind_simps [simp]: "ebind (Inl e) f = Inl e" "ebind (Inr x) f = f x"
  by (simp_all add: ebind_def)

lemma ebind_Inr_iff: "ebind r f = Inr y \<longleftrightarrow> (\<exists>x. r = Inr x \<and> f x = Inr y)"
  by (cases r) simp_all

subsection \<open>Integers as bytes\<close>

text \<open>\<open>le_bytes n x\<close> are the \<open>n\<close> low bytes of \<open>x\<close>, least significant first.\<close>

primrec le_bytes :: "nat \<Rightarrow> nat \<Rightarrow> u8 list" where
  "le_bytes 0 x = []"
| "le_bytes (Suc n) x = word_of_nat x # le_bytes n (x div 256)"

primrec le_nat :: "u8 list \<Rightarrow> nat" where
  "le_nat [] = 0"
| "le_nat (b # bs) = unat b + 256 * le_nat bs"

definition be_bytes :: "nat \<Rightarrow> nat \<Rightarrow> u8 list" where
  "be_bytes n x = rev (le_bytes n x)"

definition be_nat :: "u8 list \<Rightarrow> nat" where
  "be_nat bs = le_nat (rev bs)"

definition u16_le :: "u16 \<Rightarrow> u8 list" where "u16_le w = le_bytes 2 (unat w)"
definition u32_le :: "u32 \<Rightarrow> u8 list" where "u32_le w = le_bytes 4 (unat w)"
definition u64_le :: "u64 \<Rightarrow> u8 list" where "u64_le w = le_bytes 8 (unat w)"
definition u64_be :: "u64 \<Rightarrow> u8 list" where "u64_be w = be_bytes 8 (unat w)"
definition u128_be :: "u128 \<Rightarrow> u8 list" where "u128_be w = be_bytes 16 (unat w)"

definition u16_of_le :: "u8 list \<Rightarrow> u16" where "u16_of_le bs = word_of_nat (le_nat bs)"
definition u32_of_le :: "u8 list \<Rightarrow> u32" where "u32_of_le bs = word_of_nat (le_nat bs)"
definition u64_of_le :: "u8 list \<Rightarrow> u64" where "u64_of_le bs = word_of_nat (le_nat bs)"
definition u64_of_be :: "u8 list \<Rightarrow> u64" where "u64_of_be bs = word_of_nat (be_nat bs)"
definition u128_of_be :: "u8 list \<Rightarrow> u128" where "u128_of_be bs = word_of_nat (be_nat bs)"

lemma length_le_bytes [simp]: "length (le_bytes n x) = n"
  by (induction n arbitrary: x) simp_all

lemma le_nat_bound: "le_nat bs < 256 ^ length bs"
proof (induction bs)
  case (Cons b bs)
  have "unat b < 256" using unsigned_less [of b, where ?'a = nat] by simp
  with Cons show ?case by simp
qed simp

lemma le_nat_le_bytes: "le_nat (le_bytes n x) = x mod 256 ^ n"
proof (induction n arbitrary: x)
  case (Suc n)
  have "le_nat (le_bytes (Suc n) x) = x mod 256 + 256 * ((x div 256) mod 256 ^ n)"
    by (simp add: Suc unat_of_nat)
  also have "\<dots> = x mod (256 * 256 ^ n)"
    by (simp add: mod_mult2_eq)
  finally show ?case by simp
qed simp

lemma le_bytes_le_nat: "length bs = n \<Longrightarrow> le_bytes n (le_nat bs) = bs"
proof (induction n arbitrary: bs)
  case (Suc n)
  then obtain b bs' where bs: "bs = b # bs'" and l: "length bs' = n"
    by (cases bs) auto
  have b: "unat b < 256" using unsigned_less [of b, where ?'a = nat] by simp
  have "(word_of_nat (unat b + 256 * le_nat bs') :: u8) = word_of_nat (unat b)"
    by (simp only: word_of_nat_eq_iff) (simp add: take_bit_eq_mod)
  moreover have "(unat b + 256 * le_nat bs') div 256 = le_nat bs'"
    using b by simp
  ultimately show ?case using Suc.IH [OF l] by (simp add: bs)
qed simp

text \<open>What a fixed-width integer encoding promises its clients.\<close>

locale int_codec =
  fixes enc :: "'w::len word \<Rightarrow> u8 list"
    and dec :: "u8 list \<Rightarrow> 'w word"
    and width :: nat
  assumes enc_length [simp]: "length (enc w) = width"
    and dec_enc [simp]: "dec (enc w) = w"
    and enc_dec: "length bs = width \<Longrightarrow> enc (dec bs) = bs"
begin

lemma enc_inj [simp]: "enc v = enc w \<longleftrightarrow> v = w"
  by (metis dec_enc)

lemma take_enc [simp]: "take width (enc w @ bs) = enc w"
  by simp

lemma drop_enc [simp]: "drop width (enc w @ bs) = bs"
  by simp

end

lemma word_le_roundtrip:
  assumes "256 ^ n = (2::nat) ^ LENGTH('w::len)"
  shows "word_of_nat (le_nat (le_bytes n (unat w))) = (w :: 'w word)"
proof -
  have "unat w < 256 ^ n" using unsigned_less [of w, where ?'a = nat] assms by simp
  then show ?thesis by (simp add: le_nat_le_bytes)
qed

lemma unat_word_le_nat:
  assumes "256 ^ length bs = (2::nat) ^ LENGTH('w::len)"
  shows "unat (word_of_nat (le_nat bs) :: 'w word) = le_nat bs"
  using le_nat_bound [of bs] assms by (simp add: unat_of_nat)

interpretation u16_le: int_codec u16_le u16_of_le 2
  by unfold_locales
    (simp_all add: u16_le_def u16_of_le_def word_le_roundtrip unat_word_le_nat le_bytes_le_nat)

interpretation u32_le: int_codec u32_le u32_of_le 4
  by unfold_locales
    (simp_all add: u32_le_def u32_of_le_def word_le_roundtrip unat_word_le_nat le_bytes_le_nat)

interpretation u64_le: int_codec u64_le u64_of_le 8
  by unfold_locales
    (simp_all add: u64_le_def u64_of_le_def word_le_roundtrip unat_word_le_nat le_bytes_le_nat)

interpretation u64_be: int_codec u64_be u64_of_be 8
  by unfold_locales
    (simp_all add: u64_be_def u64_of_be_def be_bytes_def be_nat_def word_le_roundtrip
      unat_word_le_nat le_bytes_le_nat)

interpretation u128_be: int_codec u128_be u128_of_be 16
  by unfold_locales
    (simp_all add: u128_be_def u128_of_be_def be_bytes_def be_nat_def word_le_roundtrip
      unat_word_le_nat le_bytes_le_nat)

subsection \<open>Lowest set bit and population count\<close>

lemma bit_u64_lt: "bit (w :: u64) i \<Longrightarrow> i < 64"
  using bit_imp_le_length [of w i] by simp

lemma ex_bit_u64: "(w :: u64) \<noteq> 0 \<Longrightarrow> \<exists>i < 64. bit w i"
  by (metis bit_0_eq bit_eqI bit_u64_lt bot_apply bot_bool_def)

lemma trailing_zeros_spec:
  assumes "w \<noteq> 0"
  shows "trailing_zeros w < 64" and "bit w (trailing_zeros w)"
    and "\<And>j. j < trailing_zeros w \<Longrightarrow> \<not> bit w j"
proof -
  let ?P = "\<lambda>i. \<not> bit w i"
  obtain i where i: "i < 64" "bit w i" using ex_bit_u64 [OF assms] by blast
  have "takeWhile ?P [0..<64] \<noteq> [0..<64]"
    using i by (subst takeWhile_eq_all_conv) auto
  then have lt: "length (takeWhile ?P [0..<64]) < length [0..<64::nat]"
    by (metis le_neq_implies_less length_takeWhile_le takeWhile_eq_take take_all_iff order_refl)
  then show "trailing_zeros w < 64" by (simp add: trailing_zeros_def)
  have "\<not> ?P ([0..<64] ! length (takeWhile ?P [0..<64]))"
    using lt by (rule nth_length_takeWhile)
  then show "bit w (trailing_zeros w)"
    using lt by (simp add: trailing_zeros_def)
  show "\<not> bit w j" if "j < trailing_zeros w" for j
  proof -
    from that have j: "j < length (takeWhile ?P [0..<64])" by (simp add: trailing_zeros_def)
    then have "takeWhile ?P [0..<64] ! j = [0..<64] ! j" by (rule takeWhile_nth)
    moreover have "?P (takeWhile ?P [0..<64] ! j)"
      using j nth_mem set_takeWhileD by fastforce
    ultimately show ?thesis using j lt by simp
  qed
qed

lemma count_ones_card: "count_ones w = card {i. bit w i}"
proof -
  have "count_ones w = card (set (filter (bit w) [0..<64]))"
    unfolding count_ones_def by (rule distinct_card [symmetric]) simp
  also have "set (filter (bit w) [0..<64]) = {i. bit w i}"
    using bit_u64_lt by auto
  finally show ?thesis .
qed

subsection \<open>Byte memory\<close>

type_synonym mem = "nat \<Rightarrow> u8"

definition read_bytes :: "mem \<Rightarrow> nat \<Rightarrow> nat \<Rightarrow> u8 list" where
  "read_bytes m off n = map m [off..<off + n]"

definition write_bytes :: "mem \<Rightarrow> nat \<Rightarrow> u8 list \<Rightarrow> mem" where
  "write_bytes m off bs =
     (\<lambda>i. if off \<le> i \<and> i < off + length bs then bs ! (i - off) else m i)"

lemma length_read_bytes [simp]: "length (read_bytes m off n) = n"
  by (simp add: read_bytes_def)

lemma nth_read_bytes [simp]: "i < n \<Longrightarrow> read_bytes m off n ! i = m (off + i)"
  by (simp add: read_bytes_def)

lemma read_bytes_cong:
  "(\<And>i. off \<le> i \<Longrightarrow> i < off + n \<Longrightarrow> m i = m' i) \<Longrightarrow> read_bytes m off n = read_bytes m' off n"
  by (simp add: read_bytes_def)

lemma read_bytes_append:
  "read_bytes m off (k + n) = read_bytes m off k @ read_bytes m (off + k) n"
  by (rule nth_equalityI) (auto simp: nth_append)

lemma take_read_bytes [simp]: "k \<le> n \<Longrightarrow> take k (read_bytes m off n) = read_bytes m off k"
  by (rule nth_equalityI) auto

lemma drop_read_bytes [simp]:
  "drop k (read_bytes m off n) = read_bytes m (off + k) (n - k)"
  by (rule nth_equalityI) (auto simp: ac_simps)

lemma read_write_same [mem_simps]:
  "length bs = n \<Longrightarrow> read_bytes (write_bytes m off bs) off n = bs"
  by (rule nth_equalityI) (auto simp: write_bytes_def)

lemma read_write_other [mem_simps]:
  "off + n \<le> off' \<or> off' + length bs \<le> off \<Longrightarrow>
   read_bytes (write_bytes m off' bs) off n = read_bytes m off n"
  by (rule read_bytes_cong) (auto simp: write_bytes_def)

lemma read_write_inside:
  "off' \<le> off \<Longrightarrow> off + n \<le> off' + length bs \<Longrightarrow>
   read_bytes (write_bytes m off' bs) off n = take n (drop (off - off') bs)"
  by (rule nth_equalityI) (auto simp: write_bytes_def)

lemma write_bytes_outside:
  "i < off \<or> off + length bs \<le> i \<Longrightarrow> write_bytes m off bs i = m i"
  by (auto simp: write_bytes_def)

lemma write_bytes_overwrite:
  "length bs = length cs \<Longrightarrow> write_bytes (write_bytes m off bs) off cs = write_bytes m off cs"
  by (auto simp: write_bytes_def)

lemma write_read_bytes: "write_bytes m off (read_bytes m off n) = m"
  by (rule ext) (auto simp: write_bytes_def)

end
