(* ===== verification/Lock_Mode.thy ===== *)
theory Lock_Mode
  imports Axiom_Prelude
begin

text \<open>
  \<open>axiomdb-lock/src/mode.rs\<close>: the five lock modes, the conflict matrix and the lock flags.
  The interface \<open>lock_conflict\<close> is what the lock queue needs of the matrix.
\<close>

datatype lock_mode = IntentionShared | IntentionExclusive | Shared | Exclusive | AutoIncrement

text \<open>The discriminants of the \<open>repr(u8)\<close> enum, used as indices of the matrix.\<close>

primrec mode_index :: "lock_mode \<Rightarrow> nat" where
  "mode_index IntentionShared = 0"
| "mode_index IntentionExclusive = 1"
| "mode_index Shared = 2"
| "mode_index Exclusive = 3"
| "mode_index AutoIncrement = 4"

primrec short_name :: "lock_mode \<Rightarrow> string" where
  "short_name IntentionShared = ''IS''"
| "short_name IntentionExclusive = ''IX''"
| "short_name Shared = ''S''"
| "short_name Exclusive = ''X''"
| "short_name AutoIncrement = ''AI''"

definition CONFLICT_MATRIX :: "bool list list" where
  "CONFLICT_MATRIX =
     [[False, False, False, True, False],
      [False, False, True, True, False],
      [False, True, False, True, True],
      [True, True, True, True, True],
      [False, False, True, True, True]]"

definition conflicts :: "lock_mode \<Rightarrow> lock_mode \<Rightarrow> bool" where
  "conflicts held requested = CONFLICT_MATRIX ! mode_index held ! mode_index requested"

text \<open>\<open>LockFlags(u16)\<close>.\<close>

type_synonym lock_flags = u16

definition flag_none :: lock_flags where "flag_none = 0"
definition flag_waiting :: lock_flags where "flag_waiting = 0x0001"
definition flag_gap :: lock_flags where "flag_gap = 0x0002"
definition flag_rec_not_gap :: lock_flags where "flag_rec_not_gap = 0x0004"
definition flag_insert_intention :: lock_flags where "flag_insert_intention = 0x0008"
definition flag_table_lock :: lock_flags where "flag_table_lock = 0x0010"
definition flag_nowait :: lock_flags where "flag_nowait = 0x0020"

definition flags_contains :: "lock_flags \<Rightarrow> lock_flags \<Rightarrow> bool" where
  "flags_contains self other \<longleftrightarrow> self AND other = other \<and> other \<noteq> 0"

definition flags_union :: "lock_flags \<Rightarrow> lock_flags \<Rightarrow> lock_flags" where
  "flags_union self other = self OR other"

definition flags_difference :: "lock_flags \<Rightarrow> lock_flags \<Rightarrow> lock_flags" where
  "flags_difference self other = self AND NOT other"

definition flags_is_empty :: "lock_flags \<Rightarrow> bool" where
  "flags_is_empty self \<longleftrightarrow> self = 0"

text \<open>What the lock queue relies on: conflicts do not depend on who came first.\<close>

locale lock_conflict =
  fixes conf :: "'m \<Rightarrow> 'm \<Rightarrow> bool"
  assumes conf_sym: "conf a b \<longleftrightarrow> conf b a"

interpretation mode_conflict: lock_conflict conflicts
proof
  show "conflicts a b \<longleftrightarrow> conflicts b a" for a b
    by (cases a; cases b) (simp_all add: conflicts_def CONFLICT_MATRIX_def)
qed

lemma conflicts_Exclusive [simp]: "conflicts Exclusive m" "conflicts m Exclusive"
  by (cases m; simp add: conflicts_def CONFLICT_MATRIX_def)+

lemma flags_difference_contains:
  "\<not> flags_contains (flags_difference f g) g"
proof
  assume "flags_contains (flags_difference f g) g"
  then have eq: "(f AND NOT g) AND g = g" and nz: "g \<noteq> 0"
    by (auto simp: flags_contains_def flags_difference_def)
  have "(f AND NOT g) AND g = 0"
    by (rule bit_word_eqI) (auto simp: bit_simps)
  with eq nz show False by simp
qed

lemma flags_union_contains:
  "g \<noteq> 0 \<Longrightarrow> flags_contains (flags_union f g) g"
  unfolding flags_contains_def flags_union_def
  by (auto intro!: bit_word_eqI simp: bit_simps)

end
