(* ===== verification/Slot_Bitmap.thy ===== *)
theory Slot_Bitmap
  imports Axiom_Prelude
begin

text \<open>
  \<open>axiomdb-lock/src/bitmap.rs\<close>: the per-page bitmap of locked slots, a vector of 64-bit words
  that grows on demand. A slot number is a \<open>u16\<close>, so a bitmap never needs more than 1024
  words (\<open>bm_wf\<close>). The interface \<open>slot_set\<close> is what the lock queue relies on: the bitmap
  behaves as a set of slots.
\<close>

record slot_bitmap =
  sb_words :: "u64 list"

definition bm_new :: slot_bitmap where
  "bm_new = \<lparr>sb_words = []\<rparr>"

definition word_idx :: "u16 \<Rightarrow> nat" where
  "word_idx slot = unat slot div 64"

definition bit_idx :: "u16 \<Rightarrow> nat" where
  "bit_idx slot = unat slot mod 64"

definition bm_set :: "slot_bitmap \<Rightarrow> u16 \<Rightarrow> slot_bitmap" where
  "bm_set bm slot =
     (let ws = sb_words bm; wi = word_idx slot;
          ws' = (if length ws \<le> wi then ws @ replicate (wi + 1 - length ws) 0 else ws)
      in \<lparr>sb_words = ws'[wi := ws' ! wi OR push_bit (bit_idx slot) 1]\<rparr>)"

definition bm_with_slot :: "u16 \<Rightarrow> slot_bitmap" where
  "bm_with_slot slot = bm_set bm_new slot"

definition bm_clear :: "slot_bitmap \<Rightarrow> u16 \<Rightarrow> slot_bitmap" where
  "bm_clear bm slot =
     (let ws = sb_words bm; wi = word_idx slot
      in if wi < length ws
         then \<lparr>sb_words = ws[wi := ws ! wi AND NOT (push_bit (bit_idx slot) 1)]\<rparr>
         else bm)"

definition bm_test :: "slot_bitmap \<Rightarrow> u16 \<Rightarrow> bool" where
  "bm_test bm slot =
     (let ws = sb_words bm; wi = word_idx slot
      in if length ws \<le> wi then False
         else ws ! wi AND push_bit (bit_idx slot) 1 \<noteq> 0)"

definition bm_overlaps :: "slot_bitmap \<Rightarrow> slot_bitmap \<Rightarrow> bool" where
  "bm_overlaps a b =
     list_ex (\<lambda>i. sb_words a ! i AND sb_words b ! i \<noteq> 0)
       [0..<min (length (sb_words a)) (length (sb_words b))]"

definition bm_overlaps_slot :: "slot_bitmap \<Rightarrow> u16 \<Rightarrow> bool" where
  "bm_overlaps_slot bm slot = bm_test bm slot"

definition bm_is_empty :: "slot_bitmap \<Rightarrow> bool" where
  "bm_is_empty bm = list_all (\<lambda>w. w = 0) (sb_words bm)"

definition bm_clear_all :: "slot_bitmap \<Rightarrow> slot_bitmap" where
  "bm_clear_all bm = \<lparr>sb_words = map (\<lambda>_. 0) (sb_words bm)\<rparr>"

definition bm_count :: "slot_bitmap \<Rightarrow> nat" where
  "bm_count bm = sum_list (map count_ones (sb_words bm))"

primrec first_set_bit_from :: "nat \<Rightarrow> u64 list \<Rightarrow> u16 option" where
  "first_set_bit_from i [] = None"
| "first_set_bit_from i (w # ws) =
     (if w \<noteq> 0 then Some (word_of_nat i * 64 + word_of_nat (trailing_zeros w))
      else first_set_bit_from (Suc i) ws)"

definition bm_first_set_bit :: "slot_bitmap \<Rightarrow> u16 option" where
  "bm_first_set_bit bm = first_set_bit_from 0 (sb_words bm)"

definition bm_wf :: "slot_bitmap \<Rightarrow> bool" where
  "bm_wf bm \<longleftrightarrow> length (sb_words bm) \<le> 1024"

subsection \<open>The bitmap as a set of slots\<close>

locale slot_set =
  fixes empty :: 'b
    and insert_slot :: "'b \<Rightarrow> 's \<Rightarrow> 'b"
    and remove_slot :: "'b \<Rightarrow> 's \<Rightarrow> 'b"
    and member :: "'b \<Rightarrow> 's \<Rightarrow> bool"
    and invar :: "'b \<Rightarrow> bool"
  assumes member_empty: "\<not> member empty s"
    and member_insert: "invar b \<Longrightarrow> member (insert_slot b s) t \<longleftrightarrow> t = s \<or> member b t"
    and member_remove: "invar b \<Longrightarrow> member (remove_slot b s) t \<longleftrightarrow> t \<noteq> s \<and> member b t"
    and invar_empty: "invar empty"
    and invar_insert: "invar b \<Longrightarrow> invar (insert_slot b s)"
    and invar_remove: "invar b \<Longrightarrow> invar (remove_slot b s)"
begin

lemma member_single: "member (insert_slot empty s) t \<longleftrightarrow> t = s"
  by (simp add: member_insert member_empty invar_empty)

lemma insert_all:
  assumes "invar b"
  shows "member (foldl insert_slot b ss) t \<longleftrightarrow> t \<in> set ss \<or> member b t"
  using assms by (induction ss arbitrary: b) (auto simp: member_insert invar_insert)

end

lemma bit_idx_lt [simp]: "bit_idx s < 64"
  by (simp add: bit_idx_def)

lemma word_idx_lt [simp]: "word_idx s < 1024"
proof -
  have "unat s < 65536" using unsigned_less [of s, where ?'a = nat] by simp
  then show ?thesis by (simp add: word_idx_def)
qed

lemma slot_idx_inj: "word_idx s = word_idx t \<Longrightarrow> bit_idx s = bit_idx t \<Longrightarrow> s = t"
  unfolding word_idx_def bit_idx_def
  by (metis div_mult_mod_eq unsigned_word_eqI)

lemma bm_test_iff:
  "bm_test bm s \<longleftrightarrow>
     word_idx s < length (sb_words bm) \<and> bit (sb_words bm ! word_idx s) (bit_idx s)"
  by (auto simp: bm_test_def Let_def bit_iff_and_push_bit_not_eq_0)

interpretation bitmap: slot_set bm_new bm_set bm_clear bm_test "\<lambda>_. True"
proof
  show "bm_test (bm_set b s) t \<longleftrightarrow> t = s \<or> bm_test b t" for b s t
    by (auto simp: bm_test_iff bm_set_def Let_def nth_list_update nth_append bit_simps
        split: if_splits dest: slot_idx_inj)
  show "bm_test (bm_clear b s) t \<longleftrightarrow> t \<noteq> s \<and> bm_test b t" for b s t
    by (auto simp: bm_test_iff bm_clear_def Let_def nth_list_update bit_simps
        split: if_splits dest: slot_idx_inj)
qed (simp_all add: bm_test_iff bm_new_def)

definition slot_at :: "nat \<Rightarrow> nat \<Rightarrow> u16" where
  "slot_at i j = word_of_nat (i * 64 + j)"

lemma slot_at_idx:
  assumes "i < 1024" "j < 64"
  shows "word_idx (slot_at i j) = i" "bit_idx (slot_at i j) = j"
    "unat (slot_at i j) = i * 64 + j"
proof -
  have "i * 64 + j < 65536" using assms by simp
  then show *: "unat (slot_at i j) = i * 64 + j"
    by (simp only: slot_at_def unat_of_nat) simp
  show "word_idx (slot_at i j) = i" "bit_idx (slot_at i j) = j"
    using assms by (simp_all add: word_idx_def bit_idx_def *)
qed

lemma slot_at_word_bit: "slot_at (word_idx s) (bit_idx s) = s"
  by (simp add: slot_at_def word_idx_def bit_idx_def)

lemma bm_test_slot_at:
  "i < 1024 \<Longrightarrow> j < 64 \<Longrightarrow>
   bm_test bm (slot_at i j) \<longleftrightarrow> i < length (sb_words bm) \<and> bit (sb_words bm ! i) j"
  by (simp add: bm_test_iff slot_at_idx)

lemma bm_wf_new [simp]: "bm_wf bm_new"
  by (simp add: bm_wf_def bm_new_def)

lemma bm_wf_set [simp]: "bm_wf bm \<Longrightarrow> bm_wf (bm_set bm s)"
proof -
  assume wf: "bm_wf bm"
  have "Suc (word_idx s) \<le> 1024" by (simp only: Suc_le_eq word_idx_lt)
  with wf show ?thesis by (auto simp: bm_wf_def bm_set_def Let_def)
qed

lemma bm_wf_clear [simp]: "bm_wf bm \<Longrightarrow> bm_wf (bm_clear bm s)"
  by (auto simp: bm_wf_def bm_clear_def Let_def)

lemma bm_with_slot_test [simp]: "bm_test (bm_with_slot s) t \<longleftrightarrow> t = s"
  unfolding bm_with_slot_def by (rule bitmap.member_single)

lemma bm_wf_with_slot [simp]: "bm_wf (bm_with_slot s)"
  by (simp add: bm_with_slot_def)

lemma bm_overlaps_iff:
  assumes "bm_wf a"
  shows "bm_overlaps a b \<longleftrightarrow> (\<exists>s. bm_test a s \<and> bm_test b s)"
proof
  assume "bm_overlaps a b"
  then obtain i where i: "i < length (sb_words a)" "i < length (sb_words b)"
      and nz: "sb_words a ! i AND sb_words b ! i \<noteq> 0"
    by (auto simp: bm_overlaps_def list_ex_iff)
  from ex_bit_u64 [OF nz] obtain j
    where "j < 64" "bit (sb_words a ! i) j" "bit (sb_words b ! i) j"
    by (auto simp: bit_simps)
  moreover from i assms have "i < 1024" by (simp add: bm_wf_def)
  ultimately have "bm_test a (slot_at i j) \<and> bm_test b (slot_at i j)"
    using i by (simp add: bm_test_slot_at)
  then show "\<exists>s. bm_test a s \<and> bm_test b s" by blast
next
  assume "\<exists>s. bm_test a s \<and> bm_test b s"
  then obtain s where s: "bm_test a s" "bm_test b s" by blast
  then have "bit (sb_words a ! word_idx s AND sb_words b ! word_idx s) (bit_idx s)"
    by (simp add: bm_test_iff bit_simps)
  then have "sb_words a ! word_idx s AND sb_words b ! word_idx s \<noteq> 0" by auto
  with s show "bm_overlaps a b"
    by (auto simp: bm_overlaps_def list_ex_iff bm_test_iff)
qed

lemma first_set_bit_from_None:
  "first_set_bit_from i ws = None \<longleftrightarrow> (\<forall>w \<in> set ws. w = 0)"
  by (induction ws arbitrary: i) auto

lemma first_set_bit_from_Some:
  "first_set_bit_from i ws = Some s \<Longrightarrow>
   \<exists>k < length ws. s = slot_at (i + k) (trailing_zeros (ws ! k)) \<and> ws ! k \<noteq> 0
     \<and> (\<forall>k' < k. ws ! k' = 0)"
proof (induction ws arbitrary: i)
  case (Cons w ws)
  show ?case
  proof (cases "w = 0")
    case True
    with Cons.prems have "first_set_bit_from (Suc i) ws = Some s" by simp
    from Cons.IH [OF this] obtain k where
      "k < length ws" "s = slot_at (Suc i + k) (trailing_zeros (ws ! k))" "ws ! k \<noteq> 0"
      "\<forall>k' < k. ws ! k' = 0" by blast
    with True show ?thesis
      by (intro exI [of _ "Suc k"]) (auto simp: less_Suc_eq_0_disj)
  next
    case False
    with Cons.prems show ?thesis
      by (intro exI [of _ 0]) (auto simp: slot_at_def)
  qed
qed simp

lemma bm_first_set_bit_None: "bm_first_set_bit bm = None \<Longrightarrow> \<not> bm_test bm s"
proof
  assume "bm_first_set_bit bm = None" "bm_test bm s"
  then have "\<forall>w \<in> set (sb_words bm). w = 0" "word_idx s < length (sb_words bm)"
      and b: "bit (sb_words bm ! word_idx s) (bit_idx s)"
    by (simp_all add: bm_first_set_bit_def first_set_bit_from_None bm_test_iff)
  then have "sb_words bm ! word_idx s = 0" by (blast intro: nth_mem)
  with b show False by simp
qed

lemma bm_first_set_bit_Some:
  assumes wf: "bm_wf bm" and s: "bm_first_set_bit bm = Some s"
  shows "bm_test bm s" and "\<And>t. bm_test bm t \<Longrightarrow> s \<le> t"
proof -
  let ?ws = "sb_words bm"
  from s obtain k where k: "k < length ?ws" "?ws ! k \<noteq> 0" "\<forall>k' < k. ?ws ! k' = 0"
      and s': "s = slot_at k (trailing_zeros (?ws ! k))"
    using first_set_bit_from_Some [of 0 ?ws s] by (auto simp: bm_first_set_bit_def)
  note tz = trailing_zeros_spec [OF k(2)]
  have k1024: "k < 1024" using k(1) wf by (simp add: bm_wf_def)
  show "bm_test bm s"
    using k(1) by (simp add: s' bm_test_slot_at k1024 tz(1,2))
  show "s \<le> t" if t: "bm_test bm t" for t
  proof -
    have wt: "word_idx t < length ?ws" and bt: "bit (?ws ! word_idx t) (bit_idx t)"
      using t by (auto simp: bm_test_iff)
    have le: "k \<le> word_idx t"
    proof (rule ccontr)
      assume "\<not> k \<le> word_idx t"
      with k(3) have "?ws ! word_idx t = 0" by simp
      with bt show False by simp
    qed
    have eq: "trailing_zeros (?ws ! k) \<le> bit_idx t" if "k = word_idx t"
    proof (rule ccontr)
      assume "\<not> trailing_zeros (?ws ! k) \<le> bit_idx t"
      then have "\<not> bit (?ws ! k) (bit_idx t)" by (intro tz(3)) simp
      with bt that show False by simp
    qed
    have ut: "unat t = word_idx t * 64 + bit_idx t"
      by (simp add: word_idx_def bit_idx_def)
    have us: "unat s = k * 64 + trailing_zeros (?ws ! k)"
      unfolding s' by (rule slot_at_idx(3) [OF k1024 tz(1)])
    have "unat s \<le> unat t"
    proof (cases "k = word_idx t")
      case True
      with eq us ut show ?thesis by simp
    next
      case False
      with le tz(1) show ?thesis unfolding us ut by linarith
    qed
    then show ?thesis by (simp add: word_le_nat_alt)
  qed
qed

lemma bm_first_set_bit_with_slot [simp]: "bm_first_set_bit (bm_with_slot s) = Some s"
proof (cases "bm_first_set_bit (bm_with_slot s)")
  case None
  from bm_first_set_bit_None [OF this, of s] show ?thesis by simp
next
  case (Some t)
  from bm_first_set_bit_Some(1) [OF _ Some] show ?thesis by (simp add: Some)
qed

lemma bm_is_empty_iff: "bm_wf bm \<Longrightarrow> bm_is_empty bm \<longleftrightarrow> (\<forall>s. \<not> bm_test bm s)"
proof
  assume "bm_is_empty bm"
  then show "\<forall>s. \<not> bm_test bm s"
    by (auto simp: bm_is_empty_def list_all_length bm_test_iff)
next
  assume wf: "bm_wf bm" and none: "\<forall>s. \<not> bm_test bm s"
  have "bm_first_set_bit bm = None"
    using none bm_first_set_bit_Some(1) [OF wf] by (cases "bm_first_set_bit bm") auto
  then show "bm_is_empty bm"
    by (simp add: bm_first_set_bit_def first_set_bit_from_None bm_is_empty_def list_all_iff)
qed

lemma bm_count_card:
  assumes "bm_wf bm"
  shows "bm_count bm = card {s. bm_test bm s}"
proof -
  let ?ws = "sb_words bm"
  let ?B = "\<lambda>i. {j. bit (?ws ! i) j}"
  have fin: "finite (?B i)" for i
    by (rule finite_subset [of _ "{..<64}"]) (auto dest: bit_u64_lt)
  have "bm_count bm = (\<Sum>i<length ?ws. card (?B i))"
    by (simp add: bm_count_def sum_list_sum_nth count_ones_card atLeast0LessThan)
  also have "\<dots> = card (Sigma {..<length ?ws} ?B)"
    using fin by (simp add: card_SigmaI)
  also have "\<dots> = card {s. bm_test bm s}"
  proof (rule bij_betw_same_card [of "\<lambda>(i, j). slot_at i j"], rule bij_betw_imageI)
    have lt: "i < 1024" "j < 64" if "(i, j) \<in> Sigma {..<length ?ws} ?B" for i j
      using that assms by (auto simp: bm_wf_def dest: bit_u64_lt)
    show "inj_on (\<lambda>(i, j). slot_at i j) (Sigma {..<length ?ws} ?B)"
    proof (rule inj_onI)
      fix x y
      assume x: "x \<in> Sigma {..<length ?ws} ?B" and y: "y \<in> Sigma {..<length ?ws} ?B"
        and eq: "(\<lambda>(i, j). slot_at i j) x = (\<lambda>(i, j). slot_at i j) y"
      obtain i j i' j' where xy: "x = (i, j)" "y = (i', j')" by (cases x, cases y)
      show "x = y"
        using eq slot_at_idx(1,2) [OF lt(1) [OF x [unfolded xy]] lt(2) [OF x [unfolded xy]]]
          slot_at_idx(1,2) [OF lt(1) [OF y [unfolded xy]] lt(2) [OF y [unfolded xy]]]
        by (simp add: xy)
    qed
    show "(\<lambda>(i, j). slot_at i j) ` Sigma {..<length ?ws} ?B = {s. bm_test bm s}"
    proof (intro set_eqI iffI)
      fix s assume "s \<in> (\<lambda>(i, j). slot_at i j) ` Sigma {..<length ?ws} ?B"
      then obtain x where x: "x \<in> Sigma {..<length ?ws} ?B" and sx: "s = (\<lambda>(i, j). slot_at i j) x"
        by (rule imageE)
      obtain i j where xij: "x = (i, j)" by (cases x)
      have ij: "(i, j) \<in> Sigma {..<length ?ws} ?B" and s: "s = slot_at i j"
        using x sx by (simp_all add: xij)
      from ij lt(1) [OF ij] lt(2) [OF ij] show "s \<in> {s. bm_test bm s}"
        by (simp add: s bm_test_slot_at)
    next
      fix s assume "s \<in> {s. bm_test bm s}"
      then have "(word_idx s, bit_idx s) \<in> Sigma {..<length ?ws} ?B"
        by (simp add: bm_test_iff)
      then have "(\<lambda>(i, j). slot_at i j) (word_idx s, bit_idx s)
          \<in> (\<lambda>(i, j). slot_at i j) ` Sigma {..<length ?ws} ?B" by (rule imageI)
      then show "s \<in> (\<lambda>(i, j). slot_at i j) ` Sigma {..<length ?ws} ?B"
        by (simp add: slot_at_word_bit)
    qed
  qed
  finally show ?thesis .
qed

end
