(* ===== verification/Lock_Queue.thy ===== *)
theory Lock_Queue
  imports Lock_Mode Slot_Bitmap "HOL-Library.Sublist" "HOL-Library.Multiset"
begin

text \<open>
  \<open>axiomdb-lock/src/entry.rs\<close>: the queue of granted locks and FIFO waiters of one page or one
  table. A notification handle (\<open>Arc<Notify>\<close>, \<open>Arc<SyncNotify>\<close>) is modelled by its
  identity, and an \<open>Instant\<close> by a number of clock ticks passed in by the caller.
  The interface \<open>clash_free\<close> collects what is needed to keep a list of granted entries free
  of clashes; it is interpreted on the entries of the model.
\<close>

record lock_entry =
  le_txn_id :: txn_id
  le_mode :: lock_mode
  le_flags :: lock_flags
  le_requested_at :: nat
  le_bitmap :: "slot_bitmap option"

datatype wait_abort_reason = Deadlock | Timeout

datatype waiter_signal = AsyncSignal nat | SyncSignal nat

record lock_waiter =
  lw_entry :: lock_entry
  lw_signal :: waiter_signal
  lw_abort_reason :: "wait_abort_reason option"

record lock_queue =
  granted :: "lock_entry list"
  waiting :: "lock_waiter list"

definition queue_new :: lock_queue where
  "queue_new = \<lparr>granted = [], waiting = []\<rparr>"

primrec find_conflict_in ::
  "lock_entry list \<Rightarrow> txn_id \<Rightarrow> lock_mode \<Rightarrow> u16 option \<Rightarrow> txn_id option" where
  "find_conflict_in [] txn mode slot = None"
| "find_conflict_in (e # es) txn mode slot =
     (if le_txn_id e = txn then find_conflict_in es txn mode slot
      else if \<not> conflicts (le_mode e) mode then find_conflict_in es txn mode slot
      else (case (slot, le_bitmap e) of
              (Some sid, Some bm) \<Rightarrow>
                if \<not> bm_overlaps_slot bm sid then find_conflict_in es txn mode slot
                else Some (le_txn_id e)
            | _ \<Rightarrow> Some (le_txn_id e)))"

definition find_conflict ::
  "lock_queue \<Rightarrow> txn_id \<Rightarrow> lock_mode \<Rightarrow> u16 option \<Rightarrow> txn_id option" where
  "find_conflict q txn mode slot = find_conflict_in (granted q) txn mode slot"

definition find_granted_idx :: "lock_queue \<Rightarrow> txn_id \<Rightarrow> lock_mode \<Rightarrow> nat option" where
  "find_granted_idx q txn mode =
     position (\<lambda>e. le_txn_id e = txn \<and> le_mode e = mode) (granted q)"

definition find_any_granted_idx :: "lock_queue \<Rightarrow> txn_id \<Rightarrow> nat option" where
  "find_any_granted_idx q txn = position (\<lambda>e. le_txn_id e = txn) (granted q)"

text \<open>The slot a waiter asks for: the first bit of its bitmap, none for a table lock.\<close>

definition waiter_slot :: "lock_waiter \<Rightarrow> u16 option" where
  "waiter_slot w = Option.bind (le_bitmap (lw_entry w)) bm_first_set_bit"

definition promote :: "lock_waiter \<Rightarrow> lock_entry" where
  "promote w = (lw_entry w)\<lparr>le_flags := flags_difference (le_flags (lw_entry w)) flag_waiting\<rparr>"

text \<open>The \<open>while i < waiting.len()\<close> loop of \<open>try_grant_waiters\<close>.\<close>

function try_grant_loop ::
  "lock_queue \<Rightarrow> nat \<Rightarrow> waiter_signal list \<Rightarrow> lock_queue \<times> waiter_signal list" where
  "try_grant_loop q i sigs =
     (if i < length (waiting q) then
        let w = waiting q ! i in
        if find_conflict q (le_txn_id (lw_entry w)) (le_mode (lw_entry w)) (waiter_slot w) \<noteq> None
        then try_grant_loop q (i + 1) sigs
        else try_grant_loop
               \<lparr>granted = granted q @ [promote w], waiting = remove_nth i (waiting q)\<rparr>
               i (sigs @ [lw_signal w])
      else (q, sigs))"
  by pat_completeness auto
termination
  by (relation "measure (\<lambda>(q, i, sigs). length (waiting q) - i)") auto

definition try_grant_waiters :: "lock_queue \<Rightarrow> lock_queue \<times> waiter_signal list" where
  "try_grant_waiters q = try_grant_loop q 0 []"

definition remove_granted_by_txn :: "lock_queue \<Rightarrow> txn_id \<Rightarrow> lock_queue \<times> lock_entry list" where
  "remove_granted_by_txn q txn =
     (q\<lparr>granted := filter (\<lambda>e. le_txn_id e \<noteq> txn) (granted q)\<rparr>,
      filter (\<lambda>e. le_txn_id e = txn) (granted q))"

definition remove_waiter_by_txn :: "lock_queue \<Rightarrow> txn_id \<Rightarrow> lock_queue \<times> lock_waiter option" where
  "remove_waiter_by_txn q txn =
     (case position (\<lambda>w. le_txn_id (lw_entry w) = txn) (waiting q) of
        None \<Rightarrow> (q, None)
      | Some pos \<Rightarrow> (q\<lparr>waiting := remove_nth pos (waiting q)\<rparr>, Some (waiting q ! pos)))"

definition queue_is_empty :: "lock_queue \<Rightarrow> bool" where
  "queue_is_empty q \<longleftrightarrow> granted q = [] \<and> waiting q = []"

declare try_grant_loop.simps [simp del]

subsection \<open>When two entries clash\<close>

text \<open>
  Two entries clash when they belong to different transactions, their modes conflict and, for
  record locks, they cover a common slot.
\<close>

definition entries_clash :: "lock_entry \<Rightarrow> lock_entry \<Rightarrow> bool" where
  "entries_clash a b \<longleftrightarrow>
     le_txn_id a \<noteq> le_txn_id b \<and> conflicts (le_mode a) (le_mode b) \<and>
     (case (le_bitmap a, le_bitmap b) of
        (Some x, Some y) \<Rightarrow> (\<exists>s. bm_test x s \<and> bm_test y s)
      | _ \<Rightarrow> True)"

definition entry_blocks :: "lock_entry \<Rightarrow> txn_id \<Rightarrow> lock_mode \<Rightarrow> u16 option \<Rightarrow> bool" where
  "entry_blocks e txn mode slot \<longleftrightarrow>
     le_txn_id e \<noteq> txn \<and> conflicts (le_mode e) mode \<and>
     (case (slot, le_bitmap e) of (Some s, Some bm) \<Rightarrow> bm_test bm s | _ \<Rightarrow> True)"

text \<open>Lists of granted entries without a clash.\<close>

locale clash_free =
  fixes clash :: "'e \<Rightarrow> 'e \<Rightarrow> bool"
  assumes clash_sym: "clash a b \<longleftrightarrow> clash b a"
begin

abbreviation ok :: "'e list \<Rightarrow> bool" where
  "ok es \<equiv> sorted_wrt (\<lambda>a b. \<not> clash a b) es"

lemma ok_filter: "ok es \<Longrightarrow> ok (filter P es)"
  by (rule sorted_wrt_filter)

lemma ok_snoc: "ok (es @ [e]) \<longleftrightarrow> ok es \<and> (\<forall>a \<in> set es. \<not> clash a e)"
  by (auto simp: sorted_wrt_append)

lemma ok_nth: "ok es \<longleftrightarrow> (\<forall>i < length es. \<forall>j < length es. i \<noteq> j \<longrightarrow> \<not> clash (es ! i) (es ! j))"
proof
  assume "ok es"
  then have lt: "\<not> clash (es ! i) (es ! j)" if "i < j" "j < length es" for i j
    using that by (simp add: sorted_wrt_iff_nth_less)
  show "\<forall>i < length es. \<forall>j < length es. i \<noteq> j \<longrightarrow> \<not> clash (es ! i) (es ! j)"
    using lt clash_sym by (metis linorder_neqE_nat)
next
  assume "\<forall>i < length es. \<forall>j < length es. i \<noteq> j \<longrightarrow> \<not> clash (es ! i) (es ! j)"
  then show "ok es" by (simp add: sorted_wrt_iff_nth_less)
qed

lemma ok_update:
  assumes "ok es" "i < length es" "\<And>j. j < length es \<Longrightarrow> j \<noteq> i \<Longrightarrow> \<not> clash e (es ! j)"
  shows "ok (es[i := e])"
  using assms clash_sym unfolding ok_nth by (auto simp: nth_list_update)

end

interpretation entries: clash_free entries_clash
proof
  show "entries_clash a b \<longleftrightarrow> entries_clash b a" for a b
    using mode_conflict.conf_sym [of "le_mode a" "le_mode b"]
    by (auto simp: entries_clash_def split: option.splits)
qed

text \<open>No two granted entries of a queue clash.\<close>

definition queue_compatible :: "lock_queue \<Rightarrow> bool" where
  "queue_compatible q \<longleftrightarrow> sorted_wrt (\<lambda>a b. \<not> entries_clash a b) (granted q)"

text \<open>A waiter asks for one slot (record lock) or for the whole object (table lock).\<close>

definition waiter_wf :: "lock_waiter \<Rightarrow> bool" where
  "waiter_wf w \<longleftrightarrow>
     (case le_bitmap (lw_entry w) of None \<Rightarrow> True | Some bm \<Rightarrow> \<exists>s. bm = bm_with_slot s)"

lemma find_conflict_in_None:
  "find_conflict_in es txn mode slot = None \<longleftrightarrow> (\<forall>e \<in> set es. \<not> entry_blocks e txn mode slot)"
  by (induction es)
    (auto simp: entry_blocks_def bm_overlaps_slot_def split: option.splits)

lemma find_conflict_in_Some:
  "find_conflict_in es txn mode slot = Some h \<Longrightarrow>
   \<exists>e \<in> set es. le_txn_id e = h \<and> entry_blocks e txn mode slot"
  by (induction es)
    (auto simp: entry_blocks_def bm_overlaps_slot_def split: option.splits if_splits)

lemma find_conflict_None:
  "find_conflict q txn mode slot = None \<longleftrightarrow>
   (\<forall>e \<in> set (granted q). \<not> entry_blocks e txn mode slot)"
  by (simp add: find_conflict_def find_conflict_in_None)

lemma find_conflict_Some:
  "find_conflict q txn mode slot = Some h \<Longrightarrow>
   \<exists>e \<in> set (granted q). le_txn_id e = h \<and> entry_blocks e txn mode slot"
  by (simp add: find_conflict_def find_conflict_in_Some)

lemma promote_sel [simp]:
  "le_txn_id (promote w) = le_txn_id (lw_entry w)"
  "le_mode (promote w) = le_mode (lw_entry w)"
  "le_bitmap (promote w) = le_bitmap (lw_entry w)"
  by (simp_all add: promote_def)

lemma clash_single_slot:
  "le_bitmap b = Some (bm_with_slot s) \<Longrightarrow>
   entries_clash a b \<longleftrightarrow> entry_blocks a (le_txn_id b) (le_mode b) (Some s)"
  by (auto simp: entries_clash_def entry_blocks_def split: option.splits)

lemma clash_whole:
  "le_bitmap b = None \<Longrightarrow>
   entries_clash a b \<longleftrightarrow> entry_blocks a (le_txn_id b) (le_mode b) None"
  by (auto simp: entries_clash_def entry_blocks_def split: option.splits)

lemma clash_promote:
  "waiter_wf w \<Longrightarrow> entries_clash a (promote w) \<longleftrightarrow>
   entry_blocks a (le_txn_id (lw_entry w)) (le_mode (lw_entry w)) (waiter_slot w)"
  by (auto simp: waiter_wf_def waiter_slot_def clash_single_slot clash_whole split: option.splits)

subsection \<open>The grant loop against a structural scan\<close>

primrec grant_scan ::
  "lock_entry list \<Rightarrow> lock_waiter list \<Rightarrow> lock_waiter list \<times> lock_waiter list" where
  "grant_scan g [] = ([], [])"
| "grant_scan g (w # ws) =
     (if find_conflict_in g (le_txn_id (lw_entry w)) (le_mode (lw_entry w)) (waiter_slot w) \<noteq> None
      then (let (ps, rs) = grant_scan g ws in (ps, w # rs))
      else (let (ps, rs) = grant_scan (g @ [promote w]) ws in (w # ps, rs)))"

lemma try_grant_loop_scan:
  "i \<le> length (waiting q) \<Longrightarrow>
   try_grant_loop q i sigs =
     (let (ps, rs) = grant_scan (granted q) (drop i (waiting q))
      in (\<lparr>granted = granted q @ map promote ps, waiting = take i (waiting q) @ rs\<rparr>,
          sigs @ map lw_signal ps))"
proof (induction q i sigs rule: try_grant_loop.induct)
  case (1 q i sigs)
  show ?case
  proof (cases "i < length (waiting q)")
    case False
    with "1.prems" show ?thesis by (simp add: try_grant_loop.simps [of q])
  next
    case True
    define w where "w = waiting q ! i"
    let ?c = "find_conflict q (le_txn_id (lw_entry w)) (le_mode (lw_entry w)) (waiter_slot w)"
    have dw: "drop i (waiting q) = w # drop (Suc i) (waiting q)"
      using True by (simp add: w_def Cons_nth_drop_Suc)
    have tw: "take (Suc i) (waiting q) = take i (waiting q) @ [w]"
      using True by (simp add: w_def take_Suc_conv_app_nth)
    show ?thesis
    proof (cases "?c = None")
      case False
      then show ?thesis
        using "1.IH"(1) [OF True w_def] True dw tw
        by (auto simp: try_grant_loop.simps [of q i] w_def [symmetric] find_conflict_def
            split: prod.splits)
    next
      case none: True
      let ?q = "\<lparr>granted = granted q @ [promote w], waiting = remove_nth i (waiting q)\<rparr>"
      have r: "take i (remove_nth i (waiting q)) = take i (waiting q)"
          "drop i (remove_nth i (waiting q)) = drop (Suc i) (waiting q)"
          "i \<le> length (waiting ?q)"
        using True by (auto simp: remove_nth_def min_def)
      from none have "try_grant_loop q i sigs = try_grant_loop ?q i (sigs @ [lw_signal w])"
        using True by (subst try_grant_loop.simps) (simp add: w_def Let_def)
      moreover have "try_grant_loop ?q i (sigs @ [lw_signal w]) =
          (let (ps, rs) = grant_scan (granted ?q) (drop i (waiting ?q))
           in (\<lparr>granted = granted ?q @ map promote ps, waiting = take i (waiting ?q) @ rs\<rparr>,
               (sigs @ [lw_signal w]) @ map lw_signal ps))"
        using "1.IH"(2) [OF True w_def] none r(3) by simp
      ultimately show ?thesis
        using none by (auto simp: r dw find_conflict_def split: prod.splits)
    qed
  qed
qed

lemma try_grant_waiters_scan:
  assumes "grant_scan (granted q) (waiting q) = (ps, rs)"
  shows "try_grant_waiters q =
     (\<lparr>granted = granted q @ map promote ps, waiting = rs\<rparr>, map lw_signal ps)"
  using assms by (simp add: try_grant_waiters_def try_grant_loop_scan)

lemma grant_scan_compatible:
  assumes "grant_scan g ws = (ps, rs)" "sorted_wrt (\<lambda>a b. \<not> entries_clash a b) g"
    "\<And>w. w \<in> set ws \<Longrightarrow> waiter_wf w"
  shows "sorted_wrt (\<lambda>a b. \<not> entries_clash a b) (g @ map promote ps)"
  using assms
proof (induction ws arbitrary: g ps rs)
  case (Cons w ws)
  show ?case
  proof (cases "find_conflict_in g (le_txn_id (lw_entry w)) (le_mode (lw_entry w)) (waiter_slot w)")
    case None
    with Cons.prems(1) obtain ps' where ps: "ps = w # ps'"
        and scan: "grant_scan (g @ [promote w]) ws = (ps', rs)"
      by (auto split: prod.splits)
    have "\<forall>a \<in> set g. \<not> entries_clash a (promote w)"
      using None Cons.prems(3) [of w] by (simp add: find_conflict_in_None clash_promote)
    then have "sorted_wrt (\<lambda>a b. \<not> entries_clash a b) (g @ [promote w])"
      using Cons.prems(2) by (simp only: entries.ok_snoc)
    from Cons.IH [OF scan this] Cons.prems(3) show ?thesis by (simp add: ps)
  next
    case (Some h)
    with Cons.prems(1) obtain rs' where "grant_scan g ws = (ps, rs')"
      by (auto split: prod.splits)
    from Cons.IH [OF this Cons.prems(2)] Cons.prems(3) show ?thesis by simp
  qed
qed simp

lemma grant_scan_maximal:
  assumes "grant_scan g ws = (ps, rs)" "w \<in> set rs"
  shows "\<exists>e \<in> set (g @ map promote ps).
    entry_blocks e (le_txn_id (lw_entry w)) (le_mode (lw_entry w)) (waiter_slot w)"
  using assms
proof (induction ws arbitrary: g ps rs)
  case (Cons v ws)
  show ?case
  proof (cases "find_conflict_in g (le_txn_id (lw_entry v)) (le_mode (lw_entry v)) (waiter_slot v)")
    case None
    with Cons.prems(1) obtain ps' where ps: "ps = v # ps'"
        and scan: "grant_scan (g @ [promote v]) ws = (ps', rs)"
      by (auto split: prod.splits)
    from Cons.IH [OF scan Cons.prems(2)] show ?thesis by (auto simp: ps)
  next
    case (Some h)
    with Cons.prems(1) obtain rs' where scan: "grant_scan g ws = (ps, rs')" and rs: "rs = v # rs'"
      by (auto split: prod.splits)
    show ?thesis
    proof (cases "w = v")
      case True
      with find_conflict_in_Some [OF Some] show ?thesis by auto
    next
      case False
      with Cons.prems(2) rs have "w \<in> set rs'" by simp
      from Cons.IH [OF scan this] show ?thesis .
    qed
  qed
qed simp

lemma grant_scan_partition:
  assumes "grant_scan g ws = (ps, rs)"
  shows "mset ws = mset ps + mset rs" "subseq ps ws" "subseq rs ws"
  using assms
  by (induction ws arbitrary: g ps rs) (auto split: prod.splits if_splits)

subsection \<open>What the grant loop promises\<close>

text \<open>Promoting waiters never creates a conflict. If no two granted entries of a queue clash
  and every waiter asks for one slot or for the whole object, then after
  \<open>try_grant_waiters\<close> still no two granted entries clash, however many waiters were promoted
  in the pass.\<close>

lemma try_grant_waiters_compatible:
  assumes "queue_compatible q" "\<forall>w \<in> set (waiting q). waiter_wf w"
  shows "queue_compatible (fst (try_grant_waiters q))"
proof -
  obtain ps rs where scan: "grant_scan (granted q) (waiting q) = (ps, rs)" by fastforce
  from grant_scan_compatible [OF scan] assms show ?thesis
    by (simp add: try_grant_waiters_scan [OF scan] queue_compatible_def)
qed

definition rec_entry :: "txn_id \<Rightarrow> lock_mode \<Rightarrow> u16 \<Rightarrow> lock_entry" where
  "rec_entry txn mode slot =
     \<lparr>le_txn_id = txn, le_mode = mode, le_flags = 0, le_requested_at = 0,
      le_bitmap = Some (bm_with_slot slot)\<rparr>"

definition rec_waiter :: "txn_id \<Rightarrow> lock_mode \<Rightarrow> u16 \<Rightarrow> nat \<Rightarrow> lock_waiter" where
  "rec_waiter txn mode slot n =
     \<lparr>lw_entry = rec_entry txn mode slot, lw_signal = SyncSignal n, lw_abort_reason = None\<rparr>"

definition demo_queue :: lock_queue where
  "demo_queue =
     \<lparr>granted = [rec_entry 1 Exclusive 5],
      waiting = [rec_waiter 2 Shared 5 0, rec_waiter 3 Shared 10 1]\<rparr>"

lemma demo_queue_ok: "queue_compatible demo_queue" "\<forall>w \<in> set (waiting demo_queue). waiter_wf w"
  by (auto simp: demo_queue_def queue_compatible_def waiter_wf_def rec_waiter_def rec_entry_def)

text \<open>C22: No waiter is left behind that could have been granted: after \<open>try_grant_waiters\<close>
  every waiter still in the queue is blocked by some granted entry of another transaction.\<close>

theorem try_grant_waiters_maximal:
  assumes "try_grant_waiters q = (q', sigs)" "w \<in> set (waiting q')"
  shows "find_conflict q' (le_txn_id (lw_entry w)) (le_mode (lw_entry w)) (waiter_slot w) \<noteq> None"
proof -
  obtain ps rs where scan: "grant_scan (granted q) (waiting q) = (ps, rs)" by fastforce
  with assms have q': "q' = \<lparr>granted = granted q @ map promote ps, waiting = rs\<rparr>"
    by (simp add: try_grant_waiters_scan)
  with assms(2) grant_scan_maximal [OF scan] show ?thesis
    by (simp add: find_conflict_None)
qed

lemma demo_queue_grant:
  "try_grant_waiters demo_queue =
     (\<lparr>granted = [rec_entry 1 Exclusive 5, promote (rec_waiter 3 Shared 10 1)],
       waiting = [rec_waiter 2 Shared 5 0]\<rparr>, [SyncSignal 1])"
  by (subst try_grant_waiters_scan [where ps = "[rec_waiter 3 Shared 10 1]"
        and rs = "[rec_waiter 2 Shared 5 0]"])
    (simp_all add: demo_queue_def rec_waiter_def rec_entry_def waiter_slot_def
      bm_overlaps_slot_def conflicts_def CONFLICT_MATRIX_def)

theorem try_grant_waiters_maximal_witness:
  "find_conflict (fst (try_grant_waiters demo_queue)) 2 Shared (Some 5) \<noteq> None"
  using try_grant_waiters_maximal [OF demo_queue_grant, of "rec_waiter 2 Shared 5 0"]
  by (simp add: demo_queue_grant rec_waiter_def rec_entry_def waiter_slot_def)

text \<open>Accounting of \<open>try_grant_waiters\<close>: the promoted waiters \<open>ps\<close> are appended to the
  granted list in queue order with the waiting flag cleared, exactly their signals are
  returned, and promoted and remaining waiters together are the old queue, each in the old
  order.\<close>

lemma try_grant_waiters_accounting:
  "\<exists>ps. try_grant_waiters q =
          (\<lparr>granted = granted q @ map promote ps, waiting = waiting (fst (try_grant_waiters q))\<rparr>,
           map lw_signal ps) \<and>
        mset (waiting q) = mset ps + mset (waiting (fst (try_grant_waiters q))) \<and>
        subseq ps (waiting q) \<and> subseq (waiting (fst (try_grant_waiters q))) (waiting q)"
proof -
  obtain ps rs where scan: "grant_scan (granted q) (waiting q) = (ps, rs)" by fastforce
  from grant_scan_partition [OF scan] show ?thesis
    by (intro exI [of _ ps]) (simp add: try_grant_waiters_scan [OF scan])
qed

end
