(* ===== verification/Deadlock.thy ===== *)
theory Deadlock
  imports Lock_Queue
begin

text \<open>
  \<open>axiomdb-lock/src/deadlock.rs\<close> and \<open>axiomdb-lock/src/txn_locks.rs\<close>: the wait-for map, Brent's
  cycle detection on it, victim selection and the per-transaction lock tracker.
  Instants are nanoseconds. Phase 1 of \<open>detect_cycle\<close> is bounded by \<open>power > 1 << 20\<close> in the
  source; the model runs it with \<open>2 ^ 21\<close> units of fuel, and \<open>brent_loop_fuel\<close> shows
  that this bound is never the reason to stop.
\<close>

subsection \<open>Lock references and the lock tracker\<close>

datatype lock_ref = RecordRef page_id u16 | TableRef u32

record txn_lock_tracker =
  tr_txn_id :: txn_id
  tr_held :: "lock_ref list"

definition tracker_new :: "txn_id \<Rightarrow> txn_lock_tracker" where
  "tracker_new txn = \<lparr>tr_txn_id = txn, tr_held = []\<rparr>"

definition tracker_track :: "txn_lock_tracker \<Rightarrow> lock_ref \<Rightarrow> txn_lock_tracker" where
  "tracker_track t r = t\<lparr>tr_held := tr_held t @ [r]\<rparr>"

definition tracker_drain :: "txn_lock_tracker \<Rightarrow> txn_lock_tracker \<times> lock_ref list" where
  "tracker_drain t = (t\<lparr>tr_held := []\<rparr>, tr_held t)"

subsection \<open>Cycle detection\<close>

record wait_edge =
  we_blocking_txn :: txn_id
  we_lock_ref :: lock_ref
  we_wait_started :: nat
  we_undo_count :: nat

type_synonym wait_for_map = "txn_id \<rightharpoonup> wait_edge"

datatype brent_result = NoCycle | Meeting txn_id | OutOfFuel

primrec brent_loop ::
  "nat \<Rightarrow> txn_id \<Rightarrow> wait_for_map \<Rightarrow> txn_id \<Rightarrow> txn_id \<Rightarrow> nat \<Rightarrow> nat \<Rightarrow> brent_result" where
  "brent_loop 0 start wfm tortoise hare pow lam = OutOfFuel"
| "brent_loop (Suc fuel) start wfm tortoise hare pow lam =
     (case wfm hare of
        None \<Rightarrow> NoCycle
      | Some edge \<Rightarrow>
          let hare' = we_blocking_txn edge in
          if hare' = tortoise then Meeting hare'
          else if wfm hare' = None \<and> hare' \<noteq> start then NoCycle
          else
            let lam' = lam + 1;
                full = (lam' = pow);
                tortoise' = (if full then hare' else tortoise);
                pow' = (if full then pow * 2 else pow);
                lam'' = (if full then 0 else lam')
            in if pow' > 2 ^ 20 then NoCycle
               else brent_loop fuel start wfm tortoise' hare' pow' lam'')"

function collect_cycle :: "wait_for_map \<Rightarrow> txn_id \<Rightarrow> txn_id \<Rightarrow> txn_id list \<Rightarrow> txn_id list option" where
  "collect_cycle wfm hare current cycle =
     (let cycle' = cycle @ [current] in
      case wfm current of
        None \<Rightarrow> None
      | Some edge \<Rightarrow>
          let current' = we_blocking_txn edge in
          if current' = hare then Some cycle'
          else if length cycle' > 10000 then None
          else collect_cycle wfm hare current' cycle')"
  by pat_completeness auto
termination
  by (relation "measure (\<lambda>(wfm, hare, current, cycle). 10001 - length cycle)") auto

declare collect_cycle.simps [simp del]

definition detect_cycle :: "txn_id \<Rightarrow> wait_for_map \<Rightarrow> txn_id list option" where
  "detect_cycle start wfm =
     (case brent_loop (2 ^ 21) start wfm start start 1 0 of
        Meeting hare \<Rightarrow> collect_cycle wfm hare hare []
      | _ \<Rightarrow> None)"

subsection \<open>Victim selection\<close>

definition victim_score :: "nat \<Rightarrow> wait_for_map \<Rightarrow> txn_id \<Rightarrow> u64" where
  "victim_score now wfm txn =
     (case wfm txn of
        Some edge \<Rightarrow>
          saturating_add (saturating_mul (word_of_nat (we_undo_count edge)) 1000)
            (word_of_nat ((now - we_wait_started edge) div 1000000))
      | None \<Rightarrow> u64_max)"

primrec select_victim_loop ::
  "nat \<Rightarrow> wait_for_map \<Rightarrow> txn_id list \<Rightarrow> txn_id \<Rightarrow> u64 \<Rightarrow> txn_id" where
  "select_victim_loop now wfm [] best_victim best_score = best_victim"
| "select_victim_loop now wfm (txn # cycle) best_victim best_score =
     (let score = victim_score now wfm txn in
      if score < best_score \<or> (score = best_score \<and> best_victim < txn)
      then select_victim_loop now wfm cycle txn score
      else select_victim_loop now wfm cycle best_victim best_score)"

text \<open>\<open>cycle[0]\<close> panics on an empty cycle: \<open>None\<close>.\<close>

definition select_victim :: "nat \<Rightarrow> txn_id list \<Rightarrow> wait_for_map \<Rightarrow> txn_id option" where
  "select_victim now cycle wfm =
     (case cycle of
        [] \<Rightarrow> None
      | c # _ \<Rightarrow> Some (select_victim_loop now wfm cycle c u64_max))"

subsection \<open>Walking the wait-for chain\<close>

definition blocker_of :: "wait_for_map \<Rightarrow> txn_id \<Rightarrow> txn_id option" where
  "blocker_of wfm t = map_option we_blocking_txn (wfm t)"

primrec walk :: "wait_for_map \<Rightarrow> nat \<Rightarrow> txn_id \<Rightarrow> txn_id option" where
  "walk wfm 0 t = Some t"
| "walk wfm (Suc n) t = Option.bind (walk wfm n t) (blocker_of wfm)"

text \<open>A list of transactions each waiting for the next, the last for the first.\<close>

definition wait_cycle :: "wait_for_map \<Rightarrow> txn_id list \<Rightarrow> bool" where
  "wait_cycle wfm c \<longleftrightarrow>
     c \<noteq> [] \<and> (\<forall>i < length c. blocker_of wfm (c ! i) = Some (c ! (Suc i mod length c)))"

lemma walk_add: "walk wfm (m + n) t = Option.bind (walk wfm m t) (walk wfm n)"
proof (induction n)
  case (Suc n)
  then show ?case by (cases "walk wfm m t") auto
qed (cases "walk wfm m t"; simp)

lemma walk_Suc_head: "walk wfm (Suc n) t = Option.bind (blocker_of wfm t) (walk wfm n)"
  using walk_add [of wfm 1 n t] by simp

lemma walk_le: "walk wfm n t = Some u \<Longrightarrow> m \<le> n \<Longrightarrow> \<exists>v. walk wfm m t = Some v"
  using walk_add [of wfm m "n - m" t] by (cases "walk wfm m t") auto

lemma brent_loop_fuel:
  assumes "lam < pow" "pow = 2 ^ j" "j \<le> 20" "2 ^ 21 - pow - lam \<le> fuel"
  shows "brent_loop fuel start wfm tortoise hare pow lam \<noteq> OutOfFuel"
  using assms
proof (induction fuel arbitrary: tortoise hare pow lam j)
  case 0
  have "(2::nat) ^ j \<le> 2 ^ 20" using 0 by (intro power_increasing) auto
  with 0 show ?case by simp
next
  case (Suc fuel)
  have pj: "(2::nat) ^ j \<le> 2 ^ 20" using Suc.prems by (intro power_increasing) auto
  show ?case
  proof (cases "lam + 1 = pow")
    case True
    show ?thesis
    proof (cases "j = 20")
      case True
      with \<open>lam + 1 = pow\<close> Suc.prems show ?thesis
        by (auto simp: Let_def split: option.split)
    next
      case False
      with Suc.prems True pj have "brent_loop fuel start wfm t h (pow * 2) 0 \<noteq> OutOfFuel" for t h
        by (intro Suc.IH [where j = "Suc j"]) auto
      with True show ?thesis by (auto simp: Let_def split: option.split)
    qed
  next
    case False
    with Suc.prems pj have "brent_loop fuel start wfm t h pow (Suc lam) \<noteq> OutOfFuel" for t h
      by (intro Suc.IH [where j = j]) auto
    with False show ?thesis by (auto simp: Let_def split: option.split)
  qed
qed

lemma brent_loop_start: "brent_loop (2 ^ 21) start wfm start start 1 0 \<noteq> OutOfFuel"
  by (rule brent_loop_fuel [where j = 0]) auto

lemma brent_loop_Meeting:
  assumes "brent_loop fuel start wfm tortoise hare pow lam = Meeting h"
    "walk wfm n start = Some tortoise" "walk wfm lam tortoise = Some hare"
  shows "(\<exists>n. walk wfm n start = Some h) \<and> (\<exists>k > 0. walk wfm k h = Some h)"
  using assms
proof (induction fuel arbitrary: tortoise hare pow lam n)
  case (Suc fuel)
  from Suc.prems(1) obtain edge where edge: "wfm hare = Some edge"
    by (auto split: option.splits)
  define hare' where "hare' = we_blocking_txn edge"
  have step: "walk wfm (Suc lam) tortoise = Some hare'"
    using Suc.prems(3) edge by (simp add: blocker_of_def hare'_def)
  show ?case
  proof (cases "hare' = tortoise")
    case True
    with Suc.prems(1) edge have "h = tortoise" by (simp add: hare'_def)
    with True Suc.prems(2) step show ?thesis by blast
  next
    case False
    show ?thesis
    proof (cases "lam + 1 = pow")
      case True
      with Suc.prems(1) edge False
      have "brent_loop fuel start wfm hare' hare' (pow * 2) 0 = Meeting h"
        by (auto simp: hare'_def Let_def split: if_splits)
      moreover have "walk wfm (n + Suc lam) start = Some hare'"
        using Suc.prems(2) step by (simp only: walk_add) simp
      ultimately show ?thesis by (rule Suc.IH) simp
    next
      case neq: False
      with Suc.prems(1) edge False
      have "brent_loop fuel start wfm tortoise hare' pow (Suc lam) = Meeting h"
        by (auto simp: hare'_def Let_def split: if_splits)
      then show ?thesis using Suc.IH [OF _ Suc.prems(2) step] by simp
    qed
  qed
qed simp

subsection \<open>Phase 2 collects the cycle\<close>

text \<open>
  While collecting, \<open>cycle\<close> holds the first steps of the walk from \<open>hare\<close>, none of which is
  \<open>hare\<close> again.
\<close>

definition walk_prefix :: "wait_for_map \<Rightarrow> txn_id \<Rightarrow> txn_id list \<Rightarrow> bool" where
  "walk_prefix wfm h c \<longleftrightarrow>
     (\<forall>i < length c. walk wfm i h = Some (c ! i)) \<and> (\<forall>i < length c. 0 < i \<longrightarrow> c ! i \<noteq> h)"

lemma walk_prefix_snoc:
  "walk_prefix wfm h c \<Longrightarrow> walk wfm (length c) h = Some t \<Longrightarrow> (c \<noteq> [] \<Longrightarrow> t \<noteq> h) \<Longrightarrow>
   walk_prefix wfm h (c @ [t])"
  by (auto simp: walk_prefix_def nth_append less_Suc_eq)

lemma collect_cycle_Some:
  assumes "collect_cycle wfm h t c = Some r" "walk_prefix wfm h c"
    "walk wfm (length c) h = Some t" "c \<noteq> [] \<Longrightarrow> t \<noteq> h"
  shows "walk_prefix wfm h r \<and> r \<noteq> [] \<and> walk wfm (length r) h = Some h"
  using assms
proof (induction wfm h t c rule: collect_cycle.induct)
  case (1 wfm h t c)
  from "1.prems"(1) obtain edge where edge: "wfm t = Some edge"
    by (subst (asm) collect_cycle.simps) (auto simp: Let_def split: option.splits)
  let ?t' = "we_blocking_txn edge"
  have pre: "walk_prefix wfm h (c @ [t])"
    using "1.prems" by (intro walk_prefix_snoc) auto
  have step: "walk wfm (length (c @ [t])) h = Some ?t'"
    using "1.prems"(3) edge by (simp add: blocker_of_def)
  show ?case
  proof (cases "?t' = h")
    case True
    with "1.prems"(1) edge have "r = c @ [t]"
      by (subst (asm) collect_cycle.simps) simp
    with True pre step show ?thesis by simp
  next
    case False
    with "1.prems"(1) edge have len: "\<not> length (c @ [t]) > 10000"
        and rec: "collect_cycle wfm h ?t' (c @ [t]) = Some r"
      by (subst (asm) collect_cycle.simps, simp split: if_splits)+
    from "1.IH" [OF refl edge refl False len rec pre step] False show ?thesis by simp
  qed
qed

lemma walk_prefix_distinct:
  assumes "walk_prefix wfm h c" "walk wfm (length c) h = Some h"
  shows "distinct c"
proof (rule ccontr)
  assume "\<not> distinct c"
  then obtain i j where ij: "i < j" "j < length c" "c ! i = c ! j"
    by (auto simp: distinct_conv_nth) (metis linorder_neqE_nat)
  define d where "d = length c - j"
  have "walk wfm (j + d) h = Some h" using assms(2) ij by (simp add: d_def)
  moreover have "walk wfm j h = Some (c ! j)" "walk wfm i h = Some (c ! i)"
    using assms(1) ij by (auto simp: walk_prefix_def)
  ultimately have "walk wfm (i + d) h = Some h"
    using ij(3) by (simp add: walk_add)
  moreover have "i + d < length c" "0 < i + d" using ij by (auto simp: d_def)
  ultimately show False using assms(1) by (auto simp: walk_prefix_def)
qed

lemma walk_prefix_cycle:
  assumes "walk_prefix wfm h c" "c \<noteq> []" "walk wfm (length c) h = Some h"
  shows "wait_cycle wfm c" "hd c = h"
proof -
  have c0: "c ! 0 = h" using assms(1,2) by (auto simp: walk_prefix_def)
  then show "hd c = h" using assms(2) by (simp add: hd_conv_nth)
  show "wait_cycle wfm c" unfolding wait_cycle_def
  proof (intro conjI allI impI)
    fix i assume i: "i < length c"
    have wi: "walk wfm i h = Some (c ! i)" using assms(1) i by (simp add: walk_prefix_def)
    then have step: "walk wfm (Suc i) h = blocker_of wfm (c ! i)" by simp
    show "blocker_of wfm (c ! i) = Some (c ! (Suc i mod length c))"
    proof (cases "Suc i = length c")
      case True
      with step assms(3) c0 show ?thesis by simp
    next
      case False
      with i have lt: "Suc i < length c" by simp
      then have "walk wfm (Suc i) h = Some (c ! Suc i)"
        using assms(1) unfolding walk_prefix_def by blast
      with step lt show ?thesis by simp
    qed
  qed (rule assms(2))
qed

lemma detect_cycle_Some:
  assumes "detect_cycle start wfm = Some c"
  shows "wait_cycle wfm c" "distinct c" "\<exists>n. walk wfm n start = Some (hd c)"
proof -
  from assms obtain h where meet: "brent_loop (2 ^ 21) start wfm start start 1 0 = Meeting h"
      and col: "collect_cycle wfm h h [] = Some c"
    by (auto simp: detect_cycle_def split: brent_result.splits)
  have pre: "walk_prefix wfm h c" "c \<noteq> []" "walk wfm (length c) h = Some h"
    using collect_cycle_Some [OF col] by (auto simp: walk_prefix_def)
  show "wait_cycle wfm c" "distinct c"
    using walk_prefix_cycle(1) [OF pre] walk_prefix_distinct [OF pre(1,3)] by blast+
  show "\<exists>n. walk wfm n start = Some (hd c)"
    using brent_loop_Meeting [OF meet, of 0] walk_prefix_cycle(2) [OF pre] by auto
qed

subsection \<open>Brent's loop finds every cycle within its bounds\<close>

lemma walk_periodic:
  assumes "walk wfm m t = Some u" "walk wfm k u = Some u"
  shows "walk wfm (m + n + k) t = walk wfm (m + n) t"
proof -
  have "walk wfm (m + n + k) t = walk wfm (m + k + n) t" by (simp add: ac_simps)
  also have "\<dots> = walk wfm (m + n) t" using assms by (simp add: walk_add)
  finally show ?thesis .
qed

text \<open>
  If the chain never ends and, from position \<open>m\<close> on, repeats with period \<open>k\<close>, where both are
  at most \<open>2 ^ 14\<close>, the loop meets before \<open>power\<close> reaches its bound: once the tortoise stands
  at a position past \<open>m\<close> and \<open>power\<close> is at least \<open>k\<close>, the hare is back after \<open>k\<close> steps.
\<close>

lemma brent_loop_not_NoCycle:
  assumes total: "\<And>n. walk wfm n start \<noteq> None"
    and per: "\<And>n. m \<le> n \<Longrightarrow> walk wfm (n + k) start = walk wfm n start"
    and mk: "0 < k" "m < 2 ^ 14" "k \<le> 2 ^ 14"
    and tort: "walk wfm (pow - 1) start = Some tortoise"
    and hare: "walk wfm (pow - 1 + lam) start = Some hare"
    and pow: "pow = 2 ^ j" "j \<le> 14" "lam < pow" "pow = 2 ^ 14 \<longrightarrow> lam < k"
  shows "brent_loop fuel start wfm tortoise hare pow lam \<noteq> NoCycle"
  using tort hare pow
proof (induction fuel arbitrary: tortoise hare pow lam j)
  case (Suc fuel)
  from total [of "Suc (pow - 1 + lam)"] Suc.prems(2) obtain edge where edge: "wfm hare = Some edge"
    by (cases "wfm hare") (auto simp: blocker_of_def)
  define hare' where "hare' = we_blocking_txn edge"
  have step: "walk wfm (pow - 1 + (lam + 1)) start = Some hare'"
    using Suc.prems(2) edge by (simp add: blocker_of_def hare'_def)
  have "walk wfm (Suc (pow - 1 + (lam + 1))) start = blocker_of wfm hare'"
    unfolding walk.simps(2) step by simp
  with total [of "Suc (pow - 1 + (lam + 1))"] have next': "wfm hare' \<noteq> None"
    by (auto simp: blocker_of_def)
  show ?case
  proof (cases "hare' = tortoise")
    case True
    with edge show ?thesis by (simp add: hare'_def)
  next
    case neq: False
    show ?thesis
    proof (cases "lam + 1 = pow")
      case True
      have "pow \<noteq> 2 ^ 14"
      proof
        assume p14: "pow = 2 ^ 14"
        with True Suc.prems(6) mk have "lam + 1 = k" by auto
        moreover have "walk wfm (pow - 1 + k) start = walk wfm (pow - 1) start"
          using mk p14 by (intro per) simp
        ultimately show False using neq step Suc.prems(1) by simp
      qed
      then have j: "Suc j \<le> 14" using Suc.prems(3,4) by (cases "j = 14") auto
      have pos: "pow * 2 - 1 = pow - 1 + (lam + 1)" using True by simp
      have "brent_loop fuel start wfm hare' hare' (pow * 2) 0 \<noteq> NoCycle"
        using step Suc.prems(3,5) mk j pos True by (intro Suc.IH [where j = "Suc j"]) auto
      moreover have "pow * 2 \<le> 2 ^ 20"
      proof -
        have "(2::nat) ^ Suc j \<le> 2 ^ 20" using j by (intro power_increasing) auto
        then show ?thesis using Suc.prems(3) by simp
      qed
      ultimately show ?thesis
        using edge neq next' True by (auto simp: hare'_def Let_def)
    next
      case False
      have lk: "Suc lam < k" if "pow = 2 ^ 14"
      proof (rule ccontr)
        assume "\<not> Suc lam < k"
        with that Suc.prems(6) have "lam + 1 = k" by auto
        moreover have "walk wfm (pow - 1 + k) start = walk wfm (pow - 1) start"
          using mk that by (intro per) simp
        ultimately show False using neq step Suc.prems(1) by simp
      qed
      have "brent_loop fuel start wfm tortoise hare' pow (Suc lam) \<noteq> NoCycle"
        using step Suc.prems False lk by (intro Suc.IH [where j = j]) auto
      moreover have "pow \<le> 2 ^ 20"
      proof -
        have "(2::nat) ^ j \<le> 2 ^ 20" using Suc.prems(4) by (intro power_increasing) auto
        then show ?thesis using Suc.prems(3) by simp
      qed
      ultimately show ?thesis
        using edge neq next' False by (auto simp: hare'_def Let_def)
    qed
  qed
qed simp

lemma walk_repeats:
  assumes total: "\<And>n. walk wfm n t \<noteq> None" and fin: "finite (dom wfm)"
    and card: "card (dom wfm) \<le> N"
  shows "\<exists>m k. 0 < k \<and> m + k \<le> N \<and> walk wfm (m + k) t = walk wfm m t"
proof -
  define f where "f n = the (walk wfm n t)" for n
  have w: "walk wfm n t = Some (f n)" for n using total [of n] by (auto simp: f_def)
  have "f n \<in> dom wfm" for n
    using total [of "Suc n"] by (auto simp: w blocker_of_def)
  then have "f ` {0..N} \<subseteq> dom wfm" by blast
  from card_mono [OF fin this] card have "card (f ` {0..N}) < card {0..N}" by simp
  then have "\<not> inj_on f {0..N}" by (rule pigeonhole)
  then obtain i j where ij: "i < j" "j \<le> N" "f i = f j"
    by (auto simp: inj_on_def) (metis linorder_neqE_nat)
  then have "walk wfm (i + (j - i)) t = walk wfm i t" by (simp add: w)
  with ij show ?thesis by (intro exI [of _ i] exI [of _ "j - i"]) auto
qed

lemma period_bound:
  assumes "walk_prefix wfm h c" "0 < k" "walk wfm k h = Some h" "finite (dom wfm)"
  shows "length c \<le> card (dom wfm)"
proof -
  define p where "p = (LEAST k. 0 < k \<and> walk wfm k h = Some h)"
  have p: "0 < p" "walk wfm p h = Some h"
    using LeastI [of "\<lambda>k. 0 < k \<and> walk wfm k h = Some h" k] assms(2,3) unfolding p_def by auto
  have least: "i < p \<Longrightarrow> 0 < i \<Longrightarrow> walk wfm i h \<noteq> Some h" for i
    unfolding p_def by (blast dest: not_less_Least)
  define c' where "c' = map (\<lambda>i. the (walk wfm i h)) [0..<p]"
  have w: "\<exists>v. walk wfm i h = Some v" if "i \<le> p" for i
    using walk_le [OF p(2) that] .
  have len: "length c' = p" by (simp add: c'_def)
  have c': "walk wfm i h = Some (c' ! i)" if "i < p" for i
    using w [of i] that by (auto simp: c'_def)
  have pre: "walk_prefix wfm h c'"
    unfolding walk_prefix_def len using c' least by (metis option.inject)
  have "distinct c'" using pre p(2) len by (intro walk_prefix_distinct) auto
  moreover have "set c' \<subseteq> dom wfm"
  proof
    fix x assume "x \<in> set c'"
    then obtain i where i: "i < p" "x = c' ! i" by (metis in_set_conv_nth len)
    then have "walk wfm i h = Some x" using pre len by (simp add: walk_prefix_def)
    with w [of "Suc i"] i show "x \<in> dom wfm" by (auto simp: blocker_of_def)
  qed
  ultimately have "p \<le> card (dom wfm)"
    using card_mono [OF assms(4)] len by (metis distinct_card)
  moreover have "length c \<le> p"
  proof (rule ccontr)
    assume "\<not> length c \<le> p"
    with p assms(1) show False by (auto simp: walk_prefix_def)
  qed
  ultimately show ?thesis by simp
qed

lemma collect_cycle_not_None:
  assumes "walk_prefix wfm h c" "walk wfm (length c) h = Some t" "c \<noteq> [] \<Longrightarrow> t \<noteq> h"
    and ret: "0 < k" "walk wfm k h = Some h" and total: "\<And>n. walk wfm n h \<noteq> None"
    and fin: "finite (dom wfm)" "card (dom wfm) \<le> 10000"
  shows "collect_cycle wfm h t c \<noteq> None"
  using assms
proof (induction wfm h t c rule: collect_cycle.induct)
  case (1 wfm h t c)
  have pre: "walk_prefix wfm h (c @ [t])"
    using "1.prems"(1-3) by (intro walk_prefix_snoc) auto
  have len: "length (c @ [t]) \<le> 10000"
    using period_bound [OF pre "1.prems"(4,5,7)] "1.prems"(8) by simp
  have "walk wfm (Suc (length c)) h = blocker_of wfm t" using "1.prems"(2) by simp
  with "1.prems"(6) [of "Suc (length c)"] obtain edge where edge: "wfm t = Some edge"
    by (auto simp: blocker_of_def)
  let ?t' = "we_blocking_txn edge"
  have step: "walk wfm (length (c @ [t])) h = Some ?t'"
    using "1.prems"(2) edge by (simp add: blocker_of_def)
  show ?case
  proof (cases "?t' = h")
    case True
    with edge show ?thesis by (subst collect_cycle.simps) simp
  next
    case False
    have "collect_cycle wfm h ?t' (c @ [t]) \<noteq> None"
      using "1.IH" [OF refl edge refl False _ pre step False "1.prems"(4-8)] len by simp
    with False edge len show ?thesis by (subst collect_cycle.simps) simp
  qed
qed

lemma cycle_never_ends:
  assumes "walk wfm m t = Some h" "0 < k" "walk wfm k h = Some h"
  shows "walk wfm n t \<noteq> None"
proof -
  have rep: "walk wfm (i * k) h = Some h" for i
    using assms(3) by (induction i) (auto simp: walk_add)
  have "walk wfm (m + n * k) t = Some h" using assms(1) rep [of n] by (simp add: walk_add)
  moreover have "n \<le> m + n * k" using assms(2) by (cases k) auto
  ultimately show ?thesis using walk_le by blast
qed

lemma wait_cycle_walk:
  assumes "wait_cycle wfm c" "i \<le> length c"
  shows "walk wfm i (hd c) = Some (c ! (i mod length c))"
  using assms(2)
proof (induction i)
  case 0
  with assms(1) show ?case by (simp add: wait_cycle_def hd_conv_nth)
next
  case (Suc i)
  with assms(1) show ?case by (simp add: wait_cycle_def mod_Suc)
qed

lemma wait_cycle_returns: "wait_cycle wfm c \<Longrightarrow> walk wfm (length c) (hd c) = Some (hd c)"
  using wait_cycle_walk [of wfm c "length c"] by (simp add: wait_cycle_def hd_conv_nth)

lemma detect_cycle_complete:
  assumes total: "\<And>n. walk wfm n start \<noteq> None"
    and fin: "finite (dom wfm)" "card (dom wfm) \<le> 10000"
  shows "detect_cycle start wfm \<noteq> None"
proof -
  from walk_repeats [OF total fin] obtain m k where mk: "0 < k" "m + k \<le> 10000"
      and eq: "walk wfm (m + k) start = walk wfm m start" by blast
  from total [of m] obtain u where u: "walk wfm m start = Some u" by auto
  with eq have uk: "walk wfm k u = Some u" by (simp add: walk_add)
  have per: "walk wfm (n + k) start = walk wfm n start" if "m \<le> n" for n
    using walk_periodic [OF u uk, of "n - m"] that by simp
  have "brent_loop (2 ^ 21) start wfm start start 1 0 \<noteq> NoCycle"
    using mk by (intro brent_loop_not_NoCycle [where m = m and k = k and j = 0] total per) auto
  with brent_loop_start [of start wfm] obtain h
    where meet: "brent_loop (2 ^ 21) start wfm start start 1 0 = Meeting h"
    by (cases "brent_loop (2 ^ 21) start wfm start start 1 0") auto
  from brent_loop_Meeting [OF meet, of 0] obtain n k where
    h: "walk wfm n start = Some h" "0 < k" "walk wfm k h = Some h" by auto
  have "walk wfm i h \<noteq> None" for i
    by (rule cycle_never_ends [of wfm 0 h h k]) (use h in auto)
  then have "collect_cycle wfm h h [] \<noteq> None"
    using h fin by (intro collect_cycle_not_None [where k = k]) (auto simp: walk_prefix_def)
  with meet show ?thesis by (simp add: detect_cycle_def)
qed

subsection \<open>What the deadlock detector promises\<close>

text \<open>A reported deadlock is real: if \<open>detect_cycle\<close> returns a list, its members are
  distinct, each waits for the next and the last for the first, and the requesting transaction
  is blocked, directly or through others, by a member of the cycle.\<close>

lemma detect_cycle_sound:
  assumes "detect_cycle start wfm = Some c"
  shows "wait_cycle wfm c \<and> distinct c \<and> (\<exists>n. walk wfm n start = Some (hd c))"
  using detect_cycle_Some [OF assms] by blast

definition edge_to :: "txn_id \<Rightarrow> wait_edge" where
  "edge_to t = \<lparr>we_blocking_txn = t, we_lock_ref = TableRef 0, we_wait_started = 0, we_undo_count = 0\<rparr>"

definition demo_waits :: wait_for_map where
  "demo_waits = [1 \<mapsto> edge_to 2, 2 \<mapsto> edge_to 3, 3 \<mapsto> edge_to 2]"

lemma brent_loop_unfold:
  "0 < fuel \<Longrightarrow> brent_loop fuel start wfm tortoise hare pow lam =
     (case wfm hare of
        None \<Rightarrow> NoCycle
      | Some edge \<Rightarrow>
          let hare' = we_blocking_txn edge in
          if hare' = tortoise then Meeting hare'
          else if wfm hare' = None \<and> hare' \<noteq> start then NoCycle
          else
            let lam' = lam + 1;
                full = (lam' = pow);
                tortoise' = (if full then hare' else tortoise);
                pow' = (if full then pow * 2 else pow);
                lam'' = (if full then 0 else lam')
            in if pow' > 2 ^ 20 then NoCycle
               else brent_loop (fuel - 1) start wfm tortoise' hare' pow' lam'')"
proof -
  assume "0 < fuel"
  then obtain n where "fuel = Suc n" by (cases fuel) auto
  then show ?thesis by (simp only: brent_loop.simps diff_Suc_1)
qed

lemma demo_waits_detect: "detect_cycle 1 demo_waits = Some [2, 3]"
proof -
  have "brent_loop (2 ^ 21) 1 demo_waits 1 1 1 0 = Meeting 2"
    by (simp add: demo_waits_def edge_to_def brent_loop_unfold)
  moreover have "collect_cycle demo_waits 2 2 [] = Some [2, 3]"
    by (simp add: demo_waits_def edge_to_def collect_cycle.simps)
  ultimately show ?thesis by (simp add: detect_cycle_def)
qed

text \<open>C9: No deadlock is missed, and none is invented: with at most 10000 waiting transactions,
  \<open>detect_cycle\<close> reports a cycle exactly when the chain of blockers from the requester never
  reaches a transaction that is not waiting. The safety bounds of the two loops
  (\<open>power > 1 << 20\<close>, \<open>cycle.len() > 10_000\<close>) never cut the search short.\<close>

theorem detect_cycle_iff:
  assumes "finite (dom wfm)" "card (dom wfm) \<le> 10000"
  shows "detect_cycle start wfm \<noteq> None \<longleftrightarrow> (\<forall>n. walk wfm n start \<noteq> None)"
proof
  assume "detect_cycle start wfm \<noteq> None"
  then obtain c where c: "detect_cycle start wfm = Some c" by blast
  from detect_cycle_Some [OF c] obtain n where n: "walk wfm n start = Some (hd c)" by blast
  have "0 < length c" using detect_cycle_Some(1) [OF c] by (simp add: wait_cycle_def)
  from cycle_never_ends [OF n this wait_cycle_returns] detect_cycle_Some(1) [OF c]
  show "\<forall>n. walk wfm n start \<noteq> None" by blast
next
  assume "\<forall>n. walk wfm n start \<noteq> None"
  with assms show "detect_cycle start wfm \<noteq> None" by (intro detect_cycle_complete) auto
qed

theorem detect_cycle_iff_witness:
  "detect_cycle 1 demo_waits \<noteq> None \<longleftrightarrow> (\<forall>n. walk demo_waits n 1 \<noteq> None)"
proof -
  have dom: "dom demo_waits = {1, 2, 3}" by (auto simp: demo_waits_def)
  show ?thesis by (rule detect_cycle_iff) (simp_all add: dom)
qed

definition better :: "txn_id \<times> u64 \<Rightarrow> txn_id \<times> u64 \<Rightarrow> bool" where
  "better p q \<longleftrightarrow> snd p < snd q \<or> snd p = snd q \<and> fst q \<le> fst p"

lemma better_refl: "better p p"
  by (simp add: better_def)

lemma better_trans: "better p q \<Longrightarrow> better q r \<Longrightarrow> better p r"
  by (auto simp: better_def)

lemma select_victim_loop_best:
  "\<exists>s'. (select_victim_loop now wfm c v s, s')
          \<in> insert (v, s) ((\<lambda>t. (t, victim_score now wfm t)) ` set c) \<and>
        better (select_victim_loop now wfm c v s, s') (v, s) \<and>
        (\<forall>t \<in> set c. better (select_victim_loop now wfm c v s, s') (t, victim_score now wfm t))"
proof (induction c arbitrary: v s)
  case Nil
  show ?case by (rule exI [of _ s]) (simp add: better_refl)
next
  case (Cons t c)
  let ?s = "victim_score now wfm t"
  show ?case
  proof (cases "?s < s \<or> (?s = s \<and> v < t)")
    case True
    then have r: "select_victim_loop now wfm (t # c) v s = select_victim_loop now wfm c t ?s"
      and le: "better (t, ?s) (v, s)"
      by (auto simp: better_def Let_def)
    from Cons.IH [of t ?s] show ?thesis unfolding r
      using better_trans [OF _ le] by (elim exE) (intro exI conjI, auto)
  next
    case False
    then have r: "select_victim_loop now wfm (t # c) v s = select_victim_loop now wfm c v s"
      and le: "better (v, s) (t, ?s)"
      by (auto simp: better_def not_less Let_def)
    from Cons.IH [of v s] show ?thesis unfolding r
      using better_trans [OF _ le] by (elim exE) (intro exI conjI, auto)
  qed
qed

text \<open>The victim is a member of the cycle with the least score (1000 per undo record plus
  the milliseconds waited, both saturating), and among members with that score the one with
  the highest transaction id.\<close>

lemma select_victim_best:
  assumes "select_victim now c wfm = Some v"
  shows "v \<in> set c \<and>
    (\<forall>t \<in> set c. victim_score now wfm v < victim_score now wfm t \<or>
       victim_score now wfm v = victim_score now wfm t \<and> t \<le> v)"
proof -
  from assms obtain c0 cs where c: "c = c0 # cs" and v: "v = select_victim_loop now wfm c c0 u64_max"
    by (auto simp: select_victim_def split: list.splits)
  have c0: "c0 \<in> set c" by (simp add: c)
  from select_victim_loop_best [of now wfm c c0 u64_max, folded v] obtain s where
    s: "(v, s) \<in> insert (c0, u64_max) ((\<lambda>t. (t, victim_score now wfm t)) ` set c)"
      and best: "\<And>t. t \<in> set c \<Longrightarrow> better (v, s) (t, victim_score now wfm t)"
    by blast
  have "v \<in> set c" using s c0 by auto
  moreover have "s = victim_score now wfm v"
  proof (cases "(v, s) = (c0, u64_max)")
    case True
    have "victim_score now wfm c0 \<le> u64_max" by simp
    with best [OF c0] True show ?thesis by (auto simp: better_def)
  qed (use s in auto)
  ultimately show ?thesis using best by (auto simp: better_def)
qed

definition undo_edge :: "txn_id \<Rightarrow> nat \<Rightarrow> nat \<Rightarrow> wait_edge" where
  "undo_edge t undo started =
     \<lparr>we_blocking_txn = t, we_lock_ref = TableRef 0, we_wait_started = started, we_undo_count = undo\<rparr>"

lemma demo_victim:
  "select_victim 0 [1, 2] [1 \<mapsto> undo_edge 2 10 0, 2 \<mapsto> undo_edge 1 0 0] = Some 2"
  by (simp add: select_victim_def victim_score_def undo_edge_def saturating_add_def saturating_mul_def)

lemma select_victim_cycle:
  "wait_cycle wfm c \<Longrightarrow> \<exists>v. select_victim now c wfm = Some v"
  by (cases c) (auto simp: select_victim_def wait_cycle_def)

text \<open>
  The wait time is weighed against the undo work, not only used to break ties: a transaction
  with one undo record that has just started to wait is chosen over one with no undo work that
  has waited for two seconds.
\<close>

lemma select_victim_prefers_short_wait:
  "select_victim 2000000000 [1, 2]
     [1 \<mapsto> undo_edge 2 0 0, 2 \<mapsto> undo_edge 1 1 2000000000] = Some 2"
  by (simp add: select_victim_def victim_score_def undo_edge_def saturating_add_def saturating_mul_def)

end
