(* ===== verification/Lock_Manager.thy ===== *)
theory Lock_Manager
  imports Deadlock "HOL-Library.AList"
begin

text \<open>
  \<open>axiomdb-lock/src/manager.rs\<close>: the sharded lock manager. A shard, a mutex around a hash map,
  is an association list from keys to queues. Everything the code does under one acquisition
  of a mutex is one function of the model, and the step relation \<open>proc_step\<close> interleaves
  these critical sections; the asynchronous and the synchronous entry points share them, since
  only the way to wait differs. The clock reading \<open>Instant::now()\<close> is an argument. The field
  \<open>next_signal\<close> numbers the notification handles \<open>Arc::new\<close> creates, and \<open>signalled\<close>
  lists those on which \<open>notify_one\<close> was called.
\<close>

subsection \<open>State\<close>

datatype lock_result = Granted | WaitGranted

definition RECORD_SHARDS :: nat where "RECORD_SHARDS = 64"

definition TABLE_SHARDS :: nat where "TABLE_SHARDS = 16"

type_synonym 'k shard = "('k \<times> lock_queue) list"

record lock_manager =
  record_shards :: "page_id shard list"
  table_shards :: "u32 shard list"
  wait_for :: wait_for_map
  lock_wait_timeout :: nat
  next_signal :: nat
  signalled :: "waiter_signal list"

definition with_timeout :: "nat \<Rightarrow> lock_manager" where
  "with_timeout timeout =
     \<lparr>record_shards = replicate RECORD_SHARDS [], table_shards = replicate TABLE_SHARDS [],
      wait_for = Map.empty, lock_wait_timeout = timeout, next_signal = 0, signalled = []\<rparr>"

text \<open>\<open>DEFAULT_LOCK_WAIT_TIMEOUT\<close> is 50 seconds, here in nanoseconds.\<close>

definition manager_new :: lock_manager where
  "manager_new = with_timeout (50 * 1000000000)"

definition record_shard_idx :: "page_id \<Rightarrow> nat" where
  "record_shard_idx page = unat page mod RECORD_SHARDS"

definition table_shard_idx :: "u32 \<Rightarrow> nat" where
  "table_shard_idx table = unat table mod TABLE_SHARDS"

text \<open>\<open>shard.entry(key).or_default()\<close>, and the write-back of a queue, which most callers
  follow by dropping the key when the queue has become empty.\<close>

definition entry_or_default :: "'k shard \<Rightarrow> 'k \<Rightarrow> lock_queue" where
  "entry_or_default sh key = (case map_of sh key of None \<Rightarrow> queue_new | Some q \<Rightarrow> q)"

definition put_or_remove :: "'k \<Rightarrow> lock_queue \<Rightarrow> 'k shard \<Rightarrow> 'k shard" where
  "put_or_remove key q sh = (if queue_is_empty q then AList.delete key sh else AList.update key q sh)"

text \<open>Update the shard of a key.\<close>

definition on_record_shard ::
  "(page_id shard \<Rightarrow> page_id shard) \<Rightarrow> page_id \<Rightarrow> lock_manager \<Rightarrow> lock_manager" where
  "on_record_shard f page m =
     (let i = record_shard_idx page in
      m\<lparr>record_shards := (record_shards m)[i := f (record_shards m ! i)]\<rparr>)"

definition on_table_shard ::
  "(u32 shard \<Rightarrow> u32 shard) \<Rightarrow> u32 \<Rightarrow> lock_manager \<Rightarrow> lock_manager" where
  "on_table_shard f table m =
     (let i = table_shard_idx table in
      m\<lparr>table_shards := (table_shards m)[i := f (table_shards m ! i)]\<rparr>)"

definition record_shard :: "lock_manager \<Rightarrow> page_id \<Rightarrow> page_id shard" where
  "record_shard m page = record_shards m ! record_shard_idx page"

definition table_shard :: "lock_manager \<Rightarrow> u32 \<Rightarrow> u32 shard" where
  "table_shard m table = table_shards m ! table_shard_idx table"

text \<open>The queue of a page and of a table, the empty one if the key is absent.\<close>

definition record_queue :: "lock_manager \<Rightarrow> page_id \<Rightarrow> lock_queue" where
  "record_queue m page = entry_or_default (record_shard m page) page"

definition table_queue :: "lock_manager \<Rightarrow> u32 \<Rightarrow> lock_queue" where
  "table_queue m table = entry_or_default (table_shard m table) table"

definition notify_one :: "waiter_signal \<Rightarrow> lock_manager \<Rightarrow> lock_manager" where
  "notify_one s m = m\<lparr>signalled := s # signalled m\<rparr>"

subsection \<open>Requests on one queue\<close>

definition set_slot :: "lock_entry \<Rightarrow> u16 \<Rightarrow> lock_entry" where
  "set_slot e slot =
     (case le_bitmap e of None \<Rightarrow> e | Some bm \<Rightarrow> e\<lparr>le_bitmap := Some (bm_set bm slot)\<rparr>)"

definition extend_granted :: "lock_queue \<Rightarrow> nat \<Rightarrow> u16 \<Rightarrow> lock_queue" where
  "extend_granted q idx slot = q\<lparr>granted := (granted q)[idx := set_slot (granted q ! idx) slot]\<rparr>"

definition upgrade_granted :: "lock_queue \<Rightarrow> nat \<Rightarrow> u16 \<Rightarrow> lock_queue" where
  "upgrade_granted q idx slot =
     q\<lparr>granted := (granted q)[idx := set_slot ((granted q ! idx)\<lparr>le_mode := Exclusive\<rparr>) slot]\<rparr>"

record record_request =
  rq_txn :: txn_id
  rq_page :: page_id
  rq_slot :: u16
  rq_mode :: lock_mode
  rq_flags :: lock_flags

definition request_entry :: "record_request \<Rightarrow> lock_flags \<Rightarrow> nat \<Rightarrow> lock_entry" where
  "request_entry r flags now =
     \<lparr>le_txn_id = rq_txn r, le_mode = rq_mode r, le_flags = flags, le_requested_at = now,
      le_bitmap = Some (bm_with_slot (rq_slot r))\<rparr>"

text \<open>The end of the critical section of \<open>acquire_record_lock\<close>: grant at once, or enqueue and
  report who blocks the request.\<close>

definition grant_or_enqueue ::
  "record_request \<Rightarrow> nat \<Rightarrow> waiter_signal \<Rightarrow> lock_queue \<Rightarrow> lock_queue \<times> txn_id option" where
  "grant_or_enqueue r now signal q =
     (let blocking_txn = find_conflict q (rq_txn r) (rq_mode r) (Some (rq_slot r)) in
      if blocking_txn = None \<and> waiting q = [] then
        (q\<lparr>granted := granted q @
            [request_entry r (flags_difference (rq_flags r) flag_waiting) now]\<rparr>, None)
      else
        let q' = q\<lparr>waiting := waiting q @
              [\<lparr>lw_entry = request_entry r (flags_union (rq_flags r) flag_waiting) now,
                lw_signal = signal, lw_abort_reason = None\<rparr>]\<rparr>
        in (q', Some (case blocking_txn of
                        Some b \<Rightarrow> b
                      | None \<Rightarrow> (case waiting q' of [] \<Rightarrow> 0 | w # _ \<Rightarrow> le_txn_id (lw_entry w)))))"

text \<open>The whole critical section. The second component is \<open>None\<close> when the lock is granted.\<close>

definition record_enqueue ::
  "record_request \<Rightarrow> nat \<Rightarrow> waiter_signal \<Rightarrow> lock_queue \<Rightarrow> lock_queue \<times> txn_id option" where
  "record_enqueue r now signal q =
     (case find_granted_idx q (rq_txn r) (rq_mode r) of
        Some idx \<Rightarrow> (extend_granted q idx (rq_slot r), None)
      | None \<Rightarrow>
          (case (if rq_mode r = Exclusive then find_granted_idx q (rq_txn r) Shared else None) of
             Some idx \<Rightarrow>
               if find_conflict q (rq_txn r) (rq_mode r) (Some (rq_slot r)) = None \<and> waiting q = []
               then (upgrade_granted q idx (rq_slot r), None)
               else grant_or_enqueue r now signal q
           | None \<Rightarrow> grant_or_enqueue r now signal q))"

definition table_entry :: "txn_id \<Rightarrow> lock_mode \<Rightarrow> lock_flags \<Rightarrow> nat \<Rightarrow> lock_entry" where
  "table_entry txn mode flags now =
     \<lparr>le_txn_id = txn, le_mode = mode, le_flags = flags, le_requested_at = now, le_bitmap = None\<rparr>"

definition table_enqueue ::
  "txn_id \<Rightarrow> lock_mode \<Rightarrow> nat \<Rightarrow> waiter_signal \<Rightarrow> lock_queue \<Rightarrow> lock_queue \<times> bool" where
  "table_enqueue txn mode now signal q =
     (if \<exists>e \<in> set (granted q). le_txn_id e = txn \<and> le_mode e = mode then (q, True)
      else if find_conflict q txn mode None = None \<and> waiting q = [] then
        (q\<lparr>granted := granted q @ [table_entry txn mode flag_table_lock now]\<rparr>, True)
      else
        (q\<lparr>waiting := waiting q @
            [\<lparr>lw_entry = table_entry txn mode (flags_union flag_table_lock flag_waiting) now,
              lw_signal = signal, lw_abort_reason = None\<rparr>]\<rparr>, False))"

subsection \<open>Critical sections of the manager\<close>

text \<open>First section of \<open>acquire_record_lock\<close>; the constructor tells the asynchronous from the
  synchronous handle.\<close>

definition enter_record ::
  "(nat \<Rightarrow> waiter_signal) \<Rightarrow> record_request \<Rightarrow> nat \<Rightarrow> lock_manager \<Rightarrow>
   lock_manager \<times> (waiter_signal \<times> txn_id) option" where
  "enter_record handle r now m =
     (let signal = handle (next_signal m);
          (q', blocker) = record_enqueue r now signal (record_queue m (rq_page r));
          m' = on_record_shard (AList.update (rq_page r) q') (rq_page r) m
      in case blocker of
           None \<Rightarrow> (m', None)
         | Some b \<Rightarrow> (m'\<lparr>next_signal := next_signal m + 1\<rparr>, Some (signal, b)))"

definition acquire_record_lock ::
  "record_request \<Rightarrow> nat \<Rightarrow> lock_manager \<Rightarrow> lock_manager \<times> (waiter_signal \<times> txn_id) option" where
  "acquire_record_lock = enter_record AsyncSignal"

definition acquire_record_lock_sync ::
  "record_request \<Rightarrow> nat \<Rightarrow> lock_manager \<Rightarrow> lock_manager \<times> (waiter_signal \<times> txn_id) option" where
  "acquire_record_lock_sync = enter_record SyncSignal"

definition enter_table ::
  "(nat \<Rightarrow> waiter_signal) \<Rightarrow> txn_id \<Rightarrow> u32 \<Rightarrow> lock_mode \<Rightarrow> nat \<Rightarrow> lock_manager \<Rightarrow>
   lock_manager \<times> waiter_signal option" where
  "enter_table handle txn table mode now m =
     (let signal = handle (next_signal m);
          (q', ok) = table_enqueue txn mode now signal (table_queue m table);
          m' = on_table_shard (AList.update table q') table m
      in if ok then (m', None) else (m'\<lparr>next_signal := next_signal m + 1\<rparr>, Some signal))"

definition acquire_table_lock ::
  "txn_id \<Rightarrow> u32 \<Rightarrow> lock_mode \<Rightarrow> nat \<Rightarrow> lock_manager \<Rightarrow> lock_manager \<times> waiter_signal option" where
  "acquire_table_lock = enter_table AsyncSignal"

definition acquire_table_lock_sync ::
  "txn_id \<Rightarrow> u32 \<Rightarrow> lock_mode \<Rightarrow> nat \<Rightarrow> lock_manager \<Rightarrow> lock_manager \<times> waiter_signal option" where
  "acquire_table_lock_sync = enter_table SyncSignal"

text \<open>The removal of a waiter on NOWAIT, on timeout and by the victim itself.\<close>

definition drop_waiter :: "txn_id \<Rightarrow> 'k \<Rightarrow> 'k shard \<Rightarrow> 'k shard" where
  "drop_waiter txn key sh =
     (case map_of sh key of
        None \<Rightarrow> sh
      | Some q \<Rightarrow> put_or_remove key (fst (remove_waiter_by_txn q txn)) sh)"

definition drop_record_waiter :: "txn_id \<Rightarrow> page_id \<Rightarrow> lock_manager \<Rightarrow> lock_manager" where
  "drop_record_waiter txn page = on_record_shard (drop_waiter txn page) page"

definition drop_table_waiter :: "txn_id \<Rightarrow> u32 \<Rightarrow> lock_manager \<Rightarrow> lock_manager" where
  "drop_table_waiter txn table = on_table_shard (drop_waiter txn table) table"

text \<open>
  The section under the \<open>wait_for\<close> mutex: record the edge, look for a cycle, pick a victim and
  drop its edge. \<open>select_victim\<close> fails only on an empty cycle, which \<open>detect_cycle\<close> never returns.
\<close>

definition check_deadlock ::
  "record_request \<Rightarrow> txn_id \<Rightarrow> nat \<Rightarrow> lock_manager \<Rightarrow>
   lock_manager \<times> (txn_id \<times> lock_ref option) option" where
  "check_deadlock r blocker now m =
     (let wfm = (wait_for m)(rq_txn r \<mapsto>
            \<lparr>we_blocking_txn = blocker, we_lock_ref = RecordRef (rq_page r) (rq_slot r),
             we_wait_started = now, we_undo_count = 0\<rparr>)
      in case Option.bind (detect_cycle (rq_txn r) wfm) (\<lambda>cycle. select_victim now cycle wfm) of
           None \<Rightarrow> (m\<lparr>wait_for := wfm\<rparr>, None)
         | Some victim \<Rightarrow>
             (m\<lparr>wait_for := wfm(victim := None)\<rparr>,
              Some (victim, map_option we_lock_ref (wfm victim))))"

definition abort_in_queue :: "txn_id \<Rightarrow> lock_queue \<Rightarrow> lock_queue \<times> waiter_signal option" where
  "abort_in_queue txn q =
     (case position (\<lambda>w. le_txn_id (lw_entry w) = txn) (waiting q) of
        None \<Rightarrow> (q, None)
      | Some i \<Rightarrow>
          (q\<lparr>waiting := (waiting q)[i := (waiting q ! i)\<lparr>lw_abort_reason := Some Deadlock\<rparr>]\<rparr>,
           Some (lw_signal (waiting q ! i))))"

definition abort_waiter :: "txn_id \<Rightarrow> lock_ref \<Rightarrow> lock_manager \<Rightarrow> lock_manager" where
  "abort_waiter txn ref m =
     (case ref of
        RecordRef page slot \<Rightarrow>
          (case map_of (record_shard m page) page of
             None \<Rightarrow> m
           | Some q \<Rightarrow>
               let (q', s) = abort_in_queue txn q;
                   m' = on_record_shard (AList.update page q') page m
               in (case s of None \<Rightarrow> m' | Some signal \<Rightarrow> notify_one signal m'))
      | TableRef table \<Rightarrow>
          (case map_of (table_shard m table) table of
             None \<Rightarrow> m
           | Some q \<Rightarrow>
               let (q', s) = abort_in_queue txn q;
                   m' = on_table_shard (AList.update table q') table m
               in (case s of None \<Rightarrow> m' | Some signal \<Rightarrow> notify_one signal m')))"

text \<open>What a woken caller finds out under the shard mutex.\<close>

definition wake_result :: "txn_id \<Rightarrow> page_id \<Rightarrow> lock_mode \<Rightarrow> lock_manager \<Rightarrow> db_error + lock_result" where
  "wake_result txn page mode m =
     (case map_of (record_shard m page) page of
        None \<Rightarrow> Inr WaitGranted
      | Some q \<Rightarrow>
          if \<exists>e \<in> set (granted q). le_txn_id e = txn \<and> le_mode e = mode then Inr WaitGranted
          else if \<exists>w \<in> set (waiting q).
              le_txn_id (lw_entry w) = txn \<and> lw_abort_reason w = Some Deadlock
          then Inl DeadlockDetected
          else Inr WaitGranted)"

definition forget_wait :: "txn_id \<Rightarrow> lock_manager \<Rightarrow> lock_manager" where
  "forget_wait txn m = m\<lparr>wait_for := (wait_for m)(txn := None)\<rparr>"

definition try_acquire_record_lock_sync ::
  "txn_id \<Rightarrow> page_id \<Rightarrow> u16 \<Rightarrow> lock_mode \<Rightarrow> nat \<Rightarrow> lock_manager \<Rightarrow> lock_manager \<times> bool" where
  "try_acquire_record_lock_sync txn page slot mode now m =
     (let q = record_queue m page in
      if find_conflict q txn mode (Some slot) \<noteq> None \<or> waiting q \<noteq> []
      then (on_record_shard (put_or_remove page q) page m, False)
      else
        let q' = (case find_granted_idx q txn mode of
                    Some idx \<Rightarrow> extend_granted q idx slot
                  | None \<Rightarrow> q\<lparr>granted := granted q @
                      [\<lparr>le_txn_id = txn, le_mode = mode, le_flags = flag_none, le_requested_at = now,
                        le_bitmap = Some (bm_with_slot slot)\<rparr>]\<rparr>)
        in (on_record_shard (AList.update page q') page m, True))"

subsection \<open>Release\<close>

definition release_key :: "txn_id \<Rightarrow> 'k \<Rightarrow> 'k shard \<Rightarrow> 'k shard \<times> waiter_signal list" where
  "release_key txn key sh =
     (case map_of sh key of
        None \<Rightarrow> (sh, [])
      | Some q \<Rightarrow>
          let (q', signals) = try_grant_waiters (fst (remove_granted_by_txn q txn))
          in (put_or_remove key q' sh, signals))"

definition release_lock ::
  "txn_id \<Rightarrow> lock_ref \<Rightarrow> lock_manager \<Rightarrow> lock_manager \<times> waiter_signal list" where
  "release_lock txn ref m =
     (case ref of
        RecordRef page slot \<Rightarrow>
          (on_record_shard (\<lambda>sh. fst (release_key txn page sh)) page m,
           snd (release_key txn page (record_shard m page)))
      | TableRef table \<Rightarrow>
          (on_table_shard (\<lambda>sh. fst (release_key txn table sh)) table m,
           snd (release_key txn table (table_shard m table))))"

primrec release_locks ::
  "txn_id \<Rightarrow> lock_ref list \<Rightarrow> lock_manager \<Rightarrow> waiter_signal list \<Rightarrow> lock_manager \<times> waiter_signal list"
where
  "release_locks txn [] m all_signals = (m, all_signals)"
| "release_locks txn (ref # refs) m all_signals =
     (let (m', signals) = release_lock txn ref m
      in release_locks txn refs m' (all_signals @ signals))"

definition release_all_locks :: "txn_id \<Rightarrow> lock_ref list \<Rightarrow> lock_manager \<Rightarrow> lock_manager \<times> nat" where
  "release_all_locks txn held_locks m =
     (let (m', all_signals) = release_locks txn held_locks m []
      in (fold notify_one all_signals m', length all_signals))"

definition release_queue :: "txn_id \<Rightarrow> lock_queue \<Rightarrow> lock_queue \<times> waiter_signal list" where
  "release_queue txn q =
     (let (q', removed) = remove_granted_by_txn q txn
      in if removed \<noteq> [] then try_grant_waiters q' else (q', []))"

definition release_shard :: "txn_id \<Rightarrow> 'k shard \<Rightarrow> 'k shard \<times> waiter_signal list" where
  "release_shard txn sh =
     (filter (\<lambda>(k, q). \<not> queue_is_empty q) (map (\<lambda>(k, q). (k, fst (release_queue txn q))) sh),
      concat (map (\<lambda>(k, q). snd (release_queue txn q)) sh))"

definition release_all_for_txn :: "txn_id \<Rightarrow> lock_manager \<Rightarrow> lock_manager \<times> nat" where
  "release_all_for_txn txn m =
     (let all_signals = concat (map (\<lambda>sh. snd (release_shard txn sh)) (record_shards m)) @
            concat (map (\<lambda>sh. snd (release_shard txn sh)) (table_shards m));
          m' = m\<lparr>record_shards := map (\<lambda>sh. fst (release_shard txn sh)) (record_shards m),
                table_shards := map (\<lambda>sh. fst (release_shard txn sh)) (table_shards m)\<rparr>
      in (forget_wait txn (fold notify_one all_signals m'), length all_signals))"

subsection \<open>Interleaved calls\<close>

text \<open>
  A call in progress is a process with the point it has reached. A record call goes from
  \<open>RecStart\<close> through the enqueue section to \<open>RecQueued\<close> (with its handle and its blocker),
  the deadlock check, possibly the abort of the victim, then parks until it is notified or
  times out, and leaves by removing its edge. A synchronous timeout is reported only when the
  handle was not notified (\<open>SyncNotify::wait_timeout\<close> returns the flag); an asynchronous one may
  race with the notification.
\<close>

datatype call_kind = AsyncCall | SyncCall

primrec handle_of :: "call_kind \<Rightarrow> nat \<Rightarrow> waiter_signal" where
  "handle_of AsyncCall = AsyncSignal"
| "handle_of SyncCall = SyncSignal"

datatype record_stage =
    RecStart
  | RecQueued waiter_signal txn_id
  | RecAborting waiter_signal txn_id "lock_ref option"
  | RecSelfVictim
  | RecParked waiter_signal
  | RecTimedOut
  | RecLeaving "db_error + lock_result"
  | RecDone "db_error + lock_result"

datatype table_stage =
    TabStart
  | TabParked waiter_signal
  | TabTimedOut
  | TabDone "db_error + lock_result"

datatype proc =
    RecordCall call_kind record_request record_stage
  | TableCall call_kind txn_id u32 lock_mode table_stage
  | TryCall txn_id page_id u16 lock_mode "bool option"
  | ReleaseCall txn_id "lock_ref list" "waiter_signal list"
  | ReleaseAllCall txn_id nat "waiter_signal list" bool

primrec proc_initial :: "proc \<Rightarrow> bool" where
  "proc_initial (RecordCall k r st) = (st = RecStart)"
| "proc_initial (TableCall k txn table mode st) = (st = TabStart)"
| "proc_initial (TryCall txn page slot mode res) = (res = None)"
| "proc_initial (ReleaseCall txn refs sigs) = (sigs = [])"
| "proc_initial (ReleaseAllCall txn i sigs fin) = (i = 0 \<and> sigs = [] \<and> \<not> fin)"

inductive proc_step :: "nat \<Rightarrow> lock_manager \<times> proc \<Rightarrow> lock_manager \<times> proc \<Rightarrow> bool" where
  rec_grant: "enter_record (handle_of k) r now m = (m', None) \<Longrightarrow>
    proc_step now (m, RecordCall k r RecStart) (m', RecordCall k r (RecDone (Inr Granted)))"
| rec_enqueue: "enter_record (handle_of k) r now m = (m', Some (sig, b)) \<Longrightarrow>
    proc_step now (m, RecordCall k r RecStart) (m', RecordCall k r (RecQueued sig b))"
| rec_nowait: "k = SyncCall \<Longrightarrow> flags_contains (rq_flags r) flag_nowait \<Longrightarrow>
    proc_step now (m, RecordCall k r (RecQueued sig b))
      (drop_record_waiter (rq_txn r) (rq_page r) m, RecordCall k r (RecDone (Inl LockTimeout)))"
| rec_no_deadlock: "\<not> (k = SyncCall \<and> flags_contains (rq_flags r) flag_nowait) \<Longrightarrow>
    check_deadlock r b now m = (m', None) \<Longrightarrow>
    proc_step now (m, RecordCall k r (RecQueued sig b)) (m', RecordCall k r (RecParked sig))"
| rec_deadlock: "\<not> (k = SyncCall \<and> flags_contains (rq_flags r) flag_nowait) \<Longrightarrow>
    check_deadlock r b now m = (m', Some (victim, ref)) \<Longrightarrow>
    proc_step now (m, RecordCall k r (RecQueued sig b)) (m', RecordCall k r (RecAborting sig victim ref))"
| rec_abort: "m' = (case ref of None \<Rightarrow> m | Some lr \<Rightarrow> abort_waiter victim lr m) \<Longrightarrow>
    st = (if victim = rq_txn r then RecSelfVictim else RecParked sig) \<Longrightarrow>
    proc_step now (m, RecordCall k r (RecAborting sig victim ref)) (m', RecordCall k r st)"
| rec_self_victim:
    "proc_step now (m, RecordCall k r RecSelfVictim)
      (drop_record_waiter (rq_txn r) (rq_page r) m, RecordCall k r (RecDone (Inl DeadlockDetected)))"
| rec_wake: "sig \<in> set (signalled m) \<Longrightarrow>
    proc_step now (m, RecordCall k r (RecParked sig))
      (m, RecordCall k r (RecLeaving (wake_result (rq_txn r) (rq_page r) (rq_mode r) m)))"
| rec_timeout: "k = SyncCall \<longrightarrow> sig \<notin> set (signalled m) \<Longrightarrow>
    proc_step now (m, RecordCall k r (RecParked sig)) (m, RecordCall k r RecTimedOut)"
| rec_timed_out:
    "proc_step now (m, RecordCall k r RecTimedOut)
      (drop_record_waiter (rq_txn r) (rq_page r) m, RecordCall k r (RecLeaving (Inl LockTimeout)))"
| rec_leave:
    "proc_step now (m, RecordCall k r (RecLeaving res))
      (forget_wait (rq_txn r) m, RecordCall k r (RecDone res))"
| tab_grant: "enter_table (handle_of k) txn table mode now m = (m', None) \<Longrightarrow>
    proc_step now (m, TableCall k txn table mode TabStart)
      (m', TableCall k txn table mode (TabDone (Inr Granted)))"
| tab_enqueue: "enter_table (handle_of k) txn table mode now m = (m', Some sig) \<Longrightarrow>
    proc_step now (m, TableCall k txn table mode TabStart) (m', TableCall k txn table mode (TabParked sig))"
| tab_wake: "sig \<in> set (signalled m) \<Longrightarrow>
    proc_step now (m, TableCall k txn table mode (TabParked sig))
      (m, TableCall k txn table mode (TabDone (Inr WaitGranted)))"
| tab_timeout: "k = SyncCall \<longrightarrow> sig \<notin> set (signalled m) \<Longrightarrow>
    proc_step now (m, TableCall k txn table mode (TabParked sig)) (m, TableCall k txn table mode TabTimedOut)"
| tab_timed_out:
    "proc_step now (m, TableCall k txn table mode TabTimedOut)
      (drop_table_waiter txn table m, TableCall k txn table mode (TabDone (Inl LockTimeout)))"
| try_acquire: "try_acquire_record_lock_sync txn page slot mode now m = (m', res) \<Longrightarrow>
    proc_step now (m, TryCall txn page slot mode None) (m', TryCall txn page slot mode (Some res))"
| rel_lock: "release_lock txn ref m = (m', signals) \<Longrightarrow>
    proc_step now (m, ReleaseCall txn (ref # refs) sigs) (m', ReleaseCall txn refs (sigs @ signals))"
| rel_notify:
    "proc_step now (m, ReleaseCall txn [] (sig # sigs)) (notify_one sig m, ReleaseCall txn [] sigs)"
| all_record: "i < RECORD_SHARDS \<Longrightarrow> release_shard txn (record_shards m ! i) = (sh, signals) \<Longrightarrow>
    proc_step now (m, ReleaseAllCall txn i sigs False)
      (m\<lparr>record_shards := (record_shards m)[i := sh]\<rparr>, ReleaseAllCall txn (Suc i) (sigs @ signals) False)"
| all_table: "RECORD_SHARDS \<le> i \<Longrightarrow> i < RECORD_SHARDS + TABLE_SHARDS \<Longrightarrow>
    release_shard txn (table_shards m ! (i - RECORD_SHARDS)) = (sh, signals) \<Longrightarrow>
    proc_step now (m, ReleaseAllCall txn i sigs False)
      (m\<lparr>table_shards := (table_shards m)[i - RECORD_SHARDS := sh]\<rparr>,
       ReleaseAllCall txn (Suc i) (sigs @ signals) False)"
| all_notify: "i = RECORD_SHARDS + TABLE_SHARDS \<Longrightarrow>
    proc_step now (m, ReleaseAllCall txn i (sig # sigs) False)
      (notify_one sig m, ReleaseAllCall txn i sigs False)"
| all_forget: "i = RECORD_SHARDS + TABLE_SHARDS \<Longrightarrow>
    proc_step now (m, ReleaseAllCall txn i [] False) (forget_wait txn m, ReleaseAllCall txn i [] True)"

text \<open>Any number of calls run at once; new ones start at any time.\<close>

inductive reachable :: "nat \<Rightarrow> lock_manager \<Rightarrow> proc list \<Rightarrow> bool" for timeout where
  reachable_init: "reachable timeout (with_timeout timeout) []"
| reachable_call: "reachable timeout m ps \<Longrightarrow> proc_initial p \<Longrightarrow> reachable timeout m (ps @ [p])"
| reachable_step: "reachable timeout m ps \<Longrightarrow> i < length ps \<Longrightarrow>
    proc_step now (m, ps ! i) (m', p') \<Longrightarrow> reachable timeout m' (ps[i := p'])"

subsection \<open>The shape of the shards\<close>

text \<open>
  A table of shards whose keys sit in the shard their hash selects and whose queues all
  satisfy a given condition.
\<close>

definition shard_inv :: "('k \<Rightarrow> nat) \<Rightarrow> (lock_queue \<Rightarrow> bool) \<Rightarrow> nat \<Rightarrow> 'k shard \<Rightarrow> bool" where
  "shard_inv idx good i sh \<longleftrightarrow> distinct (map fst sh) \<and> (\<forall>(k, q) \<in> set sh. idx k = i \<and> good q)"

definition shards_inv ::
  "('k \<Rightarrow> nat) \<Rightarrow> nat \<Rightarrow> (lock_queue \<Rightarrow> bool) \<Rightarrow> 'k shard list \<Rightarrow> bool" where
  "shards_inv idx nshards good shards \<longleftrightarrow>
     length shards = nshards \<and> (\<forall>i < nshards. shard_inv idx good i (shards ! i))"

locale shard_table =
  fixes idx :: "'k \<Rightarrow> nat" and nshards :: nat and good :: "lock_queue \<Rightarrow> bool"
  assumes idx_bound: "idx k < nshards" and good_new: "good queue_new"
begin

abbreviation shard_ok :: "nat \<Rightarrow> 'k shard \<Rightarrow> bool" where
  "shard_ok \<equiv> shard_inv idx good"

abbreviation shards_ok :: "'k shard list \<Rightarrow> bool" where
  "shards_ok \<equiv> shards_inv idx nshards good"

lemma shards_ok_replicate: "shards_ok (replicate nshards [])"
  by (simp add: shards_inv_def shard_inv_def)

lemma shards_ok_update: "shards_ok shards \<Longrightarrow> shard_ok i sh \<Longrightarrow> shards_ok (shards[i := sh])"
  by (cases "i < length shards") (auto simp: shards_inv_def nth_list_update)

lemma shards_ok_nth: "shards_ok shards \<Longrightarrow> shard_ok (idx k) (shards ! idx k)"
  by (simp add: shards_inv_def idx_bound)

lemma shard_ok_lookup: "shard_ok i sh \<Longrightarrow> map_of sh k = Some q \<Longrightarrow> good q"
  by (auto simp: shard_inv_def dest!: map_of_SomeD)

lemma shard_ok_entry: "shard_ok i sh \<Longrightarrow> good (entry_or_default sh k)"
  by (auto simp: entry_or_default_def good_new shard_ok_lookup split: option.split)

lemma set_update_subset: "set (AList.update k q sh) \<subseteq> insert (k, q) (set sh)"
  by (induction sh) auto

lemma shard_ok_put: "shard_ok (idx k) sh \<Longrightarrow> good q \<Longrightarrow> shard_ok (idx k) (AList.update k q sh)"
  using set_update_subset [of k q sh] by (auto simp: shard_inv_def distinct_update)

lemma shard_ok_delete: "shard_ok i sh \<Longrightarrow> shard_ok i (AList.delete k sh)"
  by (auto simp: shard_inv_def distinct_map_filter AList.delete_eq)

lemma shard_ok_put_or_remove:
  "shard_ok (idx k) sh \<Longrightarrow> good q \<Longrightarrow> shard_ok (idx k) (put_or_remove k q sh)"
  by (simp add: put_or_remove_def shard_ok_put shard_ok_delete)

lemma shard_ok_release:
  assumes "shard_ok i sh" "\<And>q. good q \<Longrightarrow> good (fst (release_queue txn q))"
  shows "shard_ok i (fst (release_shard txn sh))"
proof -
  have "map fst (map (\<lambda>(k, q). (k, fst (release_queue txn q))) sh) = map fst sh"
    by (induction sh) auto
  with assms show ?thesis
    by (auto simp: shard_inv_def release_shard_def distinct_map_filter simp del: map_map)
qed

end

subsection \<open>Well-formed queues\<close>

text \<open>Record entries carry a bitmap, record waiters a single slot; table entries and waiters
  have none, and granted table locks never clash.\<close>

definition record_queue_wf :: "lock_queue \<Rightarrow> bool" where
  "record_queue_wf q \<longleftrightarrow>
     (\<forall>e \<in> set (granted q). \<exists>bm. le_bitmap e = Some bm \<and> bm_wf bm) \<and>
     (\<forall>w \<in> set (waiting q). \<exists>s. le_bitmap (lw_entry w) = Some (bm_with_slot s))"

definition table_queue_wf :: "lock_queue \<Rightarrow> bool" where
  "table_queue_wf q \<longleftrightarrow>
     queue_compatible q \<and> (\<forall>e \<in> set (granted q). le_bitmap e = None) \<and>
     (\<forall>w \<in> set (waiting q). le_bitmap (lw_entry w) = None)"

interpretation records: shard_table record_shard_idx RECORD_SHARDS record_queue_wf
  by unfold_locales
    (simp_all add: record_shard_idx_def RECORD_SHARDS_def record_queue_wf_def queue_new_def)

interpretation tables: shard_table table_shard_idx TABLE_SHARDS table_queue_wf
  by unfold_locales
    (simp_all add: table_shard_idx_def TABLE_SHARDS_def table_queue_wf_def queue_new_def
      queue_compatible_def)

lemma try_grant_subset:
  "set (granted (fst (try_grant_waiters q))) \<subseteq> set (granted q) \<union> promote ` set (waiting q)"
  "set (waiting (fst (try_grant_waiters q))) \<subseteq> set (waiting q)"
proof -
  obtain ps rs where scan: "grant_scan (granted q) (waiting q) = (ps, rs)" by fastforce
  have "set (waiting q) = set ps \<union> set rs"
    using arg_cong [OF grant_scan_partition(1) [OF scan], of set_mset] by simp
  then show "set (granted (fst (try_grant_waiters q))) \<subseteq> set (granted q) \<union> promote ` set (waiting q)"
    "set (waiting (fst (try_grant_waiters q))) \<subseteq> set (waiting q)"
    by (auto simp: try_grant_waiters_scan [OF scan])
qed

lemma try_grant_keeps_compatible:
  assumes "queue_compatible q" "\<And>w. w \<in> set (waiting q) \<Longrightarrow> waiter_wf w"
  shows "queue_compatible (fst (try_grant_waiters q))"
proof -
  obtain ps rs where scan: "grant_scan (granted q) (waiting q) = (ps, rs)" by fastforce
  from grant_scan_compatible [OF scan] assms show ?thesis
    by (simp add: try_grant_waiters_scan [OF scan] queue_compatible_def)
qed

lemma remove_waiter_sel:
  "granted (fst (remove_waiter_by_txn q txn)) = granted q"
  "set (waiting (fst (remove_waiter_by_txn q txn))) \<subseteq> set (waiting q)"
  by (auto simp: remove_waiter_by_txn_def split: option.split dest: set_remove_nth [THEN subsetD])

lemma abort_in_queue_sel:
  "granted (fst (abort_in_queue txn q)) = granted q"
  "lw_entry ` set (waiting (fst (abort_in_queue txn q))) = lw_entry ` set (waiting q)"
proof -
  show "granted (fst (abort_in_queue txn q)) = granted q"
    by (simp add: abort_in_queue_def split: option.split)
  have "map lw_entry (waiting (fst (abort_in_queue txn q))) = map lw_entry (waiting q)"
    by (auto simp: abort_in_queue_def map_update list_update_same_conv dest: position_Some
        split: option.split)
  then show "lw_entry ` set (waiting (fst (abort_in_queue txn q))) = lw_entry ` set (waiting q)"
    by (metis set_map)
qed

named_theorems queue_wf "operations keep queues well-formed"

lemma compatible_removed [queue_wf]:
  "queue_compatible q \<Longrightarrow> queue_compatible (fst (remove_granted_by_txn q txn))"
  by (simp add: queue_compatible_def remove_granted_by_txn_def sorted_wrt_filter)

lemma record_wf_removed [queue_wf]:
  "record_queue_wf q \<Longrightarrow> record_queue_wf (fst (remove_granted_by_txn q txn))"
  by (auto simp: record_queue_wf_def remove_granted_by_txn_def)

lemma table_wf_removed [queue_wf]:
  "table_queue_wf q \<Longrightarrow> table_queue_wf (fst (remove_granted_by_txn q txn))"
  by (auto simp: table_queue_wf_def compatible_removed)
    (auto simp: remove_granted_by_txn_def)

lemma record_wf_grant [queue_wf]:
  "record_queue_wf q \<Longrightarrow> record_queue_wf (fst (try_grant_waiters q))"
  using try_grant_subset [of q] by (fastforce simp: record_queue_wf_def)

lemma table_wf_grant [queue_wf]:
  "table_queue_wf q \<Longrightarrow> table_queue_wf (fst (try_grant_waiters q))"
  using try_grant_subset [of q] try_grant_keeps_compatible [of q]
  by (fastforce simp: table_queue_wf_def waiter_wf_def)

lemma record_wf_drop_waiter [queue_wf]:
  "record_queue_wf q \<Longrightarrow> record_queue_wf (fst (remove_waiter_by_txn q txn))"
  using remove_waiter_sel [of q txn] by (auto simp: record_queue_wf_def)

lemma table_wf_drop_waiter [queue_wf]:
  "table_queue_wf q \<Longrightarrow> table_queue_wf (fst (remove_waiter_by_txn q txn))"
  using remove_waiter_sel [of q txn] by (auto simp: table_queue_wf_def queue_compatible_def)

lemma abort_in_queue_all:
  "(\<forall>w \<in> set (waiting (fst (abort_in_queue txn q))). P (lw_entry w)) \<longleftrightarrow>
   (\<forall>w \<in> set (waiting q). P (lw_entry w))"
  using abort_in_queue_sel(2) [of txn q] by (metis (no_types, lifting) image_iff)

lemma record_wf_abort [queue_wf]:
  "record_queue_wf q \<Longrightarrow> record_queue_wf (fst (abort_in_queue txn q))"
  unfolding record_queue_wf_def abort_in_queue_sel(1)
  by (subst abort_in_queue_all [where P = "\<lambda>e. \<exists>s. le_bitmap e = Some (bm_with_slot s)"])

lemma table_wf_abort [queue_wf]:
  "table_queue_wf q \<Longrightarrow> table_queue_wf (fst (abort_in_queue txn q))"
  unfolding table_queue_wf_def queue_compatible_def abort_in_queue_sel(1)
  by (subst abort_in_queue_all [where P = "\<lambda>e. le_bitmap e = None"])

lemma record_wf_release [queue_wf]:
  "record_queue_wf q \<Longrightarrow> record_queue_wf (fst (release_queue txn q))"
  using record_wf_removed [of q txn]
  by (auto simp: release_queue_def record_wf_grant split: prod.split)

lemma table_wf_release [queue_wf]:
  "table_queue_wf q \<Longrightarrow> table_queue_wf (fst (release_queue txn q))"
  using table_wf_removed [of q txn]
  by (auto simp: release_queue_def table_wf_grant split: prod.split)

lemma set_slot_sel [simp]:
  "le_txn_id (set_slot e s) = le_txn_id e" "le_mode (set_slot e s) = le_mode e"
  by (simp_all add: set_slot_def split: option.split)

lemma set_slot_bitmap: "le_bitmap (set_slot e s) = map_option (\<lambda>bm. bm_set bm s) (le_bitmap e)"
  by (simp add: set_slot_def split: option.split)

lemma record_wf_update:
  assumes "record_queue_wf q" "idx < length (granted q)"
    "le_bitmap e = map_option (\<lambda>bm. bm_set bm slot) (le_bitmap (granted q ! idx))"
  shows "record_queue_wf (q\<lparr>granted := (granted q)[idx := e]\<rparr>)"
proof -
  from assms(1,2) obtain bm where bm: "le_bitmap (granted q ! idx) = Some bm" "bm_wf bm"
    by (metis nth_mem record_queue_wf_def)
  have "set ((granted q)[idx := e]) \<subseteq> insert e (set (granted q))"
    by (rule set_update_subset_insert)
  with assms bm show ?thesis by (auto simp: record_queue_wf_def)
qed

lemma record_wf_extend [queue_wf]:
  "record_queue_wf q \<Longrightarrow> idx < length (granted q) \<Longrightarrow> record_queue_wf (extend_granted q idx slot)"
  by (simp add: extend_granted_def record_wf_update set_slot_bitmap)

lemma record_wf_upgrade [queue_wf]:
  "record_queue_wf q \<Longrightarrow> idx < length (granted q) \<Longrightarrow> record_queue_wf (upgrade_granted q idx slot)"
  by (simp add: upgrade_granted_def record_wf_update set_slot_bitmap)

lemma record_wf_grant_or_enqueue [queue_wf]:
  "record_queue_wf q \<Longrightarrow> record_queue_wf (fst (grant_or_enqueue r now sig q))"
  by (auto simp: record_queue_wf_def grant_or_enqueue_def request_entry_def Let_def)

lemma find_granted_idx_bound: "find_granted_idx q txn mode = Some i \<Longrightarrow> i < length (granted q)"
  by (auto simp: find_granted_idx_def dest: position_Some)

lemma record_wf_enqueue [queue_wf]:
  "record_queue_wf q \<Longrightarrow> record_queue_wf (fst (record_enqueue r now sig q))"
  by (auto simp: record_enqueue_def intro!: queue_wf
      dest: find_granted_idx_bound split: option.split if_splits)

lemma table_wf_enqueue [queue_wf]:
  assumes "table_queue_wf q"
  shows "table_queue_wf (fst (table_enqueue txn mode now sig q))"
proof -
  have "queue_compatible (q\<lparr>granted := granted q @ [table_entry txn mode fl now]\<rparr>)"
    if "find_conflict q txn mode None = None" for fl
  proof -
    have "\<not> entries_clash a (table_entry txn mode fl now)" if "a \<in> set (granted q)" for a
      using that \<open>find_conflict q txn mode None = None\<close>
      by (subst clash_whole) (auto simp: table_entry_def find_conflict_None)
    with assms show ?thesis
      by (simp add: table_queue_wf_def queue_compatible_def entries.ok_snoc)
  qed
  with assms show ?thesis
    by (auto simp: table_enqueue_def table_queue_wf_def table_entry_def queue_compatible_def)
qed

subsection \<open>Every critical section keeps the manager well-formed\<close>

definition manager_wf :: "lock_manager \<Rightarrow> bool" where
  "manager_wf m \<longleftrightarrow>
     shards_inv record_shard_idx RECORD_SHARDS record_queue_wf (record_shards m) \<and>
     shards_inv table_shard_idx TABLE_SHARDS table_queue_wf (table_shards m)"

named_theorems manager_wf "critical sections keep the manager well-formed"

lemma manager_wf_new [manager_wf]: "manager_wf (with_timeout t)"
  by (simp add: manager_wf_def with_timeout_def records.shards_ok_replicate tables.shards_ok_replicate)

lemma manager_wf_sel [simp]:
  "manager_wf (m\<lparr>wait_for := w\<rparr>) = manager_wf m"
  "manager_wf (m\<lparr>next_signal := n\<rparr>) = manager_wf m"
  "manager_wf (m\<lparr>signalled := s\<rparr>) = manager_wf m"
  by (simp_all add: manager_wf_def)

lemma manager_wf_notify [simp]: "manager_wf (notify_one s m) = manager_wf m"
  by (simp add: notify_one_def)

lemma manager_wf_forget [simp]: "manager_wf (forget_wait txn m) = manager_wf m"
  by (simp add: forget_wait_def)

lemma manager_wf_shard:
  assumes "manager_wf m"
  shows "shard_inv record_shard_idx record_queue_wf (record_shard_idx page) (record_shard m page)"
    "shard_inv table_shard_idx table_queue_wf (table_shard_idx table) (table_shard m table)"
  using assms records.shards_ok_nth tables.shards_ok_nth
  by (auto simp: manager_wf_def record_shard_def table_shard_def)

lemma manager_wf_queue:
  "manager_wf m \<Longrightarrow> record_queue_wf (record_queue m page)"
  "manager_wf m \<Longrightarrow> table_queue_wf (table_queue m table)"
  by (simp_all add: record_queue_def table_queue_def records.shard_ok_entry [OF manager_wf_shard(1)]
      tables.shard_ok_entry [OF manager_wf_shard(2)])

lemma manager_wf_on_record:
  "manager_wf m \<Longrightarrow>
   shard_inv record_shard_idx record_queue_wf (record_shard_idx page) (f (record_shard m page)) \<Longrightarrow>
   manager_wf (on_record_shard f page m)"
  by (simp add: manager_wf_def on_record_shard_def Let_def record_shard_def records.shards_ok_update)

lemma manager_wf_on_table:
  "manager_wf m \<Longrightarrow>
   shard_inv table_shard_idx table_queue_wf (table_shard_idx table) (f (table_shard m table)) \<Longrightarrow>
   manager_wf (on_table_shard f table m)"
  by (simp add: manager_wf_def on_table_shard_def Let_def table_shard_def tables.shards_ok_update)

lemma manager_wf_put_record:
  "manager_wf m \<Longrightarrow> record_queue_wf q \<Longrightarrow> manager_wf (on_record_shard (AList.update page q) page m)"
  by (intro manager_wf_on_record records.shard_ok_put manager_wf_shard)

lemma manager_wf_put_table:
  "manager_wf m \<Longrightarrow> table_queue_wf q \<Longrightarrow> manager_wf (on_table_shard (AList.update table q) table m)"
  by (intro manager_wf_on_table tables.shard_ok_put manager_wf_shard)

lemma enter_record_wf [manager_wf]:
  assumes "manager_wf m" shows "manager_wf (fst (enter_record h r now m))"
  using record_wf_enqueue [OF manager_wf_queue(1) [OF assms], of r now "h (next_signal m)" "rq_page r"]
  by (auto simp: enter_record_def Let_def manager_wf_put_record assms split: prod.split option.split)

lemma enter_table_wf [manager_wf]:
  assumes "manager_wf m" shows "manager_wf (fst (enter_table h txn table mode now m))"
  using table_wf_enqueue [OF manager_wf_queue(2) [OF assms], of txn mode now "h (next_signal m)" table]
  by (auto simp: enter_table_def Let_def manager_wf_put_table assms split: prod.split)

lemma drop_record_waiter_wf [manager_wf]:
  "manager_wf m \<Longrightarrow> manager_wf (drop_record_waiter txn page m)"
  unfolding drop_record_waiter_def
  by (rule manager_wf_on_record)
    (auto simp: drop_waiter_def manager_wf_shard split: option.split
      intro!: records.shard_ok_put_or_remove record_wf_drop_waiter
      dest: records.shard_ok_lookup [OF manager_wf_shard(1)])

lemma drop_table_waiter_wf [manager_wf]:
  "manager_wf m \<Longrightarrow> manager_wf (drop_table_waiter txn table m)"
  unfolding drop_table_waiter_def
  by (rule manager_wf_on_table)
    (auto simp: drop_waiter_def manager_wf_shard split: option.split
      intro!: tables.shard_ok_put_or_remove table_wf_drop_waiter
      dest: tables.shard_ok_lookup [OF manager_wf_shard(2)])

lemma check_deadlock_wf [manager_wf]:
  "manager_wf m \<Longrightarrow> manager_wf (fst (check_deadlock r b now m))"
  by (simp add: check_deadlock_def Let_def split: option.split)

lemma abort_waiter_wf [manager_wf]:
  assumes "manager_wf m" shows "manager_wf (abort_waiter txn ref m)"
proof (cases ref)
  case (RecordRef page slot)
  have "record_queue_wf (fst (abort_in_queue txn q))" if "map_of (record_shard m page) page = Some q" for q
    by (intro record_wf_abort records.shard_ok_lookup [OF manager_wf_shard(1) [OF assms] that])
  then show ?thesis
    by (fastforce simp: abort_waiter_def RecordRef Let_def assms
        intro: manager_wf_put_record [OF assms] split: option.split prod.split)
next
  case (TableRef table)
  have "table_queue_wf (fst (abort_in_queue txn q))" if "map_of (table_shard m table) table = Some q" for q
    by (intro table_wf_abort tables.shard_ok_lookup [OF manager_wf_shard(2) [OF assms] that])
  then show ?thesis
    by (fastforce simp: abort_waiter_def TableRef Let_def assms
        intro: manager_wf_put_table [OF assms] split: option.split prod.split)
qed

lemma try_acquire_wf [manager_wf]:
  assumes "manager_wf m"
  shows "manager_wf (fst (try_acquire_record_lock_sync txn page slot mode now m))"
proof -
  let ?q = "record_queue m page"
  have q: "record_queue_wf ?q" by (rule manager_wf_queue [OF assms])
  have "manager_wf (on_record_shard (put_or_remove page ?q) page m)"
    by (intro manager_wf_on_record assms records.shard_ok_put_or_remove manager_wf_shard q)
  moreover have "record_queue_wf (extend_granted ?q i slot)"
    if "find_granted_idx ?q txn mode = Some i" for i
    using that by (intro record_wf_extend q find_granted_idx_bound)
  moreover have "record_queue_wf (?q\<lparr>granted := granted ?q @
      [\<lparr>le_txn_id = txn, le_mode = mode, le_flags = flag_none, le_requested_at = now,
        le_bitmap = Some (bm_with_slot slot)\<rparr>]\<rparr>)"
    using q by (auto simp: record_queue_wf_def)
  ultimately show ?thesis
    by (auto simp: try_acquire_record_lock_sync_def Let_def manager_wf_put_record assms
        split: option.split)
qed

lemma release_key_record_wf:
  assumes "shard_inv record_shard_idx record_queue_wf (record_shard_idx page) sh"
  shows "shard_inv record_shard_idx record_queue_wf (record_shard_idx page) (fst (release_key txn page sh))"
proof (cases "map_of sh page")
  case (Some q)
  have "record_queue_wf (fst (try_grant_waiters (fst (remove_granted_by_txn q txn))))"
    by (intro record_wf_grant record_wf_removed records.shard_ok_lookup [OF assms Some])
  then show ?thesis
    by (auto simp: release_key_def Some records.shard_ok_put_or_remove assms split: prod.split)
qed (simp add: release_key_def assms)

lemma release_key_table_wf:
  assumes "shard_inv table_shard_idx table_queue_wf (table_shard_idx table) sh"
  shows "shard_inv table_shard_idx table_queue_wf (table_shard_idx table) (fst (release_key txn table sh))"
proof (cases "map_of sh table")
  case (Some q)
  have "table_queue_wf (fst (try_grant_waiters (fst (remove_granted_by_txn q txn))))"
    by (intro table_wf_grant table_wf_removed tables.shard_ok_lookup [OF assms Some])
  then show ?thesis
    by (auto simp: release_key_def Some tables.shard_ok_put_or_remove assms split: prod.split)
qed (simp add: release_key_def assms)

lemma release_lock_wf [manager_wf]:
  "manager_wf m \<Longrightarrow> manager_wf (fst (release_lock txn ref m))"
  by (auto simp: release_lock_def split: lock_ref.split
      intro!: manager_wf_on_record manager_wf_on_table release_key_record_wf release_key_table_wf
        manager_wf_shard)

lemma release_record_shard_wf [manager_wf]:
  "manager_wf m \<Longrightarrow> i < RECORD_SHARDS \<Longrightarrow>
   manager_wf (m\<lparr>record_shards := (record_shards m)[i := fst (release_shard txn (record_shards m ! i))]\<rparr>)"
  by (auto simp: manager_wf_def intro!: records.shards_ok_update records.shard_ok_release record_wf_release)
    (simp add: shards_inv_def)

lemma release_table_shard_wf [manager_wf]:
  "manager_wf m \<Longrightarrow> i < TABLE_SHARDS \<Longrightarrow>
   manager_wf (m\<lparr>table_shards := (table_shards m)[i := fst (release_shard txn (table_shards m ! i))]\<rparr>)"
  by (auto simp: manager_wf_def intro!: tables.shards_ok_update tables.shard_ok_release table_wf_release)
    (simp add: shards_inv_def)

lemma section_wf:
  "enter_record h r now m = (m', out) \<Longrightarrow> manager_wf m \<Longrightarrow> manager_wf m'"
  "enter_table h txn table mode now m = (m', out') \<Longrightarrow> manager_wf m \<Longrightarrow> manager_wf m'"
  "check_deadlock r b now m = (m', out'') \<Longrightarrow> manager_wf m \<Longrightarrow> manager_wf m'"
  "try_acquire_record_lock_sync txn page slot mode now m = (m', res) \<Longrightarrow> manager_wf m \<Longrightarrow> manager_wf m'"
  "release_lock txn ref m = (m', sigs) \<Longrightarrow> manager_wf m \<Longrightarrow> manager_wf m'"
  by (metis manager_wf fst_conv)+

lemma proc_step_wf:
  assumes "proc_step now (m, p) (m', p')" "manager_wf m"
  shows "manager_wf m'"
  using assms
proof (cases rule: proc_step.cases)
  case (rec_abort ref victim st r sig k)
  with assms(2) show ?thesis by (simp add: abort_waiter_wf split: option.split)
next
  case (all_record i txn sh signals sigs)
  with release_record_shard_wf [OF assms(2), of i txn] show ?thesis by simp
next
  case (all_table i txn sh signals sigs)
  with release_table_shard_wf [OF assms(2), of "i - RECORD_SHARDS" txn] show ?thesis by simp
qed (use assms(2) in \<open>auto intro: drop_record_waiter_wf drop_table_waiter_wf section_wf\<close>)

end
