(* ===== verification/Lock_Safety.thy ===== *)
theory Lock_Safety
  imports Lock_Manager
begin

text \<open>
  What the lock manager guarantees, over every interleaving of calls where that is true, and
  where it is not, the executions that break it: table locks are exclusive in every reachable
  state; record locks are exclusive as long as a transaction does not extend a lock it already
  holds on the page onto a slot that another transaction has locked.
\<close>

subsection \<open>Reading the queues back\<close>

lemma entry_or_default_update [simp]:
  "entry_or_default (AList.update k q sh) k' = (if k' = k then q else entry_or_default sh k')"
  by (simp add: entry_or_default_def update_conv)

lemma queue_is_empty_iff: "queue_is_empty q \<longleftrightarrow> q = queue_new"
  by (cases q) (simp add: queue_is_empty_def queue_new_def)

lemma entry_or_default_put_or_remove [simp]:
  "entry_or_default (put_or_remove k q sh) k' = (if k' = k then q else entry_or_default sh k')"
  by (simp add: put_or_remove_def queue_is_empty_iff) (simp add: entry_or_default_def delete_conv)

lemma record_shard_on [simp]:
  assumes "manager_wf m"
  shows "record_shard (on_record_shard f page m) page' =
    (if record_shard_idx page' = record_shard_idx page then f (record_shard m page')
     else record_shard m page')"
  using assms records.idx_bound [of page]
  by (auto simp: record_shard_def on_record_shard_def Let_def manager_wf_def shards_inv_def
      nth_list_update)

lemma record_queue_put [simp]:
  "manager_wf m \<Longrightarrow> record_queue (on_record_shard (AList.update page q) page m) page' =
     (if page' = page then q else record_queue m page')"
  by (simp add: record_queue_def)

lemma record_queue_put_or_remove [simp]:
  "manager_wf m \<Longrightarrow> record_queue (on_record_shard (put_or_remove page q) page m) page' =
     (if page' = page then q else record_queue m page')"
  by (simp add: record_queue_def)

lemma record_queue_sel [simp]:
  "record_queue (m\<lparr>next_signal := n\<rparr>) page = record_queue m page"
  by (simp add: record_queue_def record_shard_def)

text \<open>A granted record lock on a slot.\<close>

definition holds_record :: "lock_manager \<Rightarrow> txn_id \<Rightarrow> page_id \<Rightarrow> u16 \<Rightarrow> lock_mode \<Rightarrow> bool" where
  "holds_record m txn page slot mode \<longleftrightarrow>
     (\<exists>e \<in> set (granted (record_queue m page)).
        le_txn_id e = txn \<and> le_mode e = mode \<and> (\<exists>bm. le_bitmap e = Some bm \<and> bm_test bm slot))"

subsection \<open>Requests on a compatible queue\<close>

lemma compatible_snoc:
  assumes "queue_compatible q" "find_conflict q txn mode (Some slot) = None"
    "le_txn_id e = txn" "le_mode e = mode" "le_bitmap e = Some (bm_with_slot slot)"
  shows "queue_compatible (q\<lparr>granted := granted q @ [e]\<rparr>)"
  using assms by (simp add: queue_compatible_def entries.ok_snoc clash_single_slot find_conflict_None)

lemma compatible_extend:
  assumes "queue_compatible q" "find_granted_idx q txn mode = Some i"
    "find_conflict q txn mode (Some slot) = None"
  shows "queue_compatible (extend_granted q i slot)"
proof -
  let ?es = "granted q"
  from assms(2) have i: "i < length ?es" "le_txn_id (?es ! i) = txn" "le_mode (?es ! i) = mode"
    by (auto simp: find_granted_idx_def dest: position_Some)
  have "\<not> entries_clash (set_slot (?es ! i) slot) (?es ! j)" if j: "j < length ?es" "j \<noteq> i" for j
  proof
    assume clash: "entries_clash (set_slot (?es ! i) slot) (?es ! j)"
    have "\<not> entries_clash (?es ! i) (?es ! j)"
      using assms(1) i(1) j by (simp add: queue_compatible_def entries.ok_nth)
    moreover have "\<not> entry_blocks (?es ! j) txn mode (Some slot)"
      using assms(3) j(1) by (simp add: find_conflict_None)
    ultimately show False
      using clash i(2,3) mode_conflict.conf_sym [of mode "le_mode (?es ! j)"]
      by (auto simp: entries_clash_def entry_blocks_def set_slot_bitmap bitmap.member_insert
          split: option.splits)
  qed
  with assms(1) i(1) show ?thesis
    unfolding queue_compatible_def extend_granted_def by (simp add: entries.ok_update)
qed

lemma grant_or_enqueue_compatible:
  "queue_compatible q \<Longrightarrow> queue_compatible (fst (grant_or_enqueue r now sig q))"
  by (auto simp: grant_or_enqueue_def Let_def request_entry_def intro!: compatible_snoc)
    (simp_all add: queue_compatible_def)

lemma grant_or_enqueue_granted:
  "snd (grant_or_enqueue r now sig q) = None \<Longrightarrow>
   request_entry r (flags_difference (rq_flags r) flag_waiting) now
     \<in> set (granted (fst (grant_or_enqueue r now sig q)))"
  by (auto simp: grant_or_enqueue_def Let_def split: if_splits)

lemma extend_granted_holds:
  assumes "record_queue_wf q" "find_granted_idx q txn mode = Some i"
  shows "\<exists>e \<in> set (granted (extend_granted q i slot)).
    le_txn_id e = txn \<and> le_mode e = mode \<and> (\<exists>bm. le_bitmap e = Some bm \<and> bm_test bm slot)"
proof (rule bexI [of _ "set_slot (granted q ! i) slot"])
  from assms(2) have i: "i < length (granted q)"
      "le_txn_id (granted q ! i) = txn" "le_mode (granted q ! i) = mode"
    by (auto simp: find_granted_idx_def dest: position_Some)
  from i(1) assms(1) obtain bm where "le_bitmap (granted q ! i) = Some bm"
    by (metis nth_mem record_queue_wf_def)
  with i(2,3) show "le_txn_id (set_slot (granted q ! i) slot) = txn \<and>
      le_mode (set_slot (granted q ! i) slot) = mode \<and>
      (\<exists>bm. le_bitmap (set_slot (granted q ! i) slot) = Some bm \<and> bm_test bm slot)"
    by (simp add: set_slot_bitmap bitmap.member_insert)
  show "set_slot (granted q ! i) slot \<in> set (granted (extend_granted q i slot))"
    using i(1) by (simp add: extend_granted_def set_update_memI)
qed

subsection \<open>Table locks\<close>

lemma reachable_manager_wf: "reachable t m ps \<Longrightarrow> manager_wf m"
  by (induction rule: reachable.induct) (auto simp: manager_wf_new dest: proc_step_wf)

text \<open>C6: Two-phase table locks are exclusive: in every state reachable by any interleaving of
  any number of lock, try-lock and release calls, two transactions never hold conflicting locks
  on the same table.\<close>

theorem reachable_table_exclusive:
  assumes "reachable timeout m ps"
    "a \<in> set (granted (table_queue m table))" "b \<in> set (granted (table_queue m table))"
    "le_txn_id a \<noteq> le_txn_id b"
  shows "\<not> conflicts (le_mode a) (le_mode b)"
proof -
  let ?g = "granted (table_queue m table)"
  have q: "table_queue_wf (table_queue m table)"
    by (rule manager_wf_queue [OF reachable_manager_wf [OF assms(1)]])
  from assms(2,3) obtain i j where ij: "i < length ?g" "j < length ?g" "a = ?g ! i" "b = ?g ! j"
    by (auto simp: in_set_conv_nth)
  with assms(4) q have "\<not> entries_clash a b"
    by (auto simp: table_queue_wf_def queue_compatible_def entries.ok_nth)
  with assms q show ?thesis
    by (auto simp: entries_clash_def table_queue_wf_def)
qed

lemma reachable_enter_table:
  assumes "reachable t m ps"
  shows "\<exists>ps'. reachable t (fst (enter_table (handle_of k) txn table mode now m)) ps'"
proof -
  let ?p = "TableCall k txn table mode TabStart"
  from assms have r: "reachable t m (ps @ [?p])" by (rule reachable_call) simp
  obtain m' out where out: "enter_table (handle_of k) txn table mode now m = (m', out)" by fastforce
  then have "\<exists>p'. proc_step now (m, ?p) (m', p')"
    by (cases out) (blast intro: proc_step.intros)+
  then obtain p' where "proc_step now (m, (ps @ [?p]) ! length ps) (m', p')" by auto
  from reachable_step [OF r _ this] out show ?thesis by auto
qed

definition demo_tables :: lock_manager where
  "demo_tables =
     fst (enter_table AsyncSignal 2 7 IntentionExclusive 0
       (fst (enter_table SyncSignal 1 7 IntentionShared 0 (with_timeout 0))))"

lemma demo_tables_granted:
  "map (\<lambda>e. (le_txn_id e, le_mode e)) (granted (table_queue demo_tables 7)) =
     [(1, IntentionShared), (2, IntentionExclusive)]"
  by (simp add: demo_tables_def enter_table_def table_queue_def table_shard_def with_timeout_def
      table_shard_idx_def TABLE_SHARDS_def entry_or_default_def queue_new_def table_enqueue_def
      find_conflict_def on_table_shard_def Let_def table_entry_def conflicts_def CONFLICT_MATRIX_def)

theorem reachable_table_exclusive_witness:
  "\<exists>m ps a b. reachable 0 m ps \<and> {a, b} \<subseteq> set (granted (table_queue m 7)) \<and>
     le_txn_id a \<noteq> le_txn_id b \<and> \<not> conflicts (le_mode a) (le_mode b)"
proof -
  obtain ps where "reachable 0 (fst (enter_table (handle_of SyncCall) 1 7 IntentionShared 0
      (with_timeout 0))) ps"
    using reachable_enter_table [OF reachable_init] by blast
  from reachable_enter_table [OF this, of AsyncCall 2 7 IntentionExclusive 0] obtain ps'
    where r: "reachable 0 demo_tables ps'" by (auto simp: demo_tables_def)
  from demo_tables_granted obtain a b where g: "granted (table_queue demo_tables 7) = [a, b]"
      "le_txn_id a = 1" "le_txn_id b = 2" by (auto simp: map_eq_Cons_conv)
  with reachable_table_exclusive [OF r, of a 7 b] have "\<not> conflicts (le_mode a) (le_mode b)" by simp
  with r g show ?thesis by (intro exI [of _ demo_tables] exI [of _ ps'] exI [of _ a] exI [of _ b]) simp
qed

text \<open>The shape of the lock tables is an invariant: in every reachable state there are 64
  record and 16 table shards, each page and table is stored once and in the shard its id
  selects, granted record locks carry a slot bitmap of at most 1024 words, a waiting record
  request names exactly one slot, and table locks carry no bitmap.\<close>

lemma reachable_shards_wf:
  assumes "reachable timeout m ps"
  shows "length (record_shards m) = 64 \<and> length (table_shards m) = 16 \<and>
    (\<forall>i < 64. distinct (map fst (record_shards m ! i)) \<and>
       (\<forall>(page, q) \<in> set (record_shards m ! i). unat page mod 64 = i \<and>
          (\<forall>e \<in> set (granted q). \<exists>bm. le_bitmap e = Some bm \<and> length (sb_words bm) \<le> 1024) \<and>
          (\<forall>w \<in> set (waiting q). \<exists>s. le_bitmap (lw_entry w) = Some (bm_with_slot s)))) \<and>
    (\<forall>i < 16. distinct (map fst (table_shards m ! i)) \<and>
       (\<forall>(table, q) \<in> set (table_shards m ! i). unat table mod 16 = i \<and>
          (\<forall>e \<in> set (granted q) \<union> lw_entry ` set (waiting q). le_bitmap e = None)))"
  using reachable_manager_wf [OF assms]
  by (auto simp: manager_wf_def shards_inv_def shard_inv_def record_shard_idx_def table_shard_idx_def
      RECORD_SHARDS_def TABLE_SHARDS_def record_queue_wf_def table_queue_wf_def bm_wf_def)
    fastforce+

subsection \<open>Record locks\<close>

text \<open>\<open>try_acquire_record_lock_sync\<close> (the SKIP LOCKED path) is safe on every branch: it never
  enqueues, on success the transaction holds the slot in the requested mode and the granted
  locks of the page are still free of conflicts, on refusal no queue changes, and other pages
  are never touched.\<close>

lemma try_acquire_record_lock_sync_safe:
  assumes "manager_wf m" "queue_compatible (record_queue m page)"
    "try_acquire_record_lock_sync txn page slot mode now m = (m', ok)"
  shows "queue_compatible (record_queue m' page) \<and>
    (\<forall>p. waiting (record_queue m' p) = waiting (record_queue m p)) \<and>
    (\<forall>p. p \<noteq> page \<or> \<not> ok \<longrightarrow> record_queue m' p = record_queue m p) \<and>
    (ok \<longrightarrow> holds_record m' txn page slot mode)"
proof (cases "find_conflict (record_queue m page) txn mode (Some slot) \<noteq> None \<or>
    waiting (record_queue m page) \<noteq> []")
  case True
  with assms show ?thesis by (auto simp: try_acquire_record_lock_sync_def Let_def)
next
  case False
  let ?q = "record_queue m page"
  have q: "record_queue_wf ?q" by (rule manager_wf_queue [OF assms(1)])
  show ?thesis
  proof (cases "find_granted_idx ?q txn mode")
    case None
    with False assms show ?thesis
      by (auto simp: try_acquire_record_lock_sync_def Let_def holds_record_def intro!: compatible_snoc)
  next
    case (Some i)
    from False compatible_extend [OF assms(2) Some] have "queue_compatible (extend_granted ?q i slot)"
      by simp
    with False Some assms extend_granted_holds [OF q Some, of slot] show ?thesis
      by (auto simp: try_acquire_record_lock_sync_def Let_def holds_record_def)
        (simp add: extend_granted_def)
  qed
qed

lemma new_record_queue [simp]: "record_queue (with_timeout t) page = queue_new"
  using records.idx_bound [of page]
  by (simp add: record_queue_def record_shard_def with_timeout_def entry_or_default_def)

lemma new_queue_compatible [simp]: "queue_compatible queue_new"
  by (simp add: queue_compatible_def queue_new_def)

text \<open>The blocking record-lock request keeps the granted locks of a page free of conflicts,
  provided a transaction that already has a lock of the same mode on the page is not blocked on
  the new slot, and a request for an exclusive lock does not come from a holder of a shared lock
  on the page. A request that is granted at once then holds its slot; one that must wait is put
  at the end of the queue under a fresh handle.\<close>

lemma enter_record_safe:
  assumes "manager_wf m" "queue_compatible (record_queue m (rq_page r))"
    "find_granted_idx (record_queue m (rq_page r)) (rq_txn r) (rq_mode r) \<noteq> None \<Longrightarrow>
       find_conflict (record_queue m (rq_page r)) (rq_txn r) (rq_mode r) (Some (rq_slot r)) = None"
    "rq_mode r = Exclusive \<Longrightarrow> find_granted_idx (record_queue m (rq_page r)) (rq_txn r) Shared = None"
    "enter_record handle r now m = (m', out)"
  shows "queue_compatible (record_queue m' (rq_page r)) \<and>
    (out = None \<longrightarrow> holds_record m' (rq_txn r) (rq_page r) (rq_slot r) (rq_mode r)) \<and>
    (\<forall>sig b. out = Some (sig, b) \<longrightarrow> sig = handle (next_signal m) \<and> next_signal m' = next_signal m + 1 \<and>
       (\<exists>w. waiting (record_queue m' (rq_page r)) = waiting (record_queue m (rq_page r)) @ [w] \<and>
          lw_signal w = sig \<and> le_txn_id (lw_entry w) = rq_txn r))"
proof -
  let ?q = "record_queue m (rq_page r)"
  have q: "record_queue_wf ?q" by (rule manager_wf_queue [OF assms(1)])
  show ?thesis
  proof (cases "find_granted_idx ?q (rq_txn r) (rq_mode r)")
    case (Some i)
    with assms(3) have "find_conflict ?q (rq_txn r) (rq_mode r) (Some (rq_slot r)) = None" by simp
    with Some assms(1,5) compatible_extend [OF assms(2) Some]
      extend_granted_holds [OF q Some, of "rq_slot r"] show ?thesis
      by (auto simp: enter_record_def record_enqueue_def holds_record_def Let_def)
  next
    case None
    with assms(4) have e: "record_enqueue r now s ?q = grant_or_enqueue r now s ?q" for s
      by (auto simp: record_enqueue_def split: option.split)
    let ?s = "handle (next_signal m)"
    obtain q' b where b: "grant_or_enqueue r now ?s ?q = (q', b)" by fastforce
    have c: "queue_compatible q'" using grant_or_enqueue_compatible [OF assms(2), of r now ?s] b by simp
    show ?thesis
    proof (cases b)
      case None
      with b c assms(1,5) grant_or_enqueue_granted [of r now ?s ?q] show ?thesis
        by (auto simp: enter_record_def e Let_def holds_record_def request_entry_def intro!: bexI)
    next
      case (Some t)
      with b c assms(1,5) show ?thesis
        by (auto simp: enter_record_def e Let_def)
          (auto simp: grant_or_enqueue_def Let_def request_entry_def split: if_splits)
    qed
  qed
qed

definition demo_request :: "txn_id \<Rightarrow> page_id \<Rightarrow> u16 \<Rightarrow> lock_mode \<Rightarrow> record_request" where
  "demo_request txn page slot mode =
     \<lparr>rq_txn = txn, rq_page = page, rq_slot = slot, rq_mode = mode, rq_flags = flag_none\<rparr>"

subsection \<open>Release\<close>

lemma release_queue_new: "release_queue txn queue_new = (queue_new, [])"
  by (simp add: release_queue_def remove_granted_by_txn_def queue_new_def)

lemma map_of_release_shard:
  assumes "distinct (map fst sh)"
  shows "entry_or_default (fst (release_shard txn sh)) k = fst (release_queue txn (entry_or_default sh k))"
  using assms
proof (induction sh)
  case Nil
  show ?case by (simp add: release_shard_def entry_or_default_def release_queue_new)
next
  case (Cons kq sh)
  obtain k' q where kq: "kq = (k', q)" by fastforce
  have fresh: "map_of (fst (release_shard txn sh)) k' = None" if "map_of sh k' = None"
    using that by (auto simp: release_shard_def map_of_eq_None_iff image_iff)
  have *: "fst (release_shard txn (kq # sh)) =
      (if queue_is_empty (fst (release_queue txn q)) then fst (release_shard txn sh)
       else (k', fst (release_queue txn q)) # fst (release_shard txn sh))"
    by (simp add: release_shard_def kq)
  have "map_of sh k' = None" using Cons.prems by (simp add: kq map_of_eq_None_iff)
  with Cons * fresh show ?case
    by (auto simp: kq entry_or_default_def queue_is_empty_iff split: option.splits)
qed

lemma notify_all_sel [simp]:
  "record_shards (fold notify_one sigs m) = record_shards m"
  "table_shards (fold notify_one sigs m) = table_shards m"
  by (induction sigs arbitrary: m) (simp_all add: notify_one_def)

lemma release_all_queues:
  assumes "manager_wf m"
  shows "record_queue (fst (release_all_for_txn txn m)) page = fst (release_queue txn (record_queue m page))"
    "table_queue (fst (release_all_for_txn txn m)) table = fst (release_queue txn (table_queue m table))"
proof -
  have d: "distinct (map fst (record_shard m page))" "distinct (map fst (table_shard m table))"
    using manager_wf_shard [OF assms] by (auto simp: shard_inv_def)
  have i: "record_shard_idx page < length (record_shards m)" "table_shard_idx table < length (table_shards m)"
    using assms records.idx_bound tables.idx_bound by (auto simp: manager_wf_def shards_inv_def)
  show "record_queue (fst (release_all_for_txn txn m)) page = fst (release_queue txn (record_queue m page))"
    using map_of_release_shard [OF d(1), of txn page] i(1)
    by (simp add: record_queue_def record_shard_def release_all_for_txn_def Let_def forget_wait_def)
  show "table_queue (fst (release_all_for_txn txn m)) table = fst (release_queue txn (table_queue m table))"
    using map_of_release_shard [OF d(2), of txn table] i(2)
    by (simp add: table_queue_def table_shard_def release_all_for_txn_def Let_def forget_wait_def)
qed

lemma release_queue_gone:
  assumes "\<forall>w \<in> set (waiting q). le_txn_id (lw_entry w) \<noteq> txn" "e \<in> set (granted (fst (release_queue txn q)))"
  shows "le_txn_id e \<noteq> txn"
  using assms
  by (auto simp: release_queue_def remove_granted_by_txn_def split: if_splits
      dest!: subsetD [OF try_grant_subset(1)])

lemma release_queue_wakes:
  assumes "\<exists>e \<in> set (granted q). le_txn_id e = txn" "w \<in> set (waiting (fst (release_queue txn q)))"
  shows "\<exists>e \<in> set (granted (fst (release_queue txn q))).
    entry_blocks e (le_txn_id (lw_entry w)) (le_mode (lw_entry w)) (waiter_slot w)"
proof -
  let ?q = "fst (remove_granted_by_txn q txn)"
  obtain ps rs where scan: "grant_scan (granted ?q) (waiting ?q) = (ps, rs)" by fastforce
  have "fst (release_queue txn q) = fst (try_grant_waiters ?q)"
    using assms(1) by (auto simp: release_queue_def remove_granted_by_txn_def filter_empty_conv)
  with grant_scan_maximal [OF scan, of w] assms(2) show ?thesis
    by (simp add: try_grant_waiters_scan [OF scan])
qed

lemma notify_all_signalled [simp]: "set (signalled (fold notify_one sigs m)) = set sigs \<union> set (signalled m)"
  by (induction sigs arbitrary: m) (auto simp: notify_one_def)

lemma release_queue_promotes:
  assumes "w \<in> set (waiting q)"
  shows "w \<in> set (waiting (fst (release_queue txn q))) \<or>
    promote w \<in> set (granted (fst (release_queue txn q))) \<and> lw_signal w \<in> set (snd (release_queue txn q))"
proof -
  let ?q = "fst (remove_granted_by_txn q txn)"
  obtain ps rs where scan: "grant_scan (granted ?q) (waiting ?q) = (ps, rs)" by fastforce
  have "set (waiting ?q) = set ps \<union> set rs"
    using arg_cong [OF grant_scan_partition(1) [OF scan], of set_mset] by simp
  moreover have "waiting ?q = waiting q" by (simp add: remove_granted_by_txn_def)
  moreover have "release_queue txn q =
      (if snd (remove_granted_by_txn q txn) = [] then (?q, []) else (\<lparr>granted = granted ?q @ map promote ps, waiting = rs\<rparr>, map lw_signal ps))"
    by (simp add: release_queue_def case_prod_beta try_grant_waiters_scan [OF scan])
  ultimately show ?thesis using assms by auto
qed

lemma release_shard_signals:
  "set (snd (release_queue txn (entry_or_default sh k))) \<subseteq> set (snd (release_shard txn sh))"
proof (cases "map_of sh k")
  case None
  then show ?thesis by (simp add: entry_or_default_def release_queue_new)
next
  case (Some q)
  from map_of_SomeD [OF this] show ?thesis
    using Some by (force simp: entry_or_default_def release_shard_def)
qed

lemma release_all_signals:
  assumes "manager_wf m"
  shows "set (snd (release_queue txn (record_queue m page))) \<subseteq> set (signalled (fst (release_all_for_txn txn m)))"
    "set (snd (release_queue txn (table_queue m table))) \<subseteq> set (signalled (fst (release_all_for_txn txn m)))"
proof -
  have "record_shard_idx page < length (record_shards m)" "table_shard_idx table < length (table_shards m)"
    using assms records.idx_bound tables.idx_bound by (auto simp: manager_wf_def shards_inv_def)
  then have "record_shard m page \<in> set (record_shards m)" "table_shard m table \<in> set (table_shards m)"
    by (simp_all add: record_shard_def table_shard_def)
  then show "set (snd (release_queue txn (record_queue m page))) \<subseteq> set (signalled (fst (release_all_for_txn txn m)))"
    "set (snd (release_queue txn (table_queue m table))) \<subseteq> set (signalled (fst (release_all_for_txn txn m)))"
    using release_shard_signals [of txn "record_shard m page" page] release_shard_signals [of txn "table_shard m table" table]
    by (auto simp: record_queue_def table_queue_def release_all_for_txn_def Let_def forget_wait_def)
qed

text \<open>C20: At commit or rollback \<open>release_all_for_txn\<close> gives up everything: if the transaction is
  not itself waiting in any queue, it holds no record or table lock afterwards and has no edge
  in the wait-for map. Every waiter of every page and table either still waits or was granted
  its lock and its handle was notified, and on a page or table where the transaction held a lock
  the waiters that still wait are blocked by another holder.\<close>

theorem release_all_for_txn_releases:
  assumes "manager_wf m" "release_all_for_txn txn m = (m', n)"
    "\<forall>page. \<forall>w \<in> set (waiting (record_queue m page)). le_txn_id (lw_entry w) \<noteq> txn"
    "\<forall>table. \<forall>w \<in> set (waiting (table_queue m table)). le_txn_id (lw_entry w) \<noteq> txn"
  shows "(\<forall>page. \<forall>e \<in> set (granted (record_queue m' page)). le_txn_id e \<noteq> txn) \<and>
    (\<forall>table. \<forall>e \<in> set (granted (table_queue m' table)). le_txn_id e \<noteq> txn) \<and>
    wait_for m' txn = None \<and>
    (\<forall>page. \<forall>w \<in> set (waiting (record_queue m' page)).
       (\<exists>e \<in> set (granted (record_queue m page)). le_txn_id e = txn) \<longrightarrow>
       (\<exists>e \<in> set (granted (record_queue m' page)).
          entry_blocks e (le_txn_id (lw_entry w)) (le_mode (lw_entry w)) (waiter_slot w))) \<and>
    (\<forall>table. \<forall>w \<in> set (waiting (table_queue m' table)).
       (\<exists>e \<in> set (granted (table_queue m table)). le_txn_id e = txn) \<longrightarrow>
       (\<exists>e \<in> set (granted (table_queue m' table)).
          entry_blocks e (le_txn_id (lw_entry w)) (le_mode (lw_entry w)) (waiter_slot w))) \<and>
    (\<forall>page. \<forall>w \<in> set (waiting (record_queue m page)). w \<in> set (waiting (record_queue m' page)) \<or>
       promote w \<in> set (granted (record_queue m' page)) \<and> lw_signal w \<in> set (signalled m')) \<and>
    (\<forall>table. \<forall>w \<in> set (waiting (table_queue m table)). w \<in> set (waiting (table_queue m' table)) \<or>
       promote w \<in> set (granted (table_queue m' table)) \<and> lw_signal w \<in> set (signalled m'))"
proof -
  have m': "m' = fst (release_all_for_txn txn m)" by (simp add: assms(2))
  have edge: "wait_for m' txn = None"
    by (simp add: m' release_all_for_txn_def Let_def forget_wait_def)
  have rec: "w \<in> set (waiting (record_queue m' page)) \<or>
      promote w \<in> set (granted (record_queue m' page)) \<and> lw_signal w \<in> set (signalled m')"
    if "w \<in> set (waiting (record_queue m page))" for page w
    unfolding m' release_all_queues [OF assms(1)]
    using release_queue_promotes [OF that, of txn] release_all_signals(1) [OF assms(1), of txn page] by blast
  have tab: "w \<in> set (waiting (table_queue m' table)) \<or>
      promote w \<in> set (granted (table_queue m' table)) \<and> lw_signal w \<in> set (signalled m')"
    if "w \<in> set (waiting (table_queue m table))" for table w
    unfolding m' release_all_queues [OF assms(1)]
    using release_queue_promotes [OF that, of txn] release_all_signals(2) [OF assms(1), of txn table] by blast
  have gone: "\<forall>page. \<forall>e \<in> set (granted (record_queue m' page)). le_txn_id e \<noteq> txn"
    "\<forall>table. \<forall>e \<in> set (granted (table_queue m' table)). le_txn_id e \<noteq> txn"
    unfolding m' release_all_queues [OF assms(1)] using assms(3,4) by (auto dest: release_queue_gone)
  have stuck: "\<forall>page. \<forall>w \<in> set (waiting (record_queue m' page)).
      (\<exists>e \<in> set (granted (record_queue m page)). le_txn_id e = txn) \<longrightarrow> (\<exists>e \<in> set (granted (record_queue m' page)).
         entry_blocks e (le_txn_id (lw_entry w)) (le_mode (lw_entry w)) (waiter_slot w))"
    "\<forall>table. \<forall>w \<in> set (waiting (table_queue m' table)).
      (\<exists>e \<in> set (granted (table_queue m table)). le_txn_id e = txn) \<longrightarrow> (\<exists>e \<in> set (granted (table_queue m' table)).
         entry_blocks e (le_txn_id (lw_entry w)) (le_mode (lw_entry w)) (waiter_slot w))"
    unfolding m' release_all_queues [OF assms(1)] using release_queue_wakes by blast+
  show ?thesis by (intro conjI gone edge stuck; intro allI ballI; erule rec tab)
qed

lemma enter_record_tables: "table_shards (fst (enter_record h r now m)) = table_shards m"
  by (simp add: enter_record_def Let_def on_record_shard_def split: prod.split option.split)

lemma new_table_queue [simp]: "table_queue (with_timeout t) table = queue_new"
  using tables.idx_bound [of table]
  by (simp add: table_queue_def table_shard_def with_timeout_def entry_or_default_def)

subsection \<open>Executions that break the contract\<close>

lemma record_queue_enter:
  "manager_wf m \<Longrightarrow> record_queue (fst (enter_record h r now m)) page =
     (if page = rq_page r
      then fst (record_enqueue r now (h (next_signal m)) (record_queue m page)) else record_queue m page)"
  by (auto simp: enter_record_def Let_def split: prod.split option.split)

lemma enter_record_out:
  "snd (enter_record h r now m) =
     map_option (Pair (h (next_signal m)))
       (snd (record_enqueue r now (h (next_signal m)) (record_queue m (rq_page r))))"
  by (simp add: enter_record_def Let_def split: prod.split option.split)

lemma enter_record_next:
  "next_signal (fst (enter_record h r now m)) =
     (case snd (record_enqueue r now (h (next_signal m)) (record_queue m (rq_page r))) of
        None \<Rightarrow> next_signal m | Some _ \<Rightarrow> next_signal m + 1)"
  by (simp add: enter_record_def Let_def on_record_shard_def split: prod.split option.split)

lemma enter_record_keeps:
  "wait_for (fst (enter_record h r now m)) = wait_for m"
  "signalled (fst (enter_record h r now m)) = signalled m"
  by (simp_all add: enter_record_def Let_def on_record_shard_def split: prod.split option.split)

lemma record_queue_wait_for [simp]: "record_queue (m\<lparr>wait_for := w\<rparr>) page = record_queue m page"
  by (simp add: record_queue_def record_shard_def)

lemma record_queue_notify [simp]: "record_queue (notify_one s m) page = record_queue m page"
  by (simp add: record_queue_def record_shard_def notify_one_def)

lemma record_queue_forget [simp]: "record_queue (forget_wait t m) page = record_queue m page"
  by (simp add: forget_wait_def)

lemma record_queue_check [simp]: "record_queue (fst (check_deadlock r b now m)) page = record_queue m page"
  by (simp add: check_deadlock_def Let_def split: option.split)

lemma abort_in_new: "abort_in_queue t queue_new = (queue_new, None)"
  by (simp add: abort_in_queue_def queue_new_def)

lemma record_queue_abort:
  "manager_wf m \<Longrightarrow> record_queue (abort_waiter t (RecordRef page slot) m) page' =
     (if page' = page then fst (abort_in_queue t (record_queue m page)) else record_queue m page')"
  by (auto simp: abort_waiter_def Let_def split: option.split prod.split)
    (simp_all add: record_queue_def entry_or_default_def abort_in_new split: option.splits)

lemma record_queue_drop:
  "manager_wf m \<Longrightarrow> record_queue (drop_record_waiter t page m) page' =
     (if page' = page then fst (remove_waiter_by_txn (record_queue m page) t) else record_queue m page')"
  by (simp add: record_queue_def drop_record_waiter_def drop_waiter_def split: option.split)
    (simp add: entry_or_default_def remove_waiter_by_txn_def queue_new_def)

lemma reachable_enter_record:
  assumes "reachable t m ps"
  shows "\<exists>ps'. reachable t (fst (enter_record (handle_of k) r now m)) ps'"
proof -
  let ?p = "RecordCall k r RecStart"
  from assms have r: "reachable t m (ps @ [?p])" by (rule reachable_call) simp
  obtain m' out where out: "enter_record (handle_of k) r now m = (m', out)" by fastforce
  then have "\<exists>p'. proc_step now (m, ?p) (m', p')"
    by (cases out) (auto intro: proc_step.intros)
  then obtain p' where "proc_step now (m, (ps @ [?p]) ! length ps) (m', p')" by auto
  from reachable_step [OF r _ this] out show ?thesis by auto
qed

lemmas run_queue = record_queue_enter record_enqueue_def grant_or_enqueue_def find_granted_idx_def
  find_conflict_def extend_granted_def set_slot_def request_entry_def demo_request_def
  queue_new_def conflicts_def CONFLICT_MATRIX_def bm_overlaps_slot_def flags_difference_def
  flags_union_def flag_none_def manager_wf_new enter_record_wf enter_record_next

lemma try_grant_waiters_eval:
  "try_grant_waiters q =
     (let (ps, rs) = grant_scan (granted q) (waiting q)
      in (\<lparr>granted = granted q @ map promote ps, waiting = rs\<rparr>, map lw_signal ps))"
  by (cases "grant_scan (granted q) (waiting q)") (simp add: try_grant_waiters_scan)

text \<open>Transaction 1 holds a slot and transaction 2 waits for it.\<close>

definition demo_held :: lock_manager where
  "demo_held = fst (enter_record SyncSignal (demo_request 2 5 3 Exclusive) 0
     (fst (enter_record SyncSignal (demo_request 1 5 3 Exclusive) 0 (with_timeout 0))))"

lemma demo_held_queue:
  "record_queue demo_held page = (if page = 5 then \<lparr>granted = [rec_entry 1 Exclusive 3], waiting =
     [\<lparr>lw_entry = (rec_entry 2 Exclusive 3)\<lparr>le_flags := flag_waiting\<rparr>, lw_signal = SyncSignal 0, lw_abort_reason = None\<rparr>]\<rparr>
     else queue_new)"
  by (simp add: demo_held_def enter_record_out run_queue rec_entry_def flag_waiting_def) (simp add: with_timeout_def)?

lemma demo_held_tables: "table_queue demo_held table = queue_new"
  using new_table_queue [of 0 table]
  by (simp add: table_queue_def table_shard_def demo_held_def enter_record_tables del: new_table_queue)

theorem release_all_for_txn_releases_witness:
  "\<exists>m' n w. release_all_for_txn 1 demo_held = (m', n) \<and> waiting (record_queue demo_held 5) = [w] \<and>
     1 \<in> le_txn_id ` set (granted (record_queue demo_held 5)) \<and> 1 \<notin> le_txn_id ` set (granted (record_queue m' 5)) \<and>
     promote w \<in> set (granted (record_queue m' 5)) \<and> lw_signal w \<in> set (signalled m')"
proof -
  have wfm: "manager_wf demo_held" by (simp add: demo_held_def enter_record_wf manager_wf_new)
  obtain m' n where r: "release_all_for_txn 1 demo_held = (m', n)" by fastforce
  have none: "\<forall>page. \<forall>w \<in> set (waiting (record_queue demo_held page)). le_txn_id (lw_entry w) \<noteq> 1"
      "\<forall>table. \<forall>w \<in> set (waiting (table_queue demo_held table)). le_txn_id (lw_entry w) \<noteq> 1"
    by (simp_all add: demo_held_queue demo_held_tables queue_new_def rec_entry_def)
  define w where "w = hd (waiting (record_queue demo_held 5))"
  have w: "waiting (record_queue demo_held 5) = [w]" by (simp add: w_def demo_held_queue)
  have "waiting (record_queue m' 5) = []"
    using release_all_queues(1) [OF wfm, of 1 5] r
    by (simp add: demo_held_queue release_queue_def remove_granted_by_txn_def try_grant_waiters_eval rec_entry_def)
  moreover have "1 \<in> le_txn_id ` set (granted (record_queue demo_held 5))" by (simp add: demo_held_queue rec_entry_def)
  moreover note rel = release_all_for_txn_releases [OF wfm r none]
  have "1 \<notin> le_txn_id ` set (granted (record_queue m' 5))" using rel [THEN conjunct1] by auto
  moreover have "w \<in> set (waiting (record_queue m' 5)) \<or> promote w \<in> set (granted (record_queue m' 5)) \<and> lw_signal w \<in> set (signalled m')"
    using rel [THEN conjunct2, THEN conjunct2, THEN conjunct2, THEN conjunct2, THEN conjunct2, THEN conjunct1] w by simp
  ultimately show ?thesis using r w by simp
qed

definition overlap_run :: "nat \<Rightarrow> lock_manager" where
  "overlap_run t =
     fst (enter_record SyncSignal (demo_request 1 5 1 Exclusive) 0
       (fst (enter_record SyncSignal (demo_request 2 5 1 Exclusive) 0
         (fst (enter_record SyncSignal (demo_request 1 5 0 Exclusive) 0 (with_timeout t))))))"

text \<open>C23: Record locks are not exclusive. Transaction 1 locks slot 0 of a page exclusively,
  transaction 2 locks slot 1, and transaction 1 then asks for slot 1: because it already has an
  exclusive entry on the page, the fast path adds the slot to its bitmap without looking for
  conflicts. Both transactions now hold slot 1 exclusively, in a reachable state and without
  either of them having waited.\<close>

theorem record_fast_path_double_grant:
  "(\<exists>ps. reachable t (overlap_run t) ps) \<and>
   holds_record (overlap_run t) 1 5 1 Exclusive \<and> holds_record (overlap_run t) 2 5 1 Exclusive \<and>
   waiting (record_queue (overlap_run t) 5) = []"
proof -
  have r: "\<exists>ps. reachable t (overlap_run t) ps"
    unfolding overlap_run_def handle_of.simps(2) [symmetric]
    using reachable_enter_record reachable_init by metis
  have q: "map le_txn_id (granted (record_queue (overlap_run t) 5)) = [1, 2] \<and>
      map le_mode (granted (record_queue (overlap_run t) 5)) = [Exclusive, Exclusive] \<and>
      map le_bitmap (granted (record_queue (overlap_run t) 5)) =
        [Some (bm_set (bm_with_slot 0) 1), Some (bm_with_slot 1)] \<and>
      waiting (record_queue (overlap_run t) 5) = []"
    by (simp add: overlap_run_def run_queue)
  then have "\<exists>a b. granted (record_queue (overlap_run t) 5) = [a, b] \<and>
      le_txn_id a = 1 \<and> le_txn_id b = 2 \<and> le_mode a = Exclusive \<and> le_mode b = Exclusive \<and>
      le_bitmap a = Some (bm_set (bm_with_slot 0) 1) \<and> le_bitmap b = Some (bm_with_slot 1)"
    by (auto simp: map_eq_Cons_conv)
  with r q show ?thesis
    by (auto simp: holds_record_def bitmap.member_insert)
qed

end
