(* ===== verification/Lock_Runs.thy ===== *)
theory Lock_Runs
  imports Lock_Safety
begin

text \<open>
  Runs of the interleaved calls of the lock manager: a call that makes several steps, a system
  of calls in which one of them makes a step at a time, and the steps of whole calls: a request
  that is granted, parks, closes a cycle or is woken, and the release of everything.
\<close>

definition proc_moves :: "lock_manager \<times> proc \<Rightarrow> lock_manager \<times> proc \<Rightarrow> bool" where
  "proc_moves a b \<longleftrightarrow> (\<exists>now. proc_step now a b)"

definition sys_step :: "lock_manager \<times> proc list \<Rightarrow> lock_manager \<times> proc list \<Rightarrow> bool" where
  "sys_step a b \<longleftrightarrow> (\<exists>i p'. i < length (snd a) \<and> proc_moves (fst a, snd a ! i) (fst b, p') \<and> snd b = (snd a)[i := p'])"

abbreviation granted_at_once :: record_stage where
  "granted_at_once \<equiv> RecDone (Inr Granted)"

lemma sys_run_reachable:
  assumes "sys_step\<^sup>*\<^sup>* a b" "reachable t (fst a) (snd a)"
  shows "reachable t (fst b) (snd b)"
  using assms by (induction rule: rtranclp_induct) (auto simp: sys_step_def proc_moves_def intro: reachable_step)

text \<open>A call that runs alone for a while.\<close>

lemma sys_run_proc:
  assumes "proc_moves\<^sup>*\<^sup>* (m, p) (m', p')" "i < length ps" "ps ! i = p"
  shows "sys_step\<^sup>*\<^sup>* (m, ps) (m', ps[i := p'])"
proof -
  have "sys_step\<^sup>*\<^sup>* (m, ps) (fst b, ps[i := snd b])" if "proc_moves\<^sup>*\<^sup>* (m, p) b" for b
    using that
  proof (induction rule: rtranclp_induct)
    case base
    then show ?case using assms(3) by auto
  next
    case (step b c)
    have "sys_step (fst b, ps[i := snd b]) (fst c, ps[i := snd c])"
      using step.hyps(2) assms(2) by (cases b; cases c) (auto simp: sys_step_def intro!: exI [of _ i])
    with step.IH show ?case by (rule rtranclp.rtrancl_into_rtrancl)
  qed
  from this [OF assms(1)] show ?thesis by simp
qed

lemma update_prefix:
  "k < length xs \<Longrightarrow> (map f (take k xs) @ drop k xs)[k := f (xs ! k)] = map f (take (Suc k) xs) @ drop (Suc k) xs"
  by (simp add: list_update_append take_Suc_conv_app_nth Cons_nth_drop_Suc [symmetric])

lemma release_all_records:
  assumes "length (record_shards m) = RECORD_SHARDS" "k \<le> RECORD_SHARDS"
  shows "proc_moves\<^sup>*\<^sup>* (m, ReleaseAllCall txn 0 [] False)
    (m\<lparr>record_shards := map (\<lambda>sh. fst (release_shard txn sh)) (take k (record_shards m)) @ drop k (record_shards m)\<rparr>,
     ReleaseAllCall txn k (concat (map (\<lambda>sh. snd (release_shard txn sh)) (take k (record_shards m)))) False)"
  using assms(2)
proof (induction k)
  case (Suc k)
  let ?f = "\<lambda>sh. fst (release_shard txn sh)" and ?xs = "record_shards m"
  let ?m = "m\<lparr>record_shards := map ?f (take k ?xs) @ drop k ?xs\<rparr>"
  have k: "k < length ?xs" using Suc.prems assms(1) by simp
  have "release_shard txn (record_shards ?m ! k) = (?f (?xs ! k), snd (release_shard txn (?xs ! k)))"
    using k by (simp add: nth_append)
  from proc_step.all_record [OF _ this] Suc.prems update_prefix [OF k, of ?f]
  have "proc_moves (?m, ReleaseAllCall txn k (concat (map (\<lambda>sh. snd (release_shard txn sh)) (take k ?xs))) False)
    (m\<lparr>record_shards := map ?f (take (Suc k) ?xs) @ drop (Suc k) ?xs\<rparr>,
     ReleaseAllCall txn (Suc k) (concat (map (\<lambda>sh. snd (release_shard txn sh)) (take (Suc k) ?xs))) False)"
    using k by (auto simp: proc_moves_def take_Suc_conv_app_nth)
  with Suc show ?case by (meson Suc_leD rtranclp.rtrancl_into_rtrancl)
qed simp

lemma release_all_tables:
  assumes "length (table_shards m) = TABLE_SHARDS" "k \<le> TABLE_SHARDS"
  shows "proc_moves\<^sup>*\<^sup>* (m, ReleaseAllCall txn RECORD_SHARDS sigs False)
    (m\<lparr>table_shards := map (\<lambda>sh. fst (release_shard txn sh)) (take k (table_shards m)) @ drop k (table_shards m)\<rparr>,
     ReleaseAllCall txn (RECORD_SHARDS + k) (sigs @ concat (map (\<lambda>sh. snd (release_shard txn sh)) (take k (table_shards m)))) False)"
  using assms(2)
proof (induction k)
  case (Suc k)
  let ?f = "\<lambda>sh. fst (release_shard txn sh)" and ?xs = "table_shards m" and ?i = "RECORD_SHARDS + k"
  let ?m = "m\<lparr>table_shards := map ?f (take k ?xs) @ drop k ?xs\<rparr>"
  have k: "k < length ?xs" using Suc.prems assms(1) by simp
  have "release_shard txn (table_shards ?m ! (?i - RECORD_SHARDS)) = (?f (?xs ! k), snd (release_shard txn (?xs ! k)))"
    using k by (simp add: nth_append)
  from proc_step.all_table [OF _ _ this, where now = 0 and sigs = "sigs @ concat (map (\<lambda>sh. snd (release_shard txn sh)) (take k ?xs))"] Suc.prems update_prefix [OF k, of ?f]
  have "proc_moves (?m, ReleaseAllCall txn ?i (sigs @ concat (map (\<lambda>sh. snd (release_shard txn sh)) (take k ?xs))) False)
    (m\<lparr>table_shards := map ?f (take (Suc k) ?xs) @ drop (Suc k) ?xs\<rparr>,
     ReleaseAllCall txn (RECORD_SHARDS + Suc k) (sigs @ concat (map (\<lambda>sh. snd (release_shard txn sh)) (take (Suc k) ?xs))) False)"
    using k by (auto simp: proc_moves_def take_Suc_conv_app_nth)
  with Suc show ?case by (meson Suc_leD rtranclp.rtrancl_into_rtrancl)
qed simp

lemma release_all_notify:
  assumes "i = RECORD_SHARDS + TABLE_SHARDS"
  shows "proc_moves\<^sup>*\<^sup>* (m, ReleaseAllCall txn i sigs False) (forget_wait txn (fold notify_one sigs m), ReleaseAllCall txn i [] True)"
proof (induction sigs arbitrary: m)
  case Nil
  show ?case by (rule r_into_rtranclp, simp add: proc_moves_def) (blast intro: proc_step.all_forget assms)
next
  case (Cons s sigs)
  have "proc_moves (m, ReleaseAllCall txn i (s # sigs) False) (notify_one s m, ReleaseAllCall txn i sigs False)"
    unfolding proc_moves_def by (blast intro: proc_step.all_notify assms)
  with Cons.IH [of "notify_one s m"] show ?case by (simp add: converse_rtranclp_into_rtranclp)
qed

lemma release_all_run:
  assumes "manager_wf m"
  shows "proc_moves\<^sup>*\<^sup>* (m, ReleaseAllCall txn 0 [] False)
    (fst (release_all_for_txn txn m), ReleaseAllCall txn (RECORD_SHARDS + TABLE_SHARDS) [] True)"
proof -
  have len: "length (record_shards m) = RECORD_SHARDS" "length (table_shards m) = TABLE_SHARDS"
    using assms by (auto simp: manager_wf_def shards_inv_def)
  let ?f = "\<lambda>sh. fst (release_shard txn sh)" and ?g = "\<lambda>sh. snd (release_shard txn sh)"
  let ?m1 = "m\<lparr>record_shards := map ?f (record_shards m)\<rparr>" and ?s1 = "concat (map ?g (record_shards m))"
  let ?m2 = "?m1\<lparr>table_shards := map (\<lambda>sh. fst (release_shard txn sh)) (table_shards m)\<rparr>"
  let ?s2 = "?s1 @ concat (map (\<lambda>sh. snd (release_shard txn sh)) (table_shards m))"
  have "proc_moves\<^sup>*\<^sup>* (m, ReleaseAllCall txn 0 [] False) (?m1, ReleaseAllCall txn RECORD_SHARDS ?s1 False)"
    using release_all_records [OF len(1) order.refl, of txn] len(1) by simp
  also have "proc_moves\<^sup>*\<^sup>* \<dots> (?m2, ReleaseAllCall txn (RECORD_SHARDS + TABLE_SHARDS) ?s2 False)"
    using release_all_tables [of ?m1, OF _ order.refl, of txn ?s1] len(2) by simp
  also have "proc_moves\<^sup>*\<^sup>* \<dots> (forget_wait txn (fold notify_one ?s2 ?m2), ReleaseAllCall txn (RECORD_SHARDS + TABLE_SHARDS) [] True)"
    by (rule release_all_notify [OF refl])
  finally show ?thesis by (simp add: release_all_for_txn_def Let_def)
qed

inductive_cases release_all_steps: "proc_step now (m, ReleaseAllCall txn i sigs fin) b"

lemma release_all_det:
  assumes "proc_moves (m, ReleaseAllCall txn i sigs fin) b" "proc_moves (m, ReleaseAllCall txn i sigs fin) c"
  shows "b = c"
  using assms unfolding proc_moves_def by (auto elim!: release_all_steps)

lemma release_all_moves:
  assumes "proc_moves\<^sup>*\<^sup>* (m, ReleaseAllCall txn i sigs fin) b"
  shows "\<exists>m' i' sigs' fin'. b = (m', ReleaseAllCall txn i' sigs' fin')"
  using assms by (induction rule: rtranclp_induct) (auto simp: proc_moves_def elim!: release_all_steps)

lemma release_all_stuck: "\<not> proc_moves (m, ReleaseAllCall txn i sigs True) b"
  by (auto simp: proc_moves_def elim: release_all_steps)

text \<open>The runs of a release to its end lead to one state.\<close>

lemma release_all_unique:
  assumes "proc_moves\<^sup>*\<^sup>* a b" "proc_moves\<^sup>*\<^sup>* a c" "snd a = ReleaseAllCall txn i sigs fin"
    "snd b = ReleaseAllCall txn j bs True" "snd c = ReleaseAllCall txn k cs True"
  shows "b = c"
  using assms
proof (induction arbitrary: i sigs fin rule: converse_rtranclp_induct)
  case base
  have "\<not> proc_moves b x" for x using base.prems(3) by (cases b) (simp add: release_all_stuck)
  with base.prems(1) show ?case by (auto elim: converse_rtranclpE)
next
  case (step a a')
  have "a \<noteq> c" using step.hyps(1) step.prems(4) by (cases c) (auto simp: release_all_stuck)
  with step.prems(1) obtain c' where c': "proc_moves a c'" "proc_moves\<^sup>*\<^sup>* c' c" by (auto elim: converse_rtranclpE)
  obtain m0 where a: "a = (m0, ReleaseAllCall txn i sigs fin)" using step.prems(2) by (cases a) simp
  have "c' = a'" by (rule release_all_det [OF c'(1) [unfolded a] step.hyps(1) [unfolded a]])
  moreover obtain m' i' sigs' fin' where "a' = (m', ReleaseAllCall txn i' sigs' fin')"
    using release_all_moves [OF r_into_rtranclp [of proc_moves, OF step.hyps(1) [unfolded a]]] by blast
  ultimately show ?case using step.IH c'(2) step.prems(3,4) by auto
qed



lemma record_queue_found:
  "record_queue m page \<noteq> queue_new \<Longrightarrow> map_of (record_shard m page) page = Some (record_queue m page)"
  by (auto simp: record_queue_def entry_or_default_def split: option.splits)

lemma grant_moves:
  "snd (enter_record SyncSignal r now m) = None \<Longrightarrow>
   proc_moves (m, RecordCall SyncCall r RecStart) (fst (enter_record SyncSignal r now m), RecordCall SyncCall r granted_at_once)"
  unfolding proc_moves_def by (intro exI [of _ now] proc_step.rec_grant) (simp add: prod_eq_iff)

lemma queue_moves:
  "snd (enter_record SyncSignal r now m) = Some (sig, b) \<Longrightarrow>
   proc_moves (m, RecordCall SyncCall r RecStart) (fst (enter_record SyncSignal r now m), RecordCall SyncCall r (RecQueued sig b))"
  unfolding proc_moves_def by (intro exI [of _ now] proc_step.rec_enqueue) (simp add: prod_eq_iff)

lemma park_moves:
  assumes "snd (enter_record SyncSignal r now m) = Some (sig, b)" "\<not> flags_contains (rq_flags r) flag_nowait"
    "check_deadlock r b now (fst (enter_record SyncSignal r now m)) = (m', None)"
  shows "proc_moves\<^sup>*\<^sup>* (m, RecordCall SyncCall r RecStart) (m', RecordCall SyncCall r (RecParked sig))"
proof -
  note queue_moves [OF assms(1)]
  moreover have "proc_moves (fst (enter_record SyncSignal r now m), RecordCall SyncCall r (RecQueued sig b)) (m', RecordCall SyncCall r (RecParked sig))"
    unfolding proc_moves_def using assms(2,3) by (intro exI [of _ now] proc_step.rec_no_deadlock) simp_all
  ultimately show ?thesis by simp
qed

lemma deadlock_moves:
  assumes "snd (enter_record SyncSignal r now m) = Some (sig, b)" "\<not> flags_contains (rq_flags r) flag_nowait"
    "check_deadlock r b now (fst (enter_record SyncSignal r now m)) = (m', Some (victim, Some ref))" "victim \<noteq> rq_txn r"
  shows "proc_moves\<^sup>*\<^sup>* (m, RecordCall SyncCall r RecStart) (abort_waiter victim ref m', RecordCall SyncCall r (RecParked sig))"
proof -
  note queue_moves [OF assms(1)]
  moreover have "proc_moves (fst (enter_record SyncSignal r now m), RecordCall SyncCall r (RecQueued sig b))
      (m', RecordCall SyncCall r (RecAborting sig victim (Some ref)))"
    unfolding proc_moves_def using assms(2,3) by (intro exI [of _ now] proc_step.rec_deadlock) simp_all
  moreover have "proc_moves (m', RecordCall SyncCall r (RecAborting sig victim (Some ref)))
      (abort_waiter victim ref m', RecordCall SyncCall r (RecParked sig))"
    unfolding proc_moves_def using assms(4) by (intro exI proc_step.rec_abort) simp_all
  ultimately show ?thesis by (simp add: converse_rtranclp_into_rtranclp)
qed

lemma wake_moves:
  assumes "sig \<in> set (signalled m)" "wake_result (rq_txn r) (rq_page r) (rq_mode r) m = res"
  shows "proc_moves\<^sup>*\<^sup>* (m, RecordCall k r (RecParked sig)) (forget_wait (rq_txn r) m, RecordCall k r (RecDone res))"
proof -
  have "proc_moves (m, RecordCall k r (RecParked sig)) (m, RecordCall k r (RecLeaving res))"
    unfolding proc_moves_def assms(2) [symmetric] using assms(1) by (intro exI proc_step.rec_wake)
  moreover have "proc_moves (m, RecordCall k r (RecLeaving res)) (forget_wait (rq_txn r) m, RecordCall k r (RecDone res))"
    unfolding proc_moves_def by (intro exI proc_step.rec_leave)
  ultimately show ?thesis by simp
qed

lemma demo_request_waits: "\<not> flags_contains (rq_flags (demo_request txn page slot mode)) flag_nowait"
  by (simp add: demo_request_def flags_contains_def flag_none_def flag_nowait_def)

lemma demo_request_sel: "rq_txn (demo_request txn page slot mode) = txn" "rq_page (demo_request txn page slot mode) = page"
  "rq_mode (demo_request txn page slot mode) = mode"
  by (simp_all add: demo_request_def)

end
