(* ===== verification/Lock_Hazards.thy ===== *)
theory Lock_Hazards
  imports Lock_Runs
begin

text \<open>
  Runs of the interleaved calls that reach states the lock manager should exclude: one in which
  the request of a deadlock victim outlives it, and one in which a waiter that nothing blocks
  stays asleep.
\<close>

subsection \<open>The victim of a deadlock\<close>

text \<open>
  A deadlock whose victim is not the requester. Transactions 1 and 2 hold slot 0 of pages 0 and
  1; transaction 2 asks for page 0 and waits, then transaction 1 asks for page 1.
\<close>

definition victim_run_held :: "nat \<Rightarrow> lock_manager" where
  "victim_run_held t =
     fst (enter_record SyncSignal (demo_request 2 1 0 Exclusive) 0
       (fst (enter_record SyncSignal (demo_request 1 0 0 Exclusive) 0 (with_timeout t))))"

definition victim_run_waits :: "nat \<Rightarrow> lock_manager" where
  "victim_run_waits t =
     fst (enter_record SyncSignal (demo_request 1 1 0 Exclusive) 0
       (fst (check_deadlock (demo_request 2 0 0 Exclusive) 1 0
         (fst (enter_record SyncSignal (demo_request 2 0 0 Exclusive) 0 (victim_run_held t))))))"

definition victim_run_aborted :: "nat \<Rightarrow> lock_manager" where
  "victim_run_aborted t =
     abort_waiter 2 (RecordRef 0 0) (fst (check_deadlock (demo_request 1 1 0 Exclusive) 2 0 (victim_run_waits t)))"

definition victim_run_rolled_back :: "nat \<Rightarrow> lock_manager" where
  "victim_run_rolled_back t = fst (release_all_for_txn 2 (forget_wait 2 (victim_run_aborted t)))"

definition victim_run_end :: "nat \<Rightarrow> lock_manager" where
  "victim_run_end t = fst (release_all_for_txn 1 (forget_wait 1 (victim_run_rolled_back t)))"

text \<open>The four calls, each at the point it has reached.\<close>

definition victim_calls :: "record_stage \<Rightarrow> record_stage \<Rightarrow> record_stage \<Rightarrow> record_stage \<Rightarrow> proc list" where
  "victim_calls a b c d =
     [RecordCall SyncCall (demo_request 1 0 0 Exclusive) a, RecordCall SyncCall (demo_request 2 1 0 Exclusive) b,
      RecordCall SyncCall (demo_request 2 0 0 Exclusive) c, RecordCall SyncCall (demo_request 1 1 0 Exclusive) d]"

abbreviation victim_told :: "record_stage \<Rightarrow> proc list" where
  "victim_told d \<equiv> victim_calls granted_at_once granted_at_once (RecDone (Inl DeadlockDetected)) d"

lemma victim_run_held_eval:
  "manager_wf (victim_run_held t)" "next_signal (victim_run_held t) = 0"
  "wait_for (victim_run_held t) = Map.empty"
  "record_queue (victim_run_held t) 0 = \<lparr>granted = [rec_entry 1 Exclusive 0], waiting = []\<rparr>"
  "record_queue (victim_run_held t) 1 = \<lparr>granted = [rec_entry 2 Exclusive 0], waiting = []\<rparr>"
  by (simp_all add: victim_run_held_def run_queue enter_record_keeps rec_entry_def)
    (simp_all add: with_timeout_def)

definition waiting_entry :: "txn_id \<Rightarrow> nat \<Rightarrow> wait_abort_reason option \<Rightarrow> lock_waiter" where
  "waiting_entry txn n reason =
     \<lparr>lw_entry = (rec_entry txn Exclusive 0)\<lparr>le_flags := flag_waiting\<rparr>,
      lw_signal = SyncSignal n, lw_abort_reason = reason\<rparr>"

definition record_edge :: "txn_id \<Rightarrow> page_id \<Rightarrow> wait_edge" where
  "record_edge blocker page =
     \<lparr>we_blocking_txn = blocker, we_lock_ref = RecordRef page 0, we_wait_started = 0, we_undo_count = 0\<rparr>"

lemma detect_single: "detect_cycle 2 [2 \<mapsto> record_edge 1 0] = None"
  by (simp add: detect_cycle_def brent_loop_unfold record_edge_def)

lemma detect_pair:
  "detect_cycle 1 [2 \<mapsto> record_edge 1 0, 1 \<mapsto> record_edge 2 1] = Some [2, 1]"
proof -
  let ?w = "[2 \<mapsto> record_edge 1 0, 1 \<mapsto> record_edge 2 1]"
  have "brent_loop (2 ^ 21) 1 ?w 1 1 1 0 = Meeting 2"
    by (simp add: record_edge_def brent_loop_unfold)
  moreover have "collect_cycle ?w 2 2 [] = Some [2, 1]"
    by (simp add: record_edge_def collect_cycle.simps)
  ultimately show ?thesis by (simp add: detect_cycle_def)
qed

lemma check_first_wait:
  assumes "wait_for m = Map.empty"
  shows "check_deadlock (demo_request 2 0 0 Exclusive) 1 0 m = (m\<lparr>wait_for := [2 \<mapsto> record_edge 1 0]\<rparr>, None)"
  using detect_single
  by (simp add: check_deadlock_def demo_request_def record_edge_def assms Let_def)

lemma check_second_wait:
  assumes "wait_for m = [2 \<mapsto> record_edge 1 0]"
  shows "check_deadlock (demo_request 1 1 0 Exclusive) 2 0 m =
    (m\<lparr>wait_for := [1 \<mapsto> record_edge 2 1]\<rparr>, Some (2, Some (RecordRef 0 0)))"
proof -
  let ?w = "[2 \<mapsto> record_edge 1 0, 1 \<mapsto> record_edge 2 1] :: wait_for_map"
  have "select_victim 0 [2, 1] ?w = Some 2"
    by (simp add: select_victim_def victim_score_def record_edge_def saturating_add_def
        saturating_mul_def)
  moreover have "?w(2 := None) = [1 \<mapsto> record_edge 2 1]" by (rule ext) simp
  ultimately show ?thesis
    using detect_pair by (simp add: check_deadlock_def demo_request_def record_edge_def assms Let_def)
qed

lemma enqueue_behind:
  assumes "manager_wf m" "record_queue m page = \<lparr>granted = [rec_entry a Exclusive 0], waiting = []\<rparr>" "a \<noteq> b"
  shows "snd (enter_record SyncSignal (demo_request b page 0 Exclusive) 0 m) =
      Some (SyncSignal (next_signal m), a)"
    "record_queue (fst (enter_record SyncSignal (demo_request b page 0 Exclusive) 0 m)) p =
      (if p = page then \<lparr>granted = [rec_entry a Exclusive 0],
         waiting = [waiting_entry b (next_signal m) None]\<rparr> else record_queue m p)"
    "next_signal (fst (enter_record SyncSignal (demo_request b page 0 Exclusive) 0 m)) = next_signal m + 1"
  using assms
  by (simp_all add: enter_record_out run_queue rec_entry_def waiting_entry_def flag_waiting_def)

lemma victim_run_waits_eval:
  "manager_wf (victim_run_waits t)"
  "record_queue (victim_run_waits t) 0 =
     \<lparr>granted = [rec_entry 1 Exclusive 0], waiting = [waiting_entry 2 0 None]\<rparr>"
  "record_queue (victim_run_waits t) 1 =
     \<lparr>granted = [rec_entry 2 Exclusive 0], waiting = [waiting_entry 1 1 None]\<rparr>"
  "wait_for (victim_run_waits t) = [2 \<mapsto> record_edge 1 0]"
proof -
  let ?b = "fst (enter_record SyncSignal (demo_request 2 0 0 Exclusive) 0 (victim_run_held t))"
  let ?c = "?b\<lparr>wait_for := [2 \<mapsto> record_edge 1 0]\<rparr>"
  have run: "victim_run_waits t = fst (enter_record SyncSignal (demo_request 1 1 0 Exclusive) 0 ?c)"
    unfolding victim_run_waits_def
    by (subst check_first_wait) (simp_all add: enter_record_keeps victim_run_held_eval)
  have c: "manager_wf ?c"
    by (simp add: enter_record_wf victim_run_held_eval)
  have b: "record_queue ?b p = (if p = 0 then \<lparr>granted = [rec_entry 1 Exclusive 0],
       waiting = [waiting_entry 2 0 None]\<rparr> else record_queue (victim_run_held t) p)"
    "next_signal ?b = 1" for p
    using enqueue_behind [OF victim_run_held_eval(1) victim_run_held_eval(4), of 2]
    by (simp_all add: victim_run_held_eval)
  have c1: "record_queue ?c 1 = \<lparr>granted = [rec_entry 2 Exclusive 0], waiting = []\<rparr>"
    by (simp add: b victim_run_held_eval)
  show "manager_wf (victim_run_waits t)" "wait_for (victim_run_waits t) = [2 \<mapsto> record_edge 1 0]"
    unfolding run using c by (simp_all add: enter_record_wf enter_record_keeps)
  show "record_queue (victim_run_waits t) 0 =
      \<lparr>granted = [rec_entry 1 Exclusive 0], waiting = [waiting_entry 2 0 None]\<rparr>"
    "record_queue (victim_run_waits t) 1 =
      \<lparr>granted = [rec_entry 2 Exclusive 0], waiting = [waiting_entry 1 1 None]\<rparr>"
    unfolding run by (simp_all add: enqueue_behind [OF c c1] b)
qed

lemma victim_run_aborted_eval:
  "manager_wf (victim_run_aborted t)"
  "record_queue (victim_run_aborted t) 0 =
     \<lparr>granted = [rec_entry 1 Exclusive 0], waiting = [waiting_entry 2 0 (Some Deadlock)]\<rparr>"
  "record_queue (victim_run_aborted t) 1 =
     \<lparr>granted = [rec_entry 2 Exclusive 0], waiting = [waiting_entry 1 1 None]\<rparr>"
  by (simp_all add: victim_run_aborted_def abort_waiter_wf check_deadlock_wf record_queue_abort
      victim_run_waits_eval abort_in_queue_def waiting_entry_def rec_entry_def)

lemma release_all_wf: "manager_wf m \<Longrightarrow> manager_wf (fst (release_all_for_txn txn m))"
  by (auto simp: release_all_for_txn_def Let_def manager_wf_def shards_inv_def forget_wait_def
      intro!: records.shard_ok_release tables.shard_ok_release record_wf_release table_wf_release)

lemma victim_run_start:
  "sys_step\<^sup>*\<^sup>* (with_timeout t, victim_calls RecStart RecStart RecStart RecStart)
     (victim_run_held t, victim_calls granted_at_once granted_at_once RecStart RecStart)"
proof -
  let ?m = "fst (enter_record SyncSignal (demo_request 1 0 0 Exclusive) 0 (with_timeout t))"
  have "snd (enter_record SyncSignal (demo_request 1 0 0 Exclusive) 0 (with_timeout t)) = None"
    "snd (enter_record SyncSignal (demo_request 2 1 0 Exclusive) 0 ?m) = None"
    by (simp_all add: enter_record_out run_queue)
  note g = this [THEN grant_moves, THEN r_into_rtranclp [of proc_moves]]
  have "sys_step\<^sup>*\<^sup>* (with_timeout t, victim_calls RecStart RecStart RecStart RecStart)
      (?m, victim_calls granted_at_once RecStart RecStart RecStart)"
    using sys_run_proc [OF g(1), of 0 "victim_calls RecStart RecStart RecStart RecStart"] by (simp add: victim_calls_def)
  also have "sys_step\<^sup>*\<^sup>* \<dots> (victim_run_held t, victim_calls granted_at_once granted_at_once RecStart RecStart)"
    using sys_run_proc [OF g(2), of 1 "victim_calls granted_at_once RecStart RecStart RecStart"]
    by (simp add: victim_calls_def victim_run_held_def)
  finally show ?thesis .
qed

lemma victim_run_park:
  "sys_step\<^sup>*\<^sup>* (victim_run_held t, victim_calls granted_at_once granted_at_once RecStart RecStart)
     (victim_run_aborted t, victim_calls granted_at_once granted_at_once (RecParked (SyncSignal 0)) (RecParked (SyncSignal 1)))"
proof -
  let ?rc = "demo_request 2 0 0 Exclusive" and ?rd = "demo_request 1 1 0 Exclusive"
  let ?b = "fst (enter_record SyncSignal ?rc 0 (victim_run_held t))"
  let ?c = "?b\<lparr>wait_for := [2 \<mapsto> record_edge 1 0]\<rparr>"
  note q = enqueue_behind [OF victim_run_held_eval(1,4), of 2]
  have chk: "check_deadlock ?rc 1 0 ?b = (?c, None)"
    by (rule check_first_wait) (simp add: enter_record_keeps victim_run_held_eval)
  have "snd (enter_record SyncSignal ?rc 0 (victim_run_held t)) = Some (SyncSignal 0, 1)"
    using q(1) by (simp add: victim_run_held_eval)
  note c = park_moves [OF this demo_request_waits chk]
  have run: "victim_run_waits t = fst (enter_record SyncSignal ?rd 0 ?c)" by (simp add: victim_run_waits_def chk)
  have "manager_wf ?c" by (simp add: enter_record_wf victim_run_held_eval)
  moreover have "record_queue ?c 1 = \<lparr>granted = [rec_entry 2 Exclusive 0], waiting = []\<rparr>" "next_signal ?c = 1"
    using q(2,3) by (simp_all add: victim_run_held_eval)
  ultimately have "snd (enter_record SyncSignal ?rd 0 ?c) = Some (SyncSignal 1, 2)"
    using enqueue_behind(1) [of ?c 1 2 1] by simp
  note d = deadlock_moves [OF this demo_request_waits check_second_wait [OF victim_run_waits_eval(4) [of t, unfolded run]]]
  have "sys_step\<^sup>*\<^sup>* (victim_run_held t, victim_calls granted_at_once granted_at_once RecStart RecStart)
      (?c, victim_calls granted_at_once granted_at_once (RecParked (SyncSignal 0)) RecStart)"
    using sys_run_proc [OF c, of 2 "victim_calls granted_at_once granted_at_once RecStart RecStart"] by (simp add: victim_calls_def)
  also have "sys_step\<^sup>*\<^sup>* \<dots>
      (victim_run_aborted t, victim_calls granted_at_once granted_at_once (RecParked (SyncSignal 0)) (RecParked (SyncSignal 1)))"
    using sys_run_proc [OF d, of 3 "victim_calls granted_at_once granted_at_once (RecParked (SyncSignal 0)) RecStart"]
    by (simp add: victim_calls_def demo_request_sel victim_run_aborted_def check_second_wait victim_run_waits_eval run [symmetric])
  finally show ?thesis .
qed

lemma victim_run_wakes:
  "sys_step\<^sup>*\<^sup>* (victim_run_aborted t, victim_calls granted_at_once granted_at_once (RecParked (SyncSignal 0)) d)
     (forget_wait 2 (victim_run_aborted t), victim_calls granted_at_once granted_at_once (RecDone (Inl DeadlockDetected)) d)"
proof -
  let ?m = "fst (check_deadlock (demo_request 1 1 0 Exclusive) 2 0 (victim_run_waits t))"
  have "map_of (record_shard ?m 0) 0 = Some (record_queue ?m 0)"
    by (rule record_queue_found) (simp add: victim_run_waits_eval queue_new_def)
  then have "SyncSignal 0 \<in> set (signalled (victim_run_aborted t))"
    by (simp add: victim_run_aborted_def abort_waiter_def victim_run_waits_eval abort_in_queue_def waiting_entry_def rec_entry_def notify_one_def Let_def)
  moreover have "map_of (record_shard (victim_run_aborted t) 0) 0 = Some (record_queue (victim_run_aborted t) 0)"
    by (rule record_queue_found) (simp add: victim_run_aborted_eval queue_new_def)
  then have "wake_result 2 0 Exclusive (victim_run_aborted t) = Inl DeadlockDetected"
    by (simp add: wake_result_def victim_run_aborted_eval waiting_entry_def rec_entry_def)
  ultimately have "proc_moves\<^sup>*\<^sup>* (victim_run_aborted t, RecordCall SyncCall (demo_request 2 0 0 Exclusive) (RecParked (SyncSignal 0)))
     (forget_wait 2 (victim_run_aborted t), RecordCall SyncCall (demo_request 2 0 0 Exclusive) (RecDone (Inl DeadlockDetected)))"
    using wake_moves [of "SyncSignal 0" "victim_run_aborted t" "demo_request 2 0 0 Exclusive"] by (simp add: demo_request_sel)
  from sys_run_proc [OF this, of 2 "victim_calls granted_at_once granted_at_once (RecParked (SyncSignal 0)) d"]
  show ?thesis by (simp add: victim_calls_def)
qed

lemma victim_calls_reachable: "reachable t (with_timeout t) (victim_calls RecStart RecStart RecStart RecStart)"
  unfolding victim_calls_def
  using reachable_call [OF reachable_call [OF reachable_call [OF reachable_call [OF reachable_init]]]] by simp

lemmas release_eval = release_queue_def remove_granted_by_txn_def try_grant_waiters_eval rec_entry_def waiting_entry_def

lemma victim_run_rolled_back_eval:
  "manager_wf (victim_run_rolled_back t)"
  "record_queue (victim_run_rolled_back t) 0 =
     \<lparr>granted = [rec_entry 1 Exclusive 0], waiting = [waiting_entry 2 0 (Some Deadlock)]\<rparr>"
  "record_queue (victim_run_rolled_back t) 1 = \<lparr>granted = [promote (waiting_entry 1 1 None)], waiting = []\<rparr>"
  "SyncSignal 1 \<in> set (signalled (victim_run_rolled_back t))"
proof -
  let ?m = "forget_wait 2 (victim_run_aborted t)"
  have wf: "manager_wf ?m" by (simp add: victim_run_aborted_eval)
  show "manager_wf (victim_run_rolled_back t)" unfolding victim_run_rolled_back_def by (rule release_all_wf [OF wf])
  show "record_queue (victim_run_rolled_back t) 0 =
      \<lparr>granted = [rec_entry 1 Exclusive 0], waiting = [waiting_entry 2 0 (Some Deadlock)]\<rparr>"
    "record_queue (victim_run_rolled_back t) 1 = \<lparr>granted = [promote (waiting_entry 1 1 None)], waiting = []\<rparr>"
    by (simp_all add: victim_run_rolled_back_def release_all_queues wf victim_run_aborted_eval release_eval)
  have "SyncSignal 1 \<in> set (snd (release_queue 2 (record_queue ?m 1)))"
    by (simp add: victim_run_aborted_eval release_eval)
  with release_all_signals(1) [OF wf, of 2 1] show "SyncSignal 1 \<in> set (signalled (victim_run_rolled_back t))"
    unfolding victim_run_rolled_back_def by (rule subsetD)
qed

lemma victim_run_release:
  "sys_step\<^sup>*\<^sup>* (forget_wait 2 (victim_run_aborted t), victim_told d @ [ReleaseAllCall 2 0 [] False, p])
     (victim_run_rolled_back t, victim_told d @ [ReleaseAllCall 2 80 [] True, p])"
  using sys_run_proc [OF release_all_run [of "forget_wait 2 (victim_run_aborted t)" 2], of 4 "victim_told d @ [ReleaseAllCall 2 0 [] False, p]"]
  by (simp add: victim_calls_def victim_run_rolled_back_def victim_run_aborted_eval RECORD_SHARDS_def TABLE_SHARDS_def)

lemma victim_run_last:
  "sys_step\<^sup>*\<^sup>* (victim_run_rolled_back t, victim_told (RecParked (SyncSignal 1)) @ [p, ReleaseAllCall 1 0 [] False])
     (victim_run_end t, victim_told (RecDone (Inr WaitGranted)) @ [p, ReleaseAllCall 1 80 [] True])"
proof -
  let ?m = "victim_run_rolled_back t" and ?r = "demo_request 1 1 0 Exclusive"
  have "map_of (record_shard ?m 1) 1 = Some (record_queue ?m 1)"
    by (rule record_queue_found) (simp add: victim_run_rolled_back_eval queue_new_def)
  then have "wake_result 1 1 Exclusive ?m = Inr WaitGranted"
    by (simp add: wake_result_def victim_run_rolled_back_eval waiting_entry_def rec_entry_def)
  then have "proc_moves\<^sup>*\<^sup>* (?m, RecordCall SyncCall ?r (RecParked (SyncSignal 1))) (forget_wait 1 ?m, RecordCall SyncCall ?r (RecDone (Inr WaitGranted)))"
    using wake_moves [OF victim_run_rolled_back_eval(4) [of t], of ?r] by (simp add: demo_request_sel)
  from sys_run_proc [OF this, of 3 "victim_told (RecParked (SyncSignal 1)) @ [p, ReleaseAllCall 1 0 [] False]"]
  have "sys_step\<^sup>*\<^sup>* (?m, victim_told (RecParked (SyncSignal 1)) @ [p, ReleaseAllCall 1 0 [] False])
      (forget_wait 1 ?m, victim_told (RecDone (Inr WaitGranted)) @ [p, ReleaseAllCall 1 0 [] False])"
    by (simp add: victim_calls_def)
  also have "sys_step\<^sup>*\<^sup>* \<dots> (victim_run_end t, victim_told (RecDone (Inr WaitGranted)) @ [p, ReleaseAllCall 1 80 [] True])"
    using sys_run_proc [OF release_all_run [of "forget_wait 1 ?m" 1], of 5 "victim_told (RecDone (Inr WaitGranted)) @ [p, ReleaseAllCall 1 0 [] False]"]
    by (simp add: victim_calls_def victim_run_end_def victim_run_rolled_back_eval RECORD_SHARDS_def TABLE_SHARDS_def)
  finally show ?thesis .
qed

text \<open>C25: A deadlock victim that is not the requester can be left owning a lock after it is gone. In a
  reachable state transaction 2, the victim, has been woken and its call has returned
  \<open>DeadlockDetected\<close>, while transaction 1 waits for it on page 1. Its request has stayed in the
  queue of page 0: from there a run of the calls lets transaction 2 release everything, holding
  no lock on page 0, after which transaction 1 gets page 1, returns and releases everything in
  its turn; at the end transaction 2, which has ended, holds page 0 slot 0 exclusively.\<close>

theorem deadlock_victim_leaks_lock:
  "\<exists>m1 m2 m3. reachable t m1 (victim_told (RecParked (SyncSignal 1))) \<and>
     map (\<lambda>w. le_txn_id (lw_entry w)) (waiting (record_queue m1 0)) = [2] \<and>
     sys_step\<^sup>*\<^sup>* (m1, victim_told (RecParked (SyncSignal 1)) @ [ReleaseAllCall 2 0 [] False, ReleaseAllCall 1 0 [] False])
       (m2, victim_told (RecParked (SyncSignal 1)) @ [ReleaseAllCall 2 80 [] True, ReleaseAllCall 1 0 [] False]) \<and>
     \<not> holds_record m2 2 0 0 Exclusive \<and>
     sys_step\<^sup>*\<^sup>* (m2, victim_told (RecParked (SyncSignal 1)) @ [ReleaseAllCall 2 80 [] True, ReleaseAllCall 1 0 [] False])
       (m3, victim_told (RecDone (Inr WaitGranted)) @ [ReleaseAllCall 2 80 [] True, ReleaseAllCall 1 80 [] True]) \<and>
     holds_record m3 2 0 0 Exclusive"
proof -
  let ?m1 = "forget_wait 2 (victim_run_aborted t)"
  have "reachable t ?m1 (victim_told (RecParked (SyncSignal 1)))"
    using sys_run_reachable [OF rtranclp_trans [OF rtranclp_trans [OF victim_run_start victim_run_park] victim_run_wakes]]
      victim_calls_reachable by force
  moreover have "map (\<lambda>w. le_txn_id (lw_entry w)) (waiting (record_queue ?m1 0)) = [2]"
    by (simp add: victim_run_aborted_eval waiting_entry_def rec_entry_def)
  moreover have "\<not> holds_record (victim_run_rolled_back t) 2 0 0 Exclusive"
    by (simp add: holds_record_def victim_run_rolled_back_eval rec_entry_def)
  moreover have "record_queue (victim_run_end t) 0 = \<lparr>granted = [promote (waiting_entry 2 0 (Some Deadlock))], waiting = []\<rparr>"
    by (simp add: victim_run_end_def release_all_queues victim_run_rolled_back_eval release_eval)
  then have "holds_record (victim_run_end t) 2 0 0 Exclusive"
    by (simp add: holds_record_def waiting_entry_def rec_entry_def)
  moreover note victim_run_release [of t] victim_run_last [of t]
  ultimately show ?thesis
    by (intro exI [of _ ?m1] exI [of _ "victim_run_rolled_back t"] exI [of _ "victim_run_end t"] conjI)
qed

subsection \<open>A timeout in front of a waiter\<close>

definition strand_run_first :: "nat \<Rightarrow> lock_manager" where
  "strand_run_first t =
     fst (check_deadlock (demo_request 2 0 0 Exclusive) 1 0
       (fst (enter_record SyncSignal (demo_request 2 0 0 Exclusive) 0
         (fst (enter_record SyncSignal (demo_request 1 0 0 Shared) 0 (with_timeout t))))))"

definition strand_run :: "nat \<Rightarrow> lock_manager" where
  "strand_run t =
     drop_record_waiter 2 0
       (fst (check_deadlock (demo_request 3 0 0 Shared) 2 0
         (fst (enter_record SyncSignal (demo_request 3 0 0 Shared) 0 (strand_run_first t)))))"

definition strand_calls :: "record_stage \<Rightarrow> record_stage \<Rightarrow> record_stage \<Rightarrow> proc list" where
  "strand_calls a b c =
     [RecordCall SyncCall (demo_request 1 0 0 Shared) a, RecordCall SyncCall (demo_request 2 0 0 Exclusive) b,
      RecordCall SyncCall (demo_request 3 0 0 Shared) c]"

lemma drop_record_waiter_signalled: "signalled (drop_record_waiter txn page m) = signalled m"
  by (simp add: drop_record_waiter_def on_record_shard_def Let_def)

lemma timeout_moves:
  assumes "sig \<notin> set (signalled m)"
  shows "proc_moves\<^sup>*\<^sup>* (m, RecordCall k r (RecParked sig))
    (drop_record_waiter (rq_txn r) (rq_page r) m, RecordCall k r (RecLeaving (Inl LockTimeout)))"
proof -
  have "proc_moves (m, RecordCall k r (RecParked sig)) (m, RecordCall k r RecTimedOut)"
    unfolding proc_moves_def using assms by (intro exI proc_step.rec_timeout) simp
  moreover have "proc_moves (m, RecordCall k r RecTimedOut)
      (drop_record_waiter (rq_txn r) (rq_page r) m, RecordCall k r (RecLeaving (Inl LockTimeout)))"
    unfolding proc_moves_def by (intro exI proc_step.rec_timed_out)
  ultimately show ?thesis by simp
qed

lemma detect_behind: "detect_cycle 3 [2 \<mapsto> record_edge 1 0, 3 \<mapsto> record_edge 2 0] = None"
  by (simp add: detect_cycle_def brent_loop_unfold record_edge_def)

lemma check_behind:
  assumes "wait_for m = [2 \<mapsto> record_edge 1 0]"
  shows "check_deadlock (demo_request 3 0 0 Shared) 2 0 m =
    (m\<lparr>wait_for := [2 \<mapsto> record_edge 1 0, 3 \<mapsto> record_edge 2 0]\<rparr>, None)"
  using detect_behind by (simp add: check_deadlock_def demo_request_def record_edge_def assms Let_def)

lemma strand_run_reachable:
  "reachable t (strand_run t) (strand_calls granted_at_once (RecLeaving (Inl LockTimeout)) (RecParked (SyncSignal 1)))"
proof -
  let ?r1 = "demo_request 1 0 0 Shared" and ?r2 = "demo_request 2 0 0 Exclusive" and ?r3 = "demo_request 3 0 0 Shared"
  let ?a = "fst (enter_record SyncSignal ?r1 0 (with_timeout t))" and ?c = "strand_run_first t"
  let ?b = "fst (enter_record SyncSignal ?r2 0 ?a)" and ?d = "fst (enter_record SyncSignal ?r3 0 ?c)"
  have w: "wait_for ?b = Map.empty" by (simp add: enter_record_keeps with_timeout_def)
  have c: "?c = ?b\<lparr>wait_for := [2 \<mapsto> record_edge 1 0]\<rparr>" by (simp add: strand_run_first_def check_first_wait [OF w])
  have out: "snd (enter_record SyncSignal ?r1 0 (with_timeout t)) = None"
    "snd (enter_record SyncSignal ?r2 0 ?a) = Some (SyncSignal 0, 1)"
    "snd (enter_record SyncSignal ?r3 0 ?c) = Some (SyncSignal 1, 2)"
    unfolding c by (simp_all add: enter_record_out run_queue) (simp_all add: with_timeout_def)
  have d: "check_deadlock ?r3 2 0 ?d = (?d\<lparr>wait_for := [2 \<mapsto> record_edge 1 0, 3 \<mapsto> record_edge 2 0]\<rparr>, None)"
    by (rule check_behind) (simp add: enter_record_keeps c)
  let ?e = "fst (check_deadlock ?r3 2 0 ?d)"
  have e: "SyncSignal 0 \<notin> set (signalled ?e)" unfolding d by (simp add: enter_record_keeps c with_timeout_def)
  have chk: "check_deadlock ?r2 1 0 ?b = (?c, None)" "check_deadlock ?r3 2 0 ?d = (?e, None)"
    by (simp add: strand_run_first_def check_first_wait [OF w]) (simp only: d fst_conv)
  note moves = r_into_rtranclp [of proc_moves, OF grant_moves [OF out(1)]] park_moves [OF out(2) demo_request_waits chk(1)]
    park_moves [OF out(3) demo_request_waits chk(2)] timeout_moves [OF e, of SyncCall ?r2]
  have "reachable t (with_timeout t) (strand_calls RecStart RecStart RecStart)"
    unfolding strand_calls_def using reachable_call [OF reachable_call [OF reachable_call [OF reachable_init]]] by simp
  moreover have "sys_step\<^sup>*\<^sup>* (with_timeout t, strand_calls RecStart RecStart RecStart) (?a, strand_calls granted_at_once RecStart RecStart)"
    using sys_run_proc [OF moves(1), of 0 "strand_calls RecStart RecStart RecStart"] by (simp add: strand_calls_def)
  moreover have "sys_step\<^sup>*\<^sup>* (?a, strand_calls granted_at_once RecStart RecStart) (?c, strand_calls granted_at_once (RecParked (SyncSignal 0)) RecStart)"
    using sys_run_proc [OF moves(2), of 1 "strand_calls granted_at_once RecStart RecStart"] by (simp add: strand_calls_def)
  moreover have "sys_step\<^sup>*\<^sup>* (?c, strand_calls granted_at_once (RecParked (SyncSignal 0)) RecStart)
      (?e, strand_calls granted_at_once (RecParked (SyncSignal 0)) (RecParked (SyncSignal 1)))"
    using sys_run_proc [OF moves(3), of 2 "strand_calls granted_at_once (RecParked (SyncSignal 0)) RecStart"] by (simp add: strand_calls_def)
  moreover have "sys_step\<^sup>*\<^sup>* (?e, strand_calls granted_at_once (RecParked (SyncSignal 0)) (RecParked (SyncSignal 1)))
      (strand_run t, strand_calls granted_at_once (RecLeaving (Inl LockTimeout)) (RecParked (SyncSignal 1)))"
    using sys_run_proc [OF moves(4), of 1 "strand_calls granted_at_once (RecParked (SyncSignal 0)) (RecParked (SyncSignal 1))"]
    by (simp add: strand_calls_def strand_run_def demo_request_sel)
  ultimately show ?thesis using sys_run_reachable [OF rtranclp_trans [OF rtranclp_trans [OF rtranclp_trans]]] by force
qed

text \<open>C26: Removing a waiter does not promote the ones behind it. Transaction 1 holds a slot
  shared, transaction 2 waits for it exclusively and transaction 3 waits behind it for a shared
  lock. In the reachable state in which transaction 2 has timed out, transaction 3 conflicts with
  no granted lock any more, but it stays in the queue, parked on a handle that is not notified.\<close>

theorem timeout_strands_waiter:
  "reachable t (strand_run t) (strand_calls granted_at_once (RecLeaving (Inl LockTimeout)) (RecParked (SyncSignal 1))) \<and>
   (\<exists>w. waiting (record_queue (strand_run t) 0) = [w] \<and> le_txn_id (lw_entry w) = 3 \<and>
     find_conflict (record_queue (strand_run t) 0) 3 (le_mode (lw_entry w)) (waiter_slot w) = None \<and>
     lw_signal w = SyncSignal 1 \<and> lw_signal w \<notin> set (signalled (strand_run t)))"
proof (rule conjI [OF strand_run_reachable])
  have keep: "signalled (fst (check_deadlock r b now m)) = signalled m" "next_signal (fst (check_deadlock r b now m)) = next_signal m"
    for r b now m by (simp_all add: check_deadlock_def Let_def split: option.split)
  have "signalled (strand_run t) = []" "next_signal (with_timeout t) = 0"
    by (simp_all add: strand_run_def strand_run_first_def drop_record_waiter_signalled keep enter_record_keeps with_timeout_def)
  then show "\<exists>w. waiting (record_queue (strand_run t) 0) = [w] \<and> le_txn_id (lw_entry w) = 3 \<and>
     find_conflict (record_queue (strand_run t) 0) 3 (le_mode (lw_entry w)) (waiter_slot w) = None \<and>
     lw_signal w = SyncSignal 1 \<and> lw_signal w \<notin> set (signalled (strand_run t))"
    by (simp add: strand_run_def strand_run_first_def record_queue_drop run_queue check_deadlock_wf keep remove_waiter_by_txn_def remove_nth_def)
qed

end
