(* ===== verification/Free_List.thy ===== *)
theory Free_List
  imports Axiom_Prelude
begin

text \<open>
  \<open>axiomdb-storage/src/freelist.rs\<close>: the bitmap of free pages. A set bit means the page is
  free. Page numbers are natural numbers: the bitmap never covers more than 130560 pages, so no
  arithmetic on them wraps. An assertion that fails is \<open>None\<close>. The interface
  \<open>page_allocator\<close> states what the storage engine relies on and is interpreted on the bitmap.
\<close>

definition BITMAP_BODY_BYTES :: nat where "BITMAP_BODY_BYTES = 16384 - 64"

definition BITMAP_CAPACITY :: nat where "BITMAP_CAPACITY = BITMAP_BODY_BYTES * 8"

record free_list =
  fl_words :: "u64 list"
  fl_total_pages :: nat

definition words_needed :: "nat \<Rightarrow> nat" where
  "words_needed n_pages = (n_pages + 63) div 64"

definition bit_pos :: "nat \<Rightarrow> nat \<times> nat" where
  "bit_pos page_id = (page_id div 64, page_id mod 64)"

definition mask_tail :: "u64 list \<Rightarrow> nat \<Rightarrow> u64 list" where
  "mask_tail ws tot =
     (let remainder = tot mod 64 in
      if remainder \<noteq> 0 \<and> ws \<noteq> [] then
        let last = length ws - 1; valid_mask = push_bit remainder 1 - 1
        in ws[last := ws ! last AND valid_mask]
      else ws)"

definition mark_used :: "free_list \<Rightarrow> nat \<Rightarrow> free_list" where
  "mark_used fl page_id =
     (if page_id \<ge> fl_total_pages fl then fl
      else let (word_idx, b) = bit_pos page_id in
        fl\<lparr>fl_words := (fl_words fl)[word_idx := fl_words fl ! word_idx AND NOT (push_bit b 1)]\<rparr>)"

definition fl_new :: "nat \<Rightarrow> nat list \<Rightarrow> free_list option" where
  "fl_new tot reserved =
     (if tot \<le> BITMAP_CAPACITY then
        let ws = mask_tail (replicate (words_needed tot) u64_max) tot
        in Some (foldl mark_used \<lparr>fl_words = ws, fl_total_pages = tot\<rparr> reserved)
      else None)"

definition fl_from_bytes :: "u8 list \<Rightarrow> nat \<Rightarrow> free_list option" where
  "fl_from_bytes bytes tot =
     (if BITMAP_BODY_BYTES \<le> length bytes \<and> tot \<le> BITMAP_CAPACITY then
        let ws = map (\<lambda>i. u64_of_le (take 8 (drop (i * 8) bytes))) [0..<words_needed tot]
        in Some \<lparr>fl_words = mask_tail ws tot, fl_total_pages = tot\<rparr>
      else None)"

text \<open>The buffer is overwritten with the bitmap followed by zeros, the rest of it is kept.\<close>

definition fl_to_bytes :: "free_list \<Rightarrow> u8 list \<Rightarrow> u8 list option" where
  "fl_to_bytes fl buf =
     (if BITMAP_BODY_BYTES \<le> length buf then
        let body = concat (map u64_le (fl_words fl))
        in Some (body @ replicate (BITMAP_BODY_BYTES - length body) 0 @ drop BITMAP_BODY_BYTES buf)
      else None)"

primrec alloc_from :: "nat \<Rightarrow> nat \<Rightarrow> u64 list \<Rightarrow> (nat \<times> u64 list) option" where
  "alloc_from tot i [] = None"
| "alloc_from tot i (w # ws) =
     (let bit_no = trailing_zeros w; page_id = i * 64 + bit_no in
      if w \<noteq> 0 \<and> page_id < tot then Some (page_id, (w AND NOT (push_bit bit_no 1)) # ws)
      else map_option (\<lambda>(p, ws'). (p, w # ws')) (alloc_from tot (i + 1) ws))"

definition fl_alloc :: "free_list \<Rightarrow> free_list \<times> nat option" where
  "fl_alloc fl =
     (case alloc_from (fl_total_pages fl) 0 (fl_words fl) of
        None \<Rightarrow> (fl, None)
      | Some (page_id, ws) \<Rightarrow> (fl\<lparr>fl_words := ws\<rparr>, Some page_id))"

definition fl_free :: "free_list \<Rightarrow> nat \<Rightarrow> db_error + free_list" where
  "fl_free fl page_id =
     (if page_id \<ge> fl_total_pages fl then Inl (PageNotFound (word_of_nat page_id))
      else let (word_idx, b) = bit_pos page_id; mask = push_bit b 1 in
        if fl_words fl ! word_idx AND mask \<noteq> 0 then Inl (OtherError ''double-free detected on page'')
        else Inr (fl\<lparr>fl_words := (fl_words fl)[word_idx := fl_words fl ! word_idx OR mask]\<rparr>))"

definition fl_grow :: "free_list \<Rightarrow> nat \<Rightarrow> free_list option" where
  "fl_grow fl new_total =
     (if new_total > fl_total_pages fl \<and> new_total \<le> BITMAP_CAPACITY then
        let old_total = fl_total_pages fl;
            ws = take (words_needed new_total) (fl_words fl) @
              replicate (words_needed new_total - length (fl_words fl)) u64_max;
            old_n_words = words_needed old_total;
            last_old_idx = old_n_words - 1;
            bits_in_last = old_total mod 64;
            ws' = (if old_n_words > 0 \<and> bits_in_last \<noteq> 0
                   then ws[last_old_idx := ws ! last_old_idx OR push_bit bits_in_last u64_max]
                   else ws)
        in Some \<lparr>fl_words = mask_tail ws' new_total, fl_total_pages = new_total\<rparr>
      else None)"

definition fl_is_free :: "free_list \<Rightarrow> nat \<Rightarrow> bool" where
  "fl_is_free fl page_id =
     (if page_id \<ge> fl_total_pages fl then False
      else let (word_idx, b) = bit_pos page_id in drop_bit b (fl_words fl ! word_idx) AND 1 = 1)"

definition fl_free_count :: "free_list \<Rightarrow> nat" where
  "fl_free_count fl = sum_list (map count_ones (fl_words fl))"

subsection \<open>Batches\<close>

datatype run_scan = RunFound nat | RunScan nat nat

primrec scan_bits :: "u64 \<Rightarrow> nat \<Rightarrow> nat \<Rightarrow> nat \<Rightarrow> nat list \<Rightarrow> nat \<Rightarrow> nat \<Rightarrow> run_scan" where
  "scan_bits word base tot n [] run_start run_len = RunScan run_start run_len"
| "scan_bits word base tot n (b # bs) run_start run_len =
     (let page_id = base + b in
      if page_id \<ge> tot then RunScan run_start run_len
      else if drop_bit b word AND 1 = 1 then
        let run_start' = (if run_len = 0 then page_id else run_start); run_len' = run_len + 1
        in if run_len' \<ge> n then RunFound run_start'
           else scan_bits word base tot n bs run_start' run_len'
      else scan_bits word base tot n bs run_start 0)"

primrec scan_words :: "nat \<Rightarrow> nat \<Rightarrow> nat \<Rightarrow> u64 list \<Rightarrow> nat \<Rightarrow> nat \<Rightarrow> nat option" where
  "scan_words tot n i [] run_start run_len = None"
| "scan_words tot n i (word # ws) run_start run_len =
     (let base = i * 64 in
      if word = u64_max then
        let run_start' = (if run_len = 0 then base else run_start);
            run_len' = run_len + 64;
            run_end = min (run_start' + run_len') tot
        in if run_end - run_start' \<ge> n then Some run_start'
           else scan_words tot n (i + 1) ws run_start' run_len'
      else if word = 0 then scan_words tot n (i + 1) ws run_start 0
      else (case scan_bits word base tot n [0..<64] run_start run_len of
              RunFound s \<Rightarrow> Some s
            | RunScan run_start' run_len' \<Rightarrow> scan_words tot n (i + 1) ws run_start' run_len'))"

definition find_contiguous_run :: "free_list \<Rightarrow> nat \<Rightarrow> nat option" where
  "find_contiguous_run fl n =
     (if n = 0 then Some 0 else scan_words (fl_total_pages fl) n 0 (fl_words fl) 0 0)"

text \<open>\<open>while out.len() < n { match self.alloc() { .. } }\<close> with \<open>k = n - out.len()\<close> rounds to go.\<close>

primrec alloc_loop :: "('s \<Rightarrow> 's \<times> nat option) \<Rightarrow> nat \<Rightarrow> 's \<Rightarrow> nat list \<Rightarrow> 's \<times> nat list" where
  "alloc_loop alloc 0 s out = (s, out)"
| "alloc_loop alloc (Suc k) s out =
     (case alloc s of
        (s', Some page_id) \<Rightarrow> alloc_loop alloc k s' (out @ [page_id])
      | (s', None) \<Rightarrow> (s', out))"

definition alloc_batch_sequential :: "free_list \<Rightarrow> nat \<Rightarrow> free_list \<times> nat list" where
  "alloc_batch_sequential fl n =
     (if n = 0 then (fl, [])
      else case find_contiguous_run fl n of
             Some start \<Rightarrow> (foldl mark_used fl (map ((+) start) [0..<n]), [start..<start + n])
           | None \<Rightarrow> alloc_loop fl_alloc n fl [])"

primrec free_batch_loop :: "nat list \<Rightarrow> free_list \<Rightarrow> db_error option \<Rightarrow> free_list \<times> db_error option" where
  "free_batch_loop [] fl first_err = (fl, first_err)"
| "free_batch_loop (page_id # ids) fl first_err =
     (case fl_free fl page_id of
        Inl e \<Rightarrow> free_batch_loop ids fl (if first_err = None then Some e else first_err)
      | Inr fl' \<Rightarrow> free_batch_loop ids fl' first_err)"

definition free_batch :: "free_list \<Rightarrow> nat list \<Rightarrow> free_list \<times> (db_error + unit)" where
  "free_batch fl ids =
     (case free_batch_loop ids fl None of
        (fl', Some e) \<Rightarrow> (fl', Inl e)
      | (fl', None) \<Rightarrow> (fl', Inr ()))"

subsection \<open>The set of free pages\<close>

definition free_set :: "free_list \<Rightarrow> nat set" where
  "free_set fl = {p. p < fl_total_pages fl \<and> bit (fl_words fl ! (p div 64)) (p mod 64)}"

text \<open>The words cover the pages exactly, and bits beyond the last page are clear.\<close>

definition fl_wf :: "free_list \<Rightarrow> bool" where
  "fl_wf fl \<longleftrightarrow>
     fl_total_pages fl \<le> BITMAP_CAPACITY \<and>
     length (fl_words fl) = words_needed (fl_total_pages fl) \<and>
     (\<forall>p. fl_total_pages fl \<le> p \<longrightarrow> p div 64 < length (fl_words fl) \<longrightarrow>
        \<not> bit (fl_words fl ! (p div 64)) (p mod 64))"

lemma words_needed_eq: "words_needed tot = tot div 64 + (if tot mod 64 = 0 then 0 else 1)"
proof -
  define k r where "k = tot div 64" and "r = tot mod 64"
  have tot: "tot + 63 = k * 64 + (r + 63)" and r: "r < 64" by (simp_all add: k_def r_def)
  have "(r + 63) div 64 = (if r = 0 then 0 else 1)"
    using r by (auto intro!: div_nat_eqI)
  then have "(tot + 63) div 64 = k + (if r = 0 then 0 else 1)"
    unfolding tot by (simp del: add.assoc)
  then show ?thesis by (simp add: words_needed_def k_def r_def)
qed

lemma div_less_imp_less: "p div 64 < tot div 64 \<Longrightarrow> p < (tot :: nat)"
  by (metis div_le_mono leD leI)

lemma le_div_mod:
  "a \<le> p \<longleftrightarrow> a div 64 < p div 64 \<or> a div 64 = p div 64 \<and> a mod 64 \<le> p mod (64 :: nat)"
proof -
  have a: "a = a div 64 * 64 + a mod 64" and p: "p = p div 64 * 64 + p mod 64" by simp_all
  consider "a div 64 < p div 64" | "a div 64 = p div 64" | "p div 64 < a div 64" by linarith
  then show ?thesis
  proof cases
    case 2
    then have "a \<le> p \<longleftrightarrow> a mod 64 \<le> p mod 64" using a p by linarith
    with 2 show ?thesis by simp
  qed (use div_less_imp_less [of a p] div_less_imp_less [of p a] in auto)
qed

lemma word_index: "p < tot \<Longrightarrow> p div 64 < words_needed tot"
  unfolding words_needed_def by linarith

text \<open>\<open>push_bit b 1\<close> normalises to \<open>2 ^ b\<close>.\<close>

lemma bit_exp_u64 [simp]: "bit (2 ^ b :: u64) i \<longleftrightarrow> i = b \<and> b < 64"
  by (auto simp: bit_simps)

lemma test_bit_drop: "drop_bit b w AND 1 = 1 \<longleftrightarrow> bit (w :: u64) b"
  by (simp add: and_one_eq bit_iff_odd_drop_bit odd_iff_mod_2_eq_one)

lemma test_bit_and: "w AND 2 ^ b = 0 \<longleftrightarrow> \<not> bit (w :: u64) b"
  using bit_iff_and_push_bit_not_eq_0 [of w b] by simp

lemma bit_valid_mask: "r < 64 \<Longrightarrow> bit (2 ^ r - 1 :: u64) i \<longleftrightarrow> i < r"
  by (auto simp: mask_eq_exp_minus_1 [symmetric] bit_simps)

text \<open>The bits of a word list, read as one long bitmap.\<close>

definition page_bit :: "u64 list \<Rightarrow> nat \<Rightarrow> bool" where
  "page_bit ws p \<longleftrightarrow> p div 64 < length ws \<and> bit (ws ! (p div 64)) (p mod 64)"

lemma page_bit_set:
  "k < length ws \<Longrightarrow> page_bit (ws[k := w]) p \<longleftrightarrow> (if p div 64 = k then bit w (p mod 64) else page_bit ws p)"
  by (auto simp: page_bit_def nth_list_update)

lemma fl_wf_page_bit:
  "fl_wf fl \<longleftrightarrow> fl_total_pages fl \<le> BITMAP_CAPACITY \<and>
     length (fl_words fl) = words_needed (fl_total_pages fl) \<and>
     (\<forall>p. page_bit (fl_words fl) p \<longrightarrow> p < fl_total_pages fl)"
  by (auto simp: fl_wf_def page_bit_def not_le [symmetric])

lemma free_set_page_bit: "fl_wf fl \<Longrightarrow> free_set fl = {p. page_bit (fl_words fl) p}"
  by (auto simp: free_set_def fl_wf_page_bit word_index page_bit_def)

lemma free_set_finite [simp]: "finite (free_set fl)"
  by (rule finite_subset [of _ "{..<fl_total_pages fl}"]) (auto simp: free_set_def)

lemma length_mask_tail [simp]: "length (mask_tail ws tot) = length ws"
  by (simp add: mask_tail_def Let_def)

lemma page_bit_mask_tail:
  assumes "length ws = words_needed tot"
  shows "page_bit (mask_tail ws tot) p \<longleftrightarrow> page_bit ws p \<and> p < tot"
proof (cases "tot mod 64 \<noteq> 0 \<and> ws \<noteq> []")
  case True
  then have last: "length ws = tot div 64 + 1" using assms by (simp add: words_needed_eq)
  have eq: "p < tot \<longleftrightarrow> p mod 64 < tot mod 64" if "p div 64 = tot div 64"
    using that by (metis div_mult_mod_eq nat_add_left_cancel_less)
  have lt: "p < tot" if "p div 64 \<noteq> tot div 64" "p div 64 < length ws"
    using that last by (metis Suc_eq_plus1 div_le_mono leD leI less_Suc_eq)
  show ?thesis
  proof (cases "p div 64 = tot div 64")
    case same: True
    with True last show ?thesis
      by (simp add: mask_tail_def Let_def page_bit_set bit_and_iff bit_valid_mask eq [OF same])
        (simp add: page_bit_def)
  next
    case False
    then have "page_bit (mask_tail ws tot) p = page_bit ws p"
      using True last by (simp add: mask_tail_def Let_def page_bit_set)
    moreover have "p < tot" if "page_bit ws p"
      using that by (intro lt False) (simp add: page_bit_def)
    ultimately show ?thesis by blast
  qed
next
  case False
  have "p < tot" if "page_bit ws p"
  proof (rule div_less_imp_less)
    from that have "p div 64 < length ws" "ws \<noteq> []" by (auto simp: page_bit_def)
    with False assms show "p div 64 < tot div 64" by (simp add: words_needed_eq)
  qed
  moreover have "mask_tail ws tot = ws" using False by (simp only: mask_tail_def Let_def if_False)
  ultimately show ?thesis by auto
qed

lemma page_bit_index: "i < length ws \<Longrightarrow> b < 64 \<Longrightarrow> page_bit ws (i * 64 + b) \<longleftrightarrow> bit (ws ! i) b"
  by (simp add: page_bit_def)

lemma page_bit_replicate: "page_bit (replicate n u64_max) p \<longleftrightarrow> p div 64 < n"
  by (cases "p div 64 < n") (simp_all add: page_bit_def)

lemma page_bit_resize:
  "page_bit (ws @ replicate m u64_max) p \<longleftrightarrow>
     page_bit ws p \<or> length ws \<le> p div 64 \<and> p div 64 < length ws + m"
proof (cases "p div 64 < length ws")
  case False
  then obtain k where "p div 64 = length ws + k" by (metis le_add_diff_inverse not_less)
  then show ?thesis by (cases "k < m") (simp_all add: page_bit_def nth_append)
qed (simp add: page_bit_def nth_append)

subsection \<open>Single operations on the set\<close>

lemma fl_is_free_iff: "fl_is_free fl p \<longleftrightarrow> p \<in> free_set fl"
  by (simp add: fl_is_free_def bit_pos_def free_set_def test_bit_drop)

lemma mark_used_wf: "fl_wf fl \<Longrightarrow> fl_wf (mark_used fl p)"
  and mark_used_set: "fl_wf fl \<Longrightarrow> free_set (mark_used fl p) = free_set fl - {p}"
proof -
  assume wfl: "fl_wf fl"
  have pb: "page_bit (fl_words (mark_used fl p)) q \<longleftrightarrow> page_bit (fl_words fl) q \<and> q \<noteq> p" for q
  proof (cases "p < fl_total_pages fl")
    case True
    then have k: "p div 64 < length (fl_words fl)" using wfl by (simp add: fl_wf_def word_index)
    have "q = p \<longleftrightarrow> q div 64 = p div 64 \<and> q mod 64 = p mod 64" by (metis div_mult_mod_eq)
    with True k show ?thesis
      by (auto simp: mark_used_def bit_pos_def page_bit_set bit_simps) (auto simp: page_bit_def)
  next
    case False
    with wfl show ?thesis by (auto simp: mark_used_def fl_wf_page_bit)
  qed
  have "length (fl_words (mark_used fl p)) = length (fl_words fl)"
      "fl_total_pages (mark_used fl p) = fl_total_pages fl"
    by (simp_all add: mark_used_def bit_pos_def)
  with pb wfl show wf': "fl_wf (mark_used fl p)" by (auto simp: fl_wf_page_bit)
  show "free_set (mark_used fl p) = free_set fl - {p}"
    using pb by (auto simp: free_set_page_bit [OF wfl] free_set_page_bit [OF wf'])
qed

lemma fold_mark_used:
  "fl_wf fl \<Longrightarrow> fl_wf (foldl mark_used fl ps) \<and> free_set (foldl mark_used fl ps) = free_set fl - set ps"
  by (induction ps arbitrary: fl) (auto simp: mark_used_wf mark_used_set)

lemma fl_free_total: "fl_total_pages (mark_used fl p) = fl_total_pages fl"
  by (simp add: mark_used_def bit_pos_def)

lemma fold_mark_used_total: "fl_total_pages (foldl mark_used fl ps) = fl_total_pages fl"
  by (induction ps arbitrary: fl) (simp_all add: fl_free_total)

lemma fl_free_Inr:
  assumes "fl_wf fl" "fl_free fl p = Inr fl'"
  shows "fl_wf fl'" "free_set fl' = insert p (free_set fl)" "p < fl_total_pages fl" "p \<notin> free_set fl"
    "fl_total_pages fl' = fl_total_pages fl"
proof -
  from assms have p: "p < fl_total_pages fl" "\<not> bit (fl_words fl ! (p div 64)) (p mod 64)"
    and fl': "fl' = fl\<lparr>fl_words := (fl_words fl)[p div 64 := fl_words fl ! (p div 64) OR 2 ^ (p mod 64)]\<rparr>"
    by (auto simp: fl_free_def bit_pos_def Let_def test_bit_and split: if_splits)
  then have k: "p div 64 < length (fl_words fl)" using assms(1) by (simp add: fl_wf_def word_index)
  have pb: "page_bit (fl_words fl') q \<longleftrightarrow> page_bit (fl_words fl) q \<or> q = p" for q
  proof -
    have "q = p \<longleftrightarrow> q div 64 = p div 64 \<and> q mod 64 = p mod 64" by (metis div_mult_mod_eq)
    with k show ?thesis
      by (auto simp: fl' page_bit_set bit_simps) (auto simp: page_bit_def)
  qed
  show "fl_total_pages fl' = fl_total_pages fl" "p < fl_total_pages fl" "p \<notin> free_set fl"
    using p by (simp_all add: fl' free_set_def)
  show wf': "fl_wf fl'" using pb assms(1) p(1) by (auto simp: fl_wf_page_bit fl')
  show "free_set fl' = insert p (free_set fl)"
    using pb by (auto simp: free_set_page_bit [OF assms(1)] free_set_page_bit [OF wf'])
qed

lemma fl_free_error: "fl_free fl p = Inl e \<longleftrightarrow>
    fl_total_pages fl \<le> p \<and> e = PageNotFound (word_of_nat p) \<or>
    p \<in> free_set fl \<and> e = OtherError ''double-free detected on page''"
  by (auto simp: fl_free_def bit_pos_def Let_def test_bit_and free_set_def)

lemma fl_new_wf:
  assumes "fl_new tot reserved = Some fl"
  shows "fl_wf fl" "free_set fl = {..<tot} - set reserved"
proof -
  let ?ws = "mask_tail (replicate (words_needed tot) u64_max) tot"
  let ?fl = "\<lparr>fl_words = ?ws, fl_total_pages = tot\<rparr>"
  from assms have cap: "tot \<le> BITMAP_CAPACITY" and fl: "fl = foldl mark_used ?fl reserved"
    by (auto simp: fl_new_def Let_def split: if_splits)
  have pb: "page_bit ?ws p \<longleftrightarrow> p < tot" for p
    by (auto simp: page_bit_mask_tail page_bit_replicate word_index)
  have wf0: "fl_wf ?fl" using cap by (simp add: fl_wf_page_bit pb)
  have "free_set ?fl = {..<tot}" by (auto simp: free_set_page_bit [OF wf0] pb)
  with fold_mark_used [OF wf0] show "fl_wf fl" "free_set fl = {..<tot} - set reserved"
    by (auto simp: fl)
qed

lemma grow_words_bit:
  assumes "fl_wf fl" "words_needed (fl_total_pages fl) \<le> m"
  defines "n \<equiv> length (fl_words fl)" and "old \<equiv> fl_total_pages fl"
  defines "ws \<equiv> fl_words fl @ replicate (m - n) u64_max"
  shows "page_bit (if n > 0 \<and> old mod 64 \<noteq> 0
      then ws[n - 1 := ws ! (n - 1) OR push_bit (old mod 64) u64_max] else ws) p \<longleftrightarrow>
    page_bit (fl_words fl) p \<or> old \<le> p \<and> p div 64 < m"
proof -
  have n: "n = old div 64 + (if old mod 64 = 0 then 0 else 1)"
    using assms(1) by (simp add: fl_wf_def words_needed_eq n_def old_def)
  have m: "n \<le> m" using assms(1,2) by (simp add: fl_wf_def n_def)
  have ws: "page_bit ws p \<longleftrightarrow> page_bit (fl_words fl) p \<or> n \<le> p div 64 \<and> p div 64 < m"
    using m by (auto simp: ws_def page_bit_resize n_def)
  have in_range: "p < old" if "page_bit (fl_words fl) p"
    using that assms(1) by (simp add: fl_wf_page_bit old_def)
  have ge: "old \<le> p \<longleftrightarrow> old div 64 < p div 64 \<or> old div 64 = p div 64 \<and> old mod 64 \<le> p mod 64"
    by (rule le_div_mod)
  show ?thesis
  proof (cases "old mod 64 = 0")
    case True
    with n ge have "old \<le> p \<longleftrightarrow> n \<le> p div 64" by auto
    with True ws show ?thesis by simp
  next
    case False
    then have last: "n - 1 < length ws" "n - 1 = old div 64" "n > 0" using n by (auto simp: ws_def n_def)
    show ?thesis
    proof (cases "p div 64 = old div 64")
      case True
      moreover have "n - 1 < length (fl_words fl)" using last(3) by (simp add: n_def)
      then have "ws ! (n - 1) = fl_words fl ! (n - 1)" by (simp only: ws_def nth_append if_True)
      ultimately show ?thesis
        using False last m n ge by (simp add: page_bit_set bit_simps) (auto simp: page_bit_def n_def)
    next
      case other: False
      then have "old \<le> p \<longleftrightarrow> n \<le> p div 64" using ge n False by auto
      with other False last ws show ?thesis by (simp add: page_bit_set)
    qed
  qed
qed

lemma fl_grow_wf:
  assumes "fl_wf fl" "fl_grow fl new_total = Some fl'"
  shows "fl_wf fl'" "free_set fl' = free_set fl \<union> {fl_total_pages fl..<new_total}"
    "fl_total_pages fl' = new_total"
proof -
  let ?old = "fl_total_pages fl"
  let ?n = "words_needed ?old"
  let ?ws = "fl_words fl @ replicate (words_needed new_total - ?n) u64_max"
  define ws' where "ws' = (if ?n > 0 \<and> ?old mod 64 \<noteq> 0
     then ?ws[?n - 1 := ?ws ! (?n - 1) OR push_bit (?old mod 64) u64_max] else ?ws)"
  from assms(2) have lt: "?old < new_total" and cap: "new_total \<le> BITMAP_CAPACITY"
    by (auto simp: fl_grow_def Let_def split: if_splits)
  have len: "length (fl_words fl) = ?n" using assms(1) by (simp add: fl_wf_def)
  have mono: "?n \<le> words_needed new_total"
    using lt unfolding words_needed_def by (intro div_le_mono) simp
  have tk: "take (words_needed new_total) (fl_words fl) = fl_words fl" by (simp add: len mono)
  have fl': "fl' = \<lparr>fl_words = mask_tail ws' new_total, fl_total_pages = new_total\<rparr>"
    using assms(2) lt cap unfolding ws'_def
    by (simp only: fl_grow_def Let_def tk len if_True simp_thms option.inject)
  have len': "length ws' = words_needed new_total" using mono len by (simp add: ws'_def)
  have pb: "page_bit ws' p \<longleftrightarrow>
      page_bit (fl_words fl) p \<or> ?old \<le> p \<and> p div 64 < words_needed new_total" for p
    unfolding ws'_def len [symmetric] using assms(1) mono by (rule grow_words_bit)
  show tot: "fl_total_pages fl' = new_total" by (simp add: fl')
  show wf': "fl_wf fl'"
    using cap len' by (auto simp: fl_wf_page_bit fl' page_bit_mask_tail)
  have fw: "page_bit (fl_words fl') p \<longleftrightarrow> page_bit ws' p \<and> p < new_total" for p
    unfolding fl' free_list.select_convs by (rule page_bit_mask_tail [OF len'])
  have old: "page_bit (fl_words fl) p \<Longrightarrow> p < new_total" for p
    using assms(1) lt by (meson fl_wf_page_bit less_trans)
  have "page_bit (fl_words fl') p \<longleftrightarrow>
      page_bit (fl_words fl) p \<or> ?old \<le> p \<and> p < new_total" for p
    using fw [of p] pb [of p] old [of p] word_index [of p new_total] by argo
  then show "free_set fl' = free_set fl \<union> {?old..<new_total}"
    by (simp only: free_set_page_bit [OF assms(1)] free_set_page_bit [OF wf'] set_eq_iff Un_iff
        mem_Collect_eq atLeastLessThan_iff simp_thms)
qed

lemma chunk_concat:
  assumes "\<And>x. x \<in> set xs \<Longrightarrow> length (f x) = n" "i < length xs"
  shows "take n (drop (i * n) (concat (map f xs) @ ys)) = f (xs ! i)"
  using assms
proof (induction xs arbitrary: i)
  case (Cons x xs)
  then show ?case by (cases i) (auto simp: add.commute)
qed simp

lemma length_concat_u64: "length (concat (map u64_le ws)) = 8 * length ws"
  by (induction ws) simp_all

lemma words_fit: "tot \<le> BITMAP_CAPACITY \<Longrightarrow> 8 * words_needed tot \<le> BITMAP_BODY_BYTES"
  using div_le_mono [of "tot + 63" 130623 64]
  by (simp add: words_needed_def BITMAP_CAPACITY_def BITMAP_BODY_BYTES_def)

lemma mask_tail_id: "fl_wf fl \<Longrightarrow> mask_tail (fl_words fl) (fl_total_pages fl) = fl_words fl"
proof (rule nth_equalityI)
  fix k assume wfl: "fl_wf fl" and k: "k < length (mask_tail (fl_words fl) (fl_total_pages fl))"
  show "mask_tail (fl_words fl) (fl_total_pages fl) ! k = fl_words fl ! k"
  proof (rule bit_word_eqI)
    fix b assume "b < LENGTH(64)"
    then have b: "b < 64" by simp
    have "page_bit (mask_tail (fl_words fl) (fl_total_pages fl)) (k * 64 + b) =
        page_bit (fl_words fl) (k * 64 + b)"
      using wfl by (subst page_bit_mask_tail) (auto simp: fl_wf_page_bit)
    then show "bit (mask_tail (fl_words fl) (fl_total_pages fl) ! k) b = bit (fl_words fl ! k) b"
      using k b by (simp add: page_bit_index)
  qed
qed simp

lemma fl_bytes_roundtrip:
  assumes "fl_wf fl" "BITMAP_BODY_BYTES \<le> length buf" "fl_to_bytes fl buf = Some bytes"
  shows "fl_from_bytes bytes (fl_total_pages fl) = Some fl"
proof -
  let ?ws = "fl_words fl"
  let ?body = "concat (map u64_le ?ws)"
  have bytes: "bytes = ?body @ replicate (BITMAP_BODY_BYTES - length ?body) 0 @ drop BITMAP_BODY_BYTES buf"
    using assms(2,3) by (simp add: fl_to_bytes_def Let_def)
  have cap: "fl_total_pages fl \<le> BITMAP_CAPACITY" and n: "length ?ws = words_needed (fl_total_pages fl)"
    using assms(1) by (simp_all add: fl_wf_def)
  have fit: "length ?body \<le> BITMAP_BODY_BYTES"
    using words_fit [OF cap] by (simp add: length_concat_u64 n)
  have "take 8 (drop (i * 8) bytes) = u64_le (?ws ! i)" if "i < length ?ws" for i
    unfolding bytes by (rule chunk_concat) (simp_all add: that)
  then have "map (\<lambda>i. u64_of_le (take 8 (drop (i * 8) bytes))) [0..<words_needed (fl_total_pages fl)] = ?ws"
    by (intro nth_equalityI) (simp_all add: n)
  moreover have "BITMAP_BODY_BYTES \<le> length bytes" using fit assms(2) by (simp add: bytes)
  ultimately show ?thesis using cap mask_tail_id [OF assms(1)] by (simp add: fl_from_bytes_def)
qed

subsection \<open>Allocation\<close>

lemma alloc_from_Some:
  "alloc_from tot i ws = Some (p, ws') \<Longrightarrow>
   \<exists>k < length ws. ws ! k \<noteq> 0 \<and> p = (i + k) * 64 + trailing_zeros (ws ! k) \<and> p < tot \<and>
     ws' = ws[k := ws ! k AND NOT (push_bit (trailing_zeros (ws ! k)) 1)] \<and>
     (\<forall>j < k. ws ! j = 0 \<or> tot \<le> (i + j) * 64 + trailing_zeros (ws ! j))"
proof (induction ws arbitrary: i ws')
  case (Cons w ws)
  show ?case
  proof (cases "w \<noteq> 0 \<and> i * 64 + trailing_zeros w < tot")
    case True
    with Cons.prems show ?thesis by (intro exI [of _ 0]) (auto simp: Let_def)
  next
    case False
    with Cons.prems obtain vs where vs: "alloc_from tot (i + 1) ws = Some (p, vs)" "ws' = w # vs"
      by (auto simp: Let_def split: if_splits)
    from Cons.IH [OF vs(1)] obtain k where k: "k < length ws" "ws ! k \<noteq> 0"
      "p = (i + 1 + k) * 64 + trailing_zeros (ws ! k)" "p < tot"
      "vs = ws[k := ws ! k AND NOT (push_bit (trailing_zeros (ws ! k)) 1)]"
      "\<forall>j < k. ws ! j = 0 \<or> tot \<le> (i + 1 + j) * 64 + trailing_zeros (ws ! j)" by blast
    have "(w # ws) ! j = 0 \<or> tot \<le> (i + j) * 64 + trailing_zeros ((w # ws) ! j)" if "j < Suc k" for j
      using that False k(6) by (cases j) auto
    with k vs(2) show ?thesis by (intro exI [of _ "Suc k"]) auto
  qed
qed simp

lemma alloc_from_None:
  "alloc_from tot i ws = None \<Longrightarrow> k < length ws \<Longrightarrow>
   ws ! k = 0 \<or> tot \<le> (i + k) * 64 + trailing_zeros (ws ! k)"
proof (induction ws arbitrary: i k)
  case (Cons w ws)
  from Cons.prems(1) have w: "w = 0 \<or> tot \<le> i * 64 + trailing_zeros w"
      and ws: "alloc_from tot (i + 1) ws = None"
    by (auto simp: Let_def split: if_splits)
  show ?case
  proof (cases k)
    case (Suc j)
    with Cons.IH [OF ws, of j] Cons.prems(2) show ?thesis by simp
  qed (use w in simp)
qed simp

text \<open>A word that is skipped although it is not zero would hold a free page beyond the end.\<close>

lemma skipped_word:
  assumes "fl_wf fl" "k < length (fl_words fl)"
    "fl_words fl ! k = 0 \<or> fl_total_pages fl \<le> k * 64 + trailing_zeros (fl_words fl ! k)"
  shows "fl_words fl ! k = 0"
proof (rule ccontr)
  assume nz: "fl_words fl ! k \<noteq> 0"
  with trailing_zeros_spec [OF nz] assms(2)
  have "page_bit (fl_words fl) (k * 64 + trailing_zeros (fl_words fl ! k))"
    by (simp add: page_bit_index)
  with assms(1,3) nz show False by (auto simp: fl_wf_page_bit)
qed

lemma fl_alloc_None:
  assumes "fl_wf fl" "fl_alloc fl = (fl', None)"
  shows "fl' = fl" "free_set fl = {}"
proof -
  from assms(2) have none: "alloc_from (fl_total_pages fl) 0 (fl_words fl) = None" and "fl' = fl"
    by (auto simp: fl_alloc_def split: option.splits)
  then show "fl' = fl" by simp
  have "fl_words fl ! k = 0" if "k < length (fl_words fl)" for k
    using skipped_word [OF assms(1) that] alloc_from_None [OF none that] by simp
  then show "free_set fl = {}"
    by (auto simp: free_set_page_bit [OF assms(1)] page_bit_def)
qed

lemma fl_alloc_Some:
  assumes "fl_wf fl" "fl_alloc fl = (fl', Some p)"
  shows "fl' = mark_used fl p" "p \<in> free_set fl" "\<And>q. q \<in> free_set fl \<Longrightarrow> p \<le> q"
proof -
  let ?ws = "fl_words fl"
  from assms(2) obtain ws' where ws': "alloc_from (fl_total_pages fl) 0 ?ws = Some (p, ws')"
      and fl': "fl' = fl\<lparr>fl_words := ws'\<rparr>"
    by (auto simp: fl_alloc_def split: option.splits)
  from alloc_from_Some [OF ws'] obtain k where k: "k < length ?ws" "?ws ! k \<noteq> 0"
    and p: "p = k * 64 + trailing_zeros (?ws ! k)" "p < fl_total_pages fl"
    and w: "ws' = ?ws[k := ?ws ! k AND NOT (push_bit (trailing_zeros (?ws ! k)) 1)]"
    and skip: "\<forall>j < k. ?ws ! j = 0 \<or> fl_total_pages fl \<le> j * 64 + trailing_zeros (?ws ! j)"
    by auto
  note tz = trailing_zeros_spec [OF k(2)]
  have pos: "p div 64 = k" "p mod 64 = trailing_zeros (?ws ! k)" using tz(1) by (simp_all add: p(1))
  show "fl' = mark_used fl p" using p(2) by (simp add: mark_used_def bit_pos_def pos fl' w)
  show "p \<in> free_set fl" using p(2) tz(2) by (simp add: free_set_def pos)
  show "p \<le> q" if q: "q \<in> free_set fl" for q
  proof -
    have b: "bit (?ws ! (q div 64)) (q mod 64)" using q by (simp add: free_set_def)
    have "\<not> q div 64 < k"
    proof
      assume lt: "q div 64 < k"
      with skipped_word [OF assms(1), of "q div 64"] skip k(1) have "?ws ! (q div 64) = 0" by simp
      with b show False by simp
    qed
    moreover have "trailing_zeros (?ws ! k) \<le> q mod 64" if "q div 64 = k"
      using tz(3) [of "q mod 64"] b that by (auto simp: not_less [symmetric])
    ultimately show ?thesis using pos le_div_mod [of p q] by auto
  qed
qed

lemma fl_free_count_card:
  assumes "fl_wf fl"
  shows "fl_free_count fl = card (free_set fl)"
proof -
  have "sum_list (map count_ones ws) = card {p. page_bit ws p} \<and> finite {p. page_bit ws p}" for ws
  proof (induction ws)
    case (Cons w ws)
    have "{p. page_bit (w # ws) p} = {i. bit w i} \<union> (\<lambda>p. p + 64) ` {p. page_bit ws p}"
    proof (rule set_eqI)
      fix p
      show "p \<in> {p. page_bit (w # ws) p} \<longleftrightarrow> p \<in> {i. bit w i} \<union> (\<lambda>p. p + 64) ` {p. page_bit ws p}"
      proof (cases "p < 64")
        case True
        then show ?thesis by (auto simp: page_bit_def)
      next
        case False
        then obtain r where r: "p = r + 64" by (metis add.commute le_add_diff_inverse not_less)
        have "(r + 64) div 64 = Suc (r div 64)" by (simp add: div_add_self2)
        with r show ?thesis by (auto simp: page_bit_def image_iff dest: bit_u64_lt)
      qed
    qed
    moreover have "{i. bit w i} \<inter> (\<lambda>p. p + 64) ` {p. page_bit ws p} = {}"
      by (auto dest: bit_u64_lt)
    moreover have "finite {i. bit w i}" by (rule finite_subset [of _ "{..<64}"]) (auto dest: bit_u64_lt)
    ultimately show ?case
      using Cons.IH by (simp add: card_Un_disjoint card_image count_ones_card)
  qed (simp add: page_bit_def)
  then show ?thesis by (simp add: fl_free_count_def free_set_page_bit [OF assms])
qed

subsection \<open>The allocator contract\<close>

locale page_allocator =
  fixes alloc :: "'s \<Rightarrow> 's \<times> nat option"
    and free :: "'s \<Rightarrow> nat \<Rightarrow> 'e + 's"
    and invar :: "'s \<Rightarrow> bool"
    and frees :: "'s \<Rightarrow> nat set"
    and capacity :: "'s \<Rightarrow> nat"
  assumes alloc_some: "invar s \<Longrightarrow> alloc s = (s', Some p) \<Longrightarrow>
      invar s' \<and> p \<in> frees s \<and> frees s' = frees s - {p} \<and> capacity s' = capacity s"
    and alloc_none: "invar s \<Longrightarrow> alloc s = (s', None) \<Longrightarrow> s' = s \<and> frees s = {}"
    and free_some: "invar s \<Longrightarrow> p < capacity s \<Longrightarrow> p \<notin> frees s \<Longrightarrow>
      \<exists>s'. free s p = Inr s' \<and> invar s' \<and> frees s' = insert p (frees s) \<and> capacity s' = capacity s"
    and frees_bound: "invar s \<Longrightarrow> p \<in> frees s \<Longrightarrow> p < capacity s"
begin

lemma frees_finite: "invar s \<Longrightarrow> finite (frees s)"
  by (rule finite_subset [of _ "{..<capacity s}"]) (auto dest: frees_bound)

lemma free_after_alloc:
  assumes "invar s" "alloc s = (s', Some p)"
  shows "\<exists>s''. free s' p = Inr s'' \<and> frees s'' = frees s"
  using alloc_some [OF assms] free_some [of s' p] frees_bound [OF assms(1), of p] by auto

lemma alloc_loop_spec:
  assumes "invar s" "alloc_loop alloc k s out = (s', out')"
  shows "\<exists>ps. out' = out @ ps \<and> distinct ps \<and> set ps \<subseteq> frees s \<and> frees s' = frees s - set ps \<and>
    invar s' \<and> capacity s' = capacity s \<and> length ps = min k (card (frees s))"
  using assms
proof (induction k arbitrary: s out)
  case 0
  then show ?case by auto
next
  case (Suc k)
  obtain t r where t: "alloc s = (t, r)" by fastforce
  show ?case
  proof (cases r)
    case None
    with t Suc.prems alloc_none [OF Suc.prems(1)] show ?thesis by auto
  next
    case (Some p)
    note sp = alloc_some [OF Suc.prems(1) t [unfolded Some]]
    from t Some Suc.prems(2) have "alloc_loop alloc k t (out @ [p]) = (s', out')" by simp
    from Suc.IH [OF _ this] sp obtain ps where ps: "out' = (out @ [p]) @ ps" "distinct ps"
      "set ps \<subseteq> frees t" "frees s' = frees t - set ps" "invar s'" "capacity s' = capacity t"
      "length ps = min k (card (frees t))" by auto
    have "card (frees s) = Suc (card (frees t))"
      using sp card.remove [OF frees_finite [OF Suc.prems(1)], of p] by simp
    then have "length (p # ps) = min (Suc k) (card (frees s))" using ps(7) by simp
    moreover have "frees s' = frees s - set (p # ps)" "set (p # ps) \<subseteq> frees s" "distinct (p # ps)"
      using sp ps(2-4) by auto
    moreover have "out' = out @ (p # ps)" "invar s'" "capacity s' = capacity s" using sp ps by simp_all
    ultimately show ?thesis by blast
  qed
qed

end

interpretation freelist: page_allocator fl_alloc fl_free fl_wf free_set fl_total_pages
proof
  fix fl fl' p assume wfl: "fl_wf fl"
  show "fl_wf fl' \<and> p \<in> free_set fl \<and> free_set fl' = free_set fl - {p} \<and>
      fl_total_pages fl' = fl_total_pages fl" if "fl_alloc fl = (fl', Some p)"
    using fl_alloc_Some [OF wfl that] by (auto simp: mark_used_wf mark_used_set wfl fl_free_total)
  show "fl' = fl \<and> free_set fl = {}" if "fl_alloc fl = (fl', None)"
    using fl_alloc_None [OF wfl that] by simp
  show "\<exists>fl'. fl_free fl p = Inr fl' \<and> fl_wf fl' \<and> free_set fl' = insert p (free_set fl) \<and>
      fl_total_pages fl' = fl_total_pages fl" if "p < fl_total_pages fl" "p \<notin> free_set fl"
  proof (cases "fl_free fl p")
    case (Inl e)
    with that show ?thesis by (simp add: fl_free_error)
  next
    case (Inr fl')
    with fl_free_Inr [OF wfl Inr] show ?thesis by simp
  qed
  show "p < fl_total_pages fl" if "p \<in> free_set fl" using that by (simp add: free_set_def)
qed

subsection \<open>What the bitmap promises\<close>

text \<open>C27: Allocation is first-fit: \<open>alloc\<close> returns the lowest free page and marks exactly that page
  used, and it reports failure only when no page is free.\<close>

theorem fl_alloc_lowest:
  assumes "fl_wf fl" "fl_alloc fl = (fl', r)"
  shows "fl_wf fl' \<and> r = (if free_set fl = {} then None else Some (Min (free_set fl))) \<and>
    free_set fl' = free_set fl - set_option r"
proof (cases r)
  case None
  with fl_alloc_None [OF assms(1)] assms show ?thesis by auto
next
  case (Some p)
  note sp = fl_alloc_Some [OF assms(1) assms(2) [unfolded Some]]
  from sp(2,3) have "Min (free_set fl) = p" by (intro Min_eqI) auto
  with sp Some show ?thesis by (auto simp: mark_used_wf mark_used_set assms(1))
qed

lemma fl_new_demo: "\<exists>fl. fl_new 8 [0, 1] = Some fl \<and> fl_wf fl \<and> free_set fl = {2..<8} \<and> fl_total_pages fl = 8"
proof -
  obtain fl where fl: "fl_new 8 [0, 1] = Some fl" by (simp add: fl_new_def BITMAP_CAPACITY_def BITMAP_BODY_BYTES_def)
  then have "fl_total_pages fl = 8" by (auto simp: fl_new_def Let_def fl_free_total split: if_splits)
  moreover have "{..<8} - set [0, 1] = {2..<8 :: nat}" by auto
  ultimately show ?thesis using fl_new_wf [OF fl] fl by auto
qed

theorem fl_alloc_lowest_witness:
  "\<exists>fl fl'. fl_new 8 [0, 1] = Some fl \<and> fl_alloc fl = (fl', Some 2) \<and> free_set fl' = {3..<8}"
proof -
  obtain fl where fl: "fl_new 8 [0, 1] = Some fl" "fl_wf fl" "free_set fl = {2..<8}"
    using fl_new_demo by blast
  obtain fl' r where a: "fl_alloc fl = (fl', r)" by fastforce
  have m: "Min {2..<8 :: nat} = 2" "{2..<8 :: nat} \<noteq> {}" by (auto intro: Min_eqI)
  have r: "r = Some 2" using fl_alloc_lowest [OF fl(2) a] by (simp only: fl(3) m if_False)
  have "free_set fl' = {2..<8} - {2}" using fl_alloc_lowest [OF fl(2) a] by (simp only: fl(3) r option.set)
  also have "\<dots> = {3..<8}" by auto
  finally show ?thesis using fl(1) a r by blast
qed

text \<open>Freeing a page reports a page beyond the end as not found and a page that is already
  free as a double free, leaving the bitmap alone in both cases; otherwise exactly that page
  becomes free.\<close>

lemma fl_free_cases:
  assumes "fl_wf fl"
  shows "case fl_free fl p of
      Inl e \<Rightarrow> fl_total_pages fl \<le> p \<and> e = PageNotFound (word_of_nat p) \<or>
        p \<in> free_set fl \<and> e = OtherError ''double-free detected on page''
    | Inr fl' \<Rightarrow> p < fl_total_pages fl \<and> p \<notin> free_set fl \<and> fl_wf fl' \<and>
        free_set fl' = insert p (free_set fl)"
proof (cases "fl_free fl p")
  case (Inl e)
  with iffD1 [OF fl_free_error Inl] show ?thesis by simp
next
  case (Inr fl')
  with fl_free_Inr [OF assms Inr] show ?thesis by simp
qed

text \<open>Growing the file makes exactly the new pages free and keeps the state of the old ones,
  also when the old last word was only partly in use.\<close>

lemma fl_grow_adds:
  assumes "fl_wf fl" "fl_total_pages fl < new_total" "new_total \<le> BITMAP_CAPACITY"
  shows "\<exists>fl'. fl_grow fl new_total = Some fl' \<and> fl_wf fl' \<and> fl_total_pages fl' = new_total \<and>
    free_set fl' = free_set fl \<union> {fl_total_pages fl..<new_total}"
proof -
  from assms(2,3) obtain fl' where fl': "fl_grow fl new_total = Some fl'"
    by (simp add: fl_grow_def Let_def)
  from fl_grow_wf [OF assms(1) fl'] fl' show ?thesis by blast
qed

text \<open>The bitmap page round trip: what \<open>to_bytes\<close> writes into a page body, \<open>from_bytes\<close> reads
  back as the same bitmap.\<close>

lemma fl_bytes_inverse:
  assumes "fl_wf fl" "BITMAP_BODY_BYTES \<le> length buf"
  shows "\<exists>bytes. fl_to_bytes fl buf = Some bytes \<and> length bytes = length buf \<and>
    fl_from_bytes bytes (fl_total_pages fl) = Some fl"
proof -
  obtain bytes where b: "fl_to_bytes fl buf = Some bytes"
    using assms(2) by (simp add: fl_to_bytes_def Let_def)
  have "8 * length (fl_words fl) \<le> BITMAP_BODY_BYTES"
    using assms(1) words_fit by (simp add: fl_wf_def)
  then have "length bytes = length buf"
    using b assms(2) by (auto simp: fl_to_bytes_def Let_def length_concat_u64 simp del: length_concat)
  with fl_bytes_roundtrip [OF assms b] b show ?thesis by blast
qed

end
