(* ===== verification/Free_List_Runs.thy ===== *)
theory Free_List_Runs
  imports Free_List
begin

text \<open>
  The batch operations of \<open>freelist.rs\<close>: the word-at-a-time search for a contiguous run agrees
  with a search that looks at one page after another (\<open>run_ref\<close>), whose result is the
  first run; batches handed out are free, distinct and as long as possible, and freeing a batch
  undoes its allocation.
\<close>

subsection \<open>Contiguous runs\<close>

text \<open>The reference: look at one page after another.\<close>

primrec run_ref :: "(nat \<Rightarrow> bool) \<Rightarrow> nat \<Rightarrow> nat list \<Rightarrow> nat \<Rightarrow> nat \<Rightarrow> nat option" where
  "run_ref F n [] st len = None"
| "run_ref F n (p # ps) st len =
     (if F p then
        if len + 1 \<ge> n then Some (if len = 0 then p else st)
        else run_ref F n ps (if len = 0 then p else st) (len + 1)
      else run_ref F n ps st 0)"

lemma run_ref_all:
  assumes "\<And>p. p \<in> set ps \<Longrightarrow> F p" "ps = [P..<P + length ps]" "ps \<noteq> []" "len < n"
  shows "run_ref F n (ps @ qs) st len =
    (if len + length ps \<ge> n then Some (if len = 0 then P else st)
     else run_ref F n qs (if len = 0 then P else st) (len + length ps))"
  using assms
proof (induction ps arbitrary: P st len)
  case (Cons p ps)
  have p: "p = P" "ps = [Suc P..<Suc P + length ps]"
    using Cons.prems(2) upt_conv_Cons [of P "P + length (p # ps)"] by (simp_all del: upt_Suc)
  show ?case
  proof (cases "ps = []")
    case True
    with Cons.prems(1,4) p(1) show ?thesis by simp
  next
    case False
    show ?thesis
    proof (cases "len + 1 \<ge> n")
      case True
      with Cons.prems(1,4) p(1) show ?thesis by simp
    next
      case lt: False
      with Cons.IH [of "Suc P" "Suc len" "if len = 0 then P else st"] Cons.prems(1,4) p False
      show ?thesis by simp
    qed
  qed
qed simp

lemma run_ref_none:
  "(\<And>p. p \<in> set ps \<Longrightarrow> \<not> F p) \<Longrightarrow> ps \<noteq> [] \<Longrightarrow> run_ref F n (ps @ qs) st len = run_ref F n qs st 0"
proof (induction ps arbitrary: len)
  case (Cons p ps)
  then show ?case by (cases "ps = []") simp_all
qed simp

lemma run_ref_correct:
  assumes "len < n" "len \<le> P" "0 < len \<Longrightarrow> st = P - len" "\<And>q. P - len \<le> q \<Longrightarrow> q < P \<Longrightarrow> F q"
    "P + length ps = T" "ps = [P..<T]"
  shows "(case run_ref F n ps st len of
      Some s \<Rightarrow> s + n \<le> T \<and> (\<forall>q \<in> {s..<s + n}. F q) \<and>
        (\<forall>s' \<in> {P - len..<s}. \<exists>q \<in> {s'..<s' + n}. \<not> F q)
    | None \<Rightarrow> \<forall>s' \<ge> P - len. s' + n \<le> T \<longrightarrow> (\<exists>q \<in> {s'..<s' + n}. \<not> F q))"
  using assms
proof (induction ps arbitrary: P st len)
  case Nil
  then show ?case by auto
next
  case (Cons p ps)
  have p: "p = P" "ps = [Suc P..<T]" "Suc P + length ps = T"
    using Cons.prems(5) Cons.prems(6) [symmetric] by (auto simp: upt_eq_Cons_conv)
  show ?case
  proof (cases "F P")
    case True
    have st: "(if len = 0 then P else st) = P - len" using Cons.prems(3) by auto
    have all: "F q" if "P - len \<le> q" "q < Suc P" for q
      using that True Cons.prems(4) by (cases "q = P") auto
    show ?thesis
    proof (cases "len + 1 \<ge> n")
      case full: True
      with Cons.prems(1) have n: "n = Suc len" by simp
      then have "P - len + n = Suc P" using Cons.prems(2) by simp
      with all p(3) show ?thesis using True full by (simp add: p(1) st)
    next
      case False
      have "run_ref F n (p # ps) st len = run_ref F n ps (P - len) (Suc len)"
        using True False st by (simp add: p(1))
      then show ?thesis
        using Cons.IH [of "Suc len" "Suc P" "P - len", unfolded diff_Suc_Suc, OF _ _ _ all p(3,2)]
          Cons.prems(2) False by simp
    qed
  next
    case False
    have miss: "\<exists>q \<in> {s'..<s' + n}. \<not> F q" if "P - len \<le> s'" "s' \<le> P" for s'
      using False that Cons.prems(1) by (intro bexI [of _ P]) auto
    have IH: "case run_ref F n ps st 0 of
        Some s \<Rightarrow> s + n \<le> T \<and> (\<forall>q \<in> {s..<s + n}. F q) \<and>
          (\<forall>s' \<in> {Suc P..<s}. \<exists>q \<in> {s'..<s' + n}. \<not> F q)
      | None \<Rightarrow> \<forall>s' \<ge> Suc P. s' + n \<le> T \<longrightarrow> (\<exists>q \<in> {s'..<s' + n}. \<not> F q)"
      using Cons.IH [of 0 "Suc P" st, unfolded diff_zero, OF _ _ _ _ p(3,2)] Cons.prems(1) by simp
    have split: "s' \<le> P \<or> Suc P \<le> s'" for s' by linarith
    show ?thesis
    proof (cases "run_ref F n ps st 0")
      case None
      with IH miss split False show ?thesis by (simp add: p(1)) blast
    next
      case (Some s)
      have "\<exists>q \<in> {s'..<s' + n}. \<not> F q" if "s' \<in> {P - len..<s}" for s'
        using split [of s'] miss [of s'] that IH Some by auto
      with IH Some False show ?thesis by (simp add: p(1))
    qed
  qed
qed

lemma run_ref_empty: "(\<And>p. p \<in> set ps \<Longrightarrow> \<not> F p) \<Longrightarrow> run_ref F n ps st len = None"
  by (induction ps arbitrary: len) auto

lemma scan_bits_ref:
  assumes "\<And>b. b \<in> set bs \<Longrightarrow> F (base + b) \<longleftrightarrow> bit word b" "sorted bs" "\<And>p. tot \<le> p \<Longrightarrow> \<not> F p"
    "(\<forall>b \<in> set bs. base + b < tot) \<or> qs = []"
  shows "(case scan_bits word base tot n bs st len of
      RunFound s \<Rightarrow> Some s | RunScan st' len' \<Rightarrow> run_ref F n qs st' len') =
    run_ref F n (map ((+) base) bs @ qs) st len"
  using assms
proof (induction bs arbitrary: st len)
  case (Cons b bs)
  show ?case
  proof (cases "base + b \<ge> tot")
    case True
    with Cons.prems(4) have "qs = []" by auto
    moreover have "run_ref F n (map ((+) base) (b # bs)) st len = None"
      using True Cons.prems(2,3) by (intro run_ref_empty) force
    ultimately show ?thesis using True by simp
  next
    case False
    have "F (base + b) \<longleftrightarrow> bit word b" using Cons.prems(1) by simp
    with False Cons show ?thesis by (simp add: test_bit_drop Let_def)
  qed
qed simp

lemma scan_bits_pos:
  assumes "scan_bits word base tot n bs st len = RunScan st' len'" "bs = [b..<64]" "base + 64 \<le> tot"
    "len < n" "0 < len \<longrightarrow> st + len = base + b" "b \<le> 64"
  shows "len' < n \<and> (0 < len' \<longrightarrow> st' + len' = base + 64)"
  using assms
proof (induction bs arbitrary: st len b)
  case Nil
  then have "b = 64" using upt_conv_Cons [of b 64] by (cases "b < 64") auto
  with Nil show ?case by auto
next
  case (Cons c bs)
  have bs: "c = b" "bs = [Suc b..<64]" "b < 64"
    using Cons.prems(2) [symmetric] by (auto simp: upt_eq_Cons_conv)
  show ?case
  proof (cases "bit word b")
    case True
    with Cons.prems bs have "scan_bits word base tot n bs (if len = 0 then base + b else st) (len + 1) =
        RunScan st' len'" "len + 1 < n"
      by (auto simp: Let_def test_bit_drop split: if_splits)
    from Cons.IH [OF this(1) bs(2)] this(2) Cons.prems bs show ?thesis by auto
  next
    case False
    with Cons.prems bs have "scan_bits word base tot n bs st 0 = RunScan st' len'"
      by (auto simp: Let_def test_bit_drop split: if_splits)
    from Cons.IH [OF this bs(2)] Cons.prems bs show ?thesis by auto
  qed
qed

lemma scan_words_ref:
  assumes "\<And>k b. k < length ws \<Longrightarrow> b < 64 \<Longrightarrow> F ((i + k) * 64 + b) \<longleftrightarrow> bit (ws ! k) b"
    "\<And>p. tot \<le> p \<Longrightarrow> \<not> F p" "\<And>k. Suc k < length ws \<Longrightarrow> (i + k) * 64 + 64 \<le> tot"
    "len < n" "0 < len \<longrightarrow> st + len = i * 64"
  shows "scan_words tot n i ws st len = run_ref F n [i * 64..<(i + length ws) * 64] st len"
  using assms
proof (induction ws arbitrary: i st len)
  case (Cons w ws)
  let ?ps = "map ((+) (i * 64)) [0..<64]"
  let ?qs = "[(i + 1) * 64..<(i + 1 + length ws) * 64]"
  have ps: "?ps = [i * 64..<i * 64 + 64]" by (simp add: map_add_upt [symmetric] add.commute del: upt_Suc upt_rec_numeral)
  have pages: "[i * 64..<(i + length (w # ws)) * 64] = ?ps @ ?qs"
    unfolding ps using upt_add_eq_append [of "i * 64" "i * 64 + 64" "length ws * 64"]
    by (simp add: algebra_simps del: upt_Suc)
  have F: "F (i * 64 + b) \<longleftrightarrow> bit w b" if "b < 64" for b using Cons.prems(1) [of 0 b] that by simp
  have IH: "scan_words tot n (i + 1) ws st' len' = run_ref F n ?qs st' len'"
    if "len' < n" "0 < len' \<longrightarrow> st' + len' = (i + 1) * 64" for st' len'
  proof (rule Cons.IH)
    show "F ((i + 1 + k) * 64 + b) \<longleftrightarrow> bit (ws ! k) b" if "k < length ws" "b < 64" for k b
      using Cons.prems(1) [of "Suc k" b] that by simp
    show "(i + 1 + k) * 64 + 64 \<le> tot" if "Suc k < length ws" for k
      using Cons.prems(3) [of "Suc k"] that by simp
  qed (use Cons.prems(2) that in auto)
  have mem: "\<exists>b < 64. p = i * 64 + b" if "p \<in> set ?ps" for p
    using that by (simp only: set_map set_upt image_iff) auto
  consider "w = u64_max" | "w = 0" | "w \<noteq> u64_max" "w \<noteq> 0" by blast
  then show ?case
  proof cases
    case 1
    then have all: "F p" if "p \<in> set ?ps" for p using mem [OF that] F by auto
    have "F (i * 64 + 63)" using F [of 63] 1 by simp
    then have "i * 64 + 64 \<le> tot" using Cons.prems(2) [of "i * 64 + 63"] by (cases "tot \<le> i * 64 + 63") auto
    moreover have "(if len = 0 then i * 64 else st) + (len + 64) = i * 64 + 64"
      using Cons.prems(5) by auto
    ultimately show ?thesis
      unfolding pages using 1 Cons.prems(4) IH [of "len + 64" "if len = 0 then i * 64 else st"]
      by (subst run_ref_all [where P = "i * 64"]) (auto simp: ps Let_def F all)
  next
    case 2
    then have "\<not> F p" if "p \<in> set ?ps" for p using mem [OF that] F by auto
    with 2 IH [of 0 st] Cons.prems(4) show ?thesis
      unfolding pages by (subst run_ref_none) auto
  next
    case 3
    have range: "(\<forall>b \<in> set [0..<64]. i * 64 + b < tot) \<or> ?qs = []"
      using Cons.prems(3) [of 0] by (cases ws) auto
    have ref: "run_ref F n (?ps @ ?qs) st len = (case scan_bits w (i * 64) tot n [0..<64] st len of
        RunFound s \<Rightarrow> Some s | RunScan st' len' \<Rightarrow> run_ref F n ?qs st' len')"
      by (rule scan_bits_ref [symmetric]) (use F Cons.prems(2) range in auto)
    show ?thesis
    proof (cases "scan_bits w (i * 64) tot n [0..<64] st len")
      case (RunFound s)
      with 3 ref show ?thesis unfolding pages by (simp add: Let_def del: upt_rec_numeral)
    next
      case (RunScan st' len')
      show ?thesis
      proof (cases "ws = []")
        case True
        with 3 ref RunScan show ?thesis unfolding pages by (simp add: Let_def del: upt_rec_numeral)
      next
        case False
        with Cons.prems(3) [of 0] have "i * 64 + 64 \<le> tot" by simp
        from scan_bits_pos [OF RunScan refl this Cons.prems(4)] Cons.prems(5)
        have "len' < n \<and> (0 < len' \<longrightarrow> st' + len' = (i + 1) * 64)" by simp
        with IH [of len' st'] 3 ref RunScan show ?thesis
          unfolding pages by (simp add: Let_def del: upt_rec_numeral)
      qed
    qed
  qed
qed simp

subsection \<open>Batches\<close>

lemma find_contiguous_run_ref:
  assumes "fl_wf fl" "0 < n"
  shows "find_contiguous_run fl n =
    run_ref (page_bit (fl_words fl)) n [0..<length (fl_words fl) * 64] 0 0"
proof -
  let ?ws = "fl_words fl"
  have "scan_words (fl_total_pages fl) n 0 ?ws 0 0 =
      run_ref (page_bit ?ws) n [0 * 64..<(0 + length ?ws) * 64] 0 0"
  proof (rule scan_words_ref)
    show "page_bit ?ws ((0 + k) * 64 + b) = bit (?ws ! k) b" if "k < length ?ws" "b < 64" for k b
      using that by (simp add: page_bit_index)
    show "\<not> page_bit ?ws p" if "fl_total_pages fl \<le> p" for p
      using that assms(1) by (auto simp: fl_wf_page_bit not_less [symmetric])
    show "(0 + k) * 64 + 64 \<le> fl_total_pages fl" if "Suc k < length ?ws" for k
    proof -
      have "Suc k \<le> fl_total_pages fl div 64"
        using that assms(1) by (auto simp: fl_wf_def words_needed_eq split: if_splits)
      then have "Suc k * 64 \<le> fl_total_pages fl div 64 * 64" by (rule mult_le_mono1)
      also have "\<dots> \<le> fl_total_pages fl" by simp
      finally show ?thesis by simp
    qed
  qed (use assms(2) in auto)
  with assms(2) show ?thesis by (simp add: find_contiguous_run_def)
qed

lemma run_ref_from_start:
  assumes "0 < n"
  shows "run_ref F n [0..<T] 0 0 = Some s \<Longrightarrow>
      (\<forall>q \<in> {s..<s + n}. F q) \<and> (\<forall>s' < s. \<exists>q \<in> {s'..<s' + n}. \<not> F q)"
    "run_ref F n [0..<T] 0 0 = None \<Longrightarrow> s + n \<le> T \<Longrightarrow> \<exists>q \<in> {s..<s + n}. \<not> F q"
  using run_ref_correct [of 0 n 0 0 F "[0..<T]" T] assms by auto

lemma page_run_bound:
  assumes "fl_wf fl" "0 < n" "{s..<s + n} \<subseteq> free_set fl"
  shows "s + n \<le> length (fl_words fl) * 64"
proof -
  have "s + n - 1 \<in> free_set fl" using assms(2,3) by auto
  then have "(s + n - 1) div 64 < length (fl_words fl)"
    by (simp add: free_set_page_bit [OF assms(1)] page_bit_def)
  then have "s + n - 1 < length (fl_words fl) * 64" by (simp add: div_less_iff_less_mult)
  then show ?thesis by linarith
qed

lemma find_contiguous_run_Some:
  assumes "fl_wf fl" "0 < n" "find_contiguous_run fl n = Some s"
  shows "{s..<s + n} \<subseteq> free_set fl" "s' < s \<Longrightarrow> \<not> {s'..<s' + n} \<subseteq> free_set fl"
  using run_ref_from_start(1) [OF assms(2) assms(3) [unfolded find_contiguous_run_ref [OF assms(1,2)]]]
  unfolding free_set_page_bit [OF assms(1)] by blast+

lemma find_contiguous_run_None:
  assumes "fl_wf fl" "0 < n" "find_contiguous_run fl n = None"
  shows "\<not> {s..<s + n} \<subseteq> free_set fl"
  using run_ref_from_start(2) [OF assms(2) assms(3) [unfolded find_contiguous_run_ref [OF assms(1,2)]]]
    page_run_bound [OF assms(1,2)]
  unfolding free_set_page_bit [OF assms(1)] by blast

text \<open>C28: The search for a contiguous run is exact: it returns the first position from which \<open>n\<close>
  consecutive pages are free, across word boundaries and clamped to the file, and fails only
  when there is no such run.\<close>

theorem find_contiguous_run_first:
  assumes "fl_wf fl" "0 < n"
  shows "case find_contiguous_run fl n of
      Some s \<Rightarrow> {s..<s + n} \<subseteq> free_set fl \<and> (\<forall>s' < s. \<not> {s'..<s' + n} \<subseteq> free_set fl)
    | None \<Rightarrow> \<forall>s. \<not> {s..<s + n} \<subseteq> free_set fl"
  using find_contiguous_run_Some [OF assms] find_contiguous_run_None [OF assms]
  by (simp split: option.split)

theorem find_contiguous_run_first_witness:
  "\<exists>fl s. fl_new 8 [0, 1] = Some fl \<and> find_contiguous_run fl 3 = Some s \<and> {s..<s + 3} \<subseteq> {2..<8}"
proof -
  obtain fl where fl: "fl_new 8 [0, 1] = Some fl" "fl_wf fl" "free_set fl = {2..<8}"
    using fl_new_demo by blast
  have run: "{2..<2 + 3} \<subseteq> free_set fl" by (auto simp: fl(3))
  show ?thesis
  proof (cases "find_contiguous_run fl 3")
    case None
    with find_contiguous_run_first [OF fl(2), of 3] have "\<forall>s. \<not> {s..<s + 3} \<subseteq> free_set fl" by simp
    with run show ?thesis by blast
  next
    case (Some s)
    with find_contiguous_run_first [OF fl(2), of 3] fl show ?thesis by auto
  qed
qed

lemma alloc_batch_spec:
  assumes "fl_wf fl" "alloc_batch_sequential fl n = (fl', ids)"
  shows "fl_wf fl' \<and> fl_total_pages fl' = fl_total_pages fl \<and> distinct ids \<and> set ids \<subseteq> free_set fl \<and> free_set fl' = free_set fl - set ids \<and>
    length ids = min n (fl_free_count fl) \<and>
    ((\<exists>s. {s..<s + n} \<subseteq> free_set fl) \<longrightarrow> ids = [hd ids..<hd ids + n])"
proof (cases "n = 0")
  case True
  with assms show ?thesis by (auto simp: alloc_batch_sequential_def)
next
  case n: False
  show ?thesis
  proof (cases "find_contiguous_run fl n")
    case None
    with n assms(2) have "alloc_loop fl_alloc n fl [] = (fl', ids)"
      by (simp add: alloc_batch_sequential_def)
    from freelist.alloc_loop_spec [OF assms(1) this] find_contiguous_run_None [OF assms(1) _ None] n
    show ?thesis by (auto simp: fl_free_count_card [OF assms(1)])
  next
    case (Some s)
    have run: "{s..<s + n} \<subseteq> free_set fl" using find_contiguous_run_Some [OF assms(1) _ Some] n by simp
    have "map ((+) s) [0..<n] = [s..<s + n]" by (simp add: map_add_upt [symmetric] add.commute)
    with Some n assms(2) have eqs: "fl' = foldl mark_used fl [s..<s + n]" "ids = [s..<s + n]"
      by (auto simp: alloc_batch_sequential_def)
    have "n \<le> card (free_set fl)" using card_mono [OF free_set_finite run] by simp
    with fold_mark_used [OF assms(1), of "[s..<s + n]"] run n show ?thesis
      by (simp add: eqs fl_free_count_card [OF assms(1)] fold_mark_used_total del: upt_Suc)
  qed
qed

text \<open>C12: A batch consists of distinct free pages, exactly those become used, it is as long as
  asked for unless the file has fewer free pages, and it is contiguous whenever some
  contiguous run of that length is free.\<close>

theorem alloc_batch_sequential_batch:
  assumes "fl_wf fl" "alloc_batch_sequential fl n = (fl', ids)"
  shows "fl_wf fl' \<and> distinct ids \<and> set ids \<subseteq> free_set fl \<and> free_set fl' = free_set fl - set ids \<and>
    length ids = min n (fl_free_count fl) \<and>
    ((\<exists>s. {s..<s + n} \<subseteq> free_set fl) \<longrightarrow> ids = [hd ids..<hd ids + n])"
  using alloc_batch_spec [OF assms] by blast

theorem alloc_batch_sequential_batch_witness:
  "\<exists>fl fl' ids. fl_new 8 [0, 1] = Some fl \<and> alloc_batch_sequential fl 3 = (fl', ids) \<and> distinct ids \<and>
     length ids = 3"
proof -
  obtain fl where fl: "fl_new 8 [0, 1] = Some fl" "fl_wf fl" "free_set fl = {2..<8}"
    using fl_new_demo by blast
  obtain fl' ids where b: "alloc_batch_sequential fl 3 = (fl', ids)" by fastforce
  have "fl_free_count fl = 6" by (simp add: fl_free_count_card fl)
  with alloc_batch_sequential_batch [OF fl(2) b] have "distinct ids" "length ids = 3" by simp_all
  with fl(1) b show ?thesis by blast
qed

lemma free_batch_loop_ok:
  assumes "fl_wf fl" "distinct ids" "set ids \<inter> free_set fl = {}" "\<forall>p \<in> set ids. p < fl_total_pages fl"
  shows "\<exists>fl'. free_batch_loop ids fl e = (fl', e) \<and> fl_wf fl' \<and> free_set fl' = free_set fl \<union> set ids"
  using assms
proof (induction ids arbitrary: fl)
  case (Cons p ids)
  from freelist.free_some [of fl p] Cons.prems obtain fl' where fl': "fl_free fl p = Inr fl'"
    "fl_wf fl'" "free_set fl' = insert p (free_set fl)" "fl_total_pages fl' = fl_total_pages fl" by auto
  with Cons.prems have "\<exists>fl''. free_batch_loop ids fl' e = (fl'', e) \<and> fl_wf fl'' \<and>
      free_set fl'' = free_set fl' \<union> set ids" by (intro Cons.IH) auto
  with fl' show ?case by auto
qed auto

text \<open>Freeing a batch undoes its allocation: \<open>free_batch\<close> on the pages that
  \<open>alloc_batch_sequential\<close> returned succeeds and restores the set of free pages.\<close>

lemma free_batch_undoes_alloc:
  assumes "fl_wf fl" "alloc_batch_sequential fl n = (fl', ids)"
  shows "\<exists>fl''. free_batch fl' ids = (fl'', Inr ()) \<and> fl_wf fl'' \<and> free_set fl'' = free_set fl"
proof -
  note spec = alloc_batch_spec [OF assms]
  then have "\<exists>fl''. free_batch_loop ids fl' None = (fl'', None) \<and> fl_wf fl'' \<and>
      free_set fl'' = free_set fl' \<union> set ids"
    by (intro free_batch_loop_ok) (auto simp: free_set_def)
  with spec show ?thesis by (auto simp: free_batch_def)
qed

end
