(* ===== verification/Wal_Entry.thy ===== *)
theory Wal_Entry
  imports Axiom_Prelude
begin

text \<open>
  \<open>axiomdb-wal/src/entry.rs\<close>: the binary format of write-ahead log records. The checksum function
  (crate crc32c) is a parameter. \<open>as\<close> casts of lengths truncate, as in the source.
\<close>

subsection \<open>Entry types\<close>

definition MIN_ENTRY_LEN :: nat where "MIN_ENTRY_LEN = 43"
definition FIXED_HEADER :: nat where "FIXED_HEADER = 27"

datatype entry_type =
    Begin | Commit | Rollback | Insert | Delete | Update | Checkpoint | Truncate | PageWrite
  | UpdateInPlace | PageDelete | ClusteredInsert | ClusteredDeleteMark | ClusteredUpdate
  | ClusteredFieldPatch

primrec entry_type_byte :: "entry_type \<Rightarrow> u8" where
  "entry_type_byte Begin = 1"
| "entry_type_byte Commit = 2"
| "entry_type_byte Rollback = 3"
| "entry_type_byte Insert = 4"
| "entry_type_byte Delete = 5"
| "entry_type_byte Update = 6"
| "entry_type_byte Checkpoint = 7"
| "entry_type_byte Truncate = 8"
| "entry_type_byte PageWrite = 9"
| "entry_type_byte UpdateInPlace = 10"
| "entry_type_byte PageDelete = 11"
| "entry_type_byte ClusteredInsert = 12"
| "entry_type_byte ClusteredDeleteMark = 13"
| "entry_type_byte ClusteredUpdate = 14"
| "entry_type_byte ClusteredFieldPatch = 15"

definition entry_type_try_from :: "u8 \<Rightarrow> db_error + entry_type" where
  "entry_type_try_from b =
     (if b = 1 then Inr Begin else if b = 2 then Inr Commit else if b = 3 then Inr Rollback
      else if b = 4 then Inr Insert else if b = 5 then Inr Delete else if b = 6 then Inr Update
      else if b = 7 then Inr Checkpoint else if b = 8 then Inr Truncate
      else if b = 9 then Inr PageWrite else if b = 10 then Inr UpdateInPlace
      else if b = 11 then Inr PageDelete else if b = 12 then Inr ClusteredInsert
      else if b = 13 then Inr ClusteredDeleteMark else if b = 14 then Inr ClusteredUpdate
      else if b = 15 then Inr ClusteredFieldPatch else Inl (WalUnknownEntryType b))"

lemma entry_type_roundtrip: "entry_type_try_from b = Inr t \<longleftrightarrow> b = entry_type_byte t"
  by (cases t) (auto simp: entry_type_try_from_def)

subsection \<open>Records\<close>

record wal_entry =
  we_lsn :: u64
  we_txn_id :: u64
  we_type :: entry_type
  we_table_id :: u32
  we_key :: "u8 list"
  we_old_value :: "u8 list"
  we_new_value :: "u8 list"

text \<open>\<open>WalEntry::new(lsn, txn_id, t, 0, vec![], vec![], vec![])\<close>\<close>

definition control_entry :: "u64 \<Rightarrow> u64 \<Rightarrow> entry_type \<Rightarrow> wal_entry" where
  "control_entry lsn txn_id t = \<lparr>we_lsn = lsn, we_txn_id = txn_id, we_type = t, we_table_id = 0,
     we_key = [], we_old_value = [], we_new_value = []\<rparr>"

definition serialized_len :: "wal_entry \<Rightarrow> nat" where
  "serialized_len e =
     MIN_ENTRY_LEN + length (we_key e) + length (we_old_value e) + length (we_new_value e)"

definition serialize_into :: "(u8 list \<Rightarrow> u32) \<Rightarrow> wal_entry \<Rightarrow> u8 list \<Rightarrow> u8 list" where
  "serialize_into crc e buf =
     (let start = length buf; tot = serialized_len e;
          buf = buf @ u32_le (word_of_nat tot);
          buf = buf @ u64_le (we_lsn e);
          buf = buf @ u64_le (we_txn_id e);
          buf = buf @ [entry_type_byte (we_type e)];
          buf = buf @ u32_le (we_table_id e);
          buf = buf @ u16_le (word_of_nat (length (we_key e)));
          buf = buf @ we_key e;
          buf = buf @ u32_le (word_of_nat (length (we_old_value e)));
          buf = buf @ we_old_value e;
          buf = buf @ u32_le (word_of_nat (length (we_new_value e)));
          buf = buf @ we_new_value e;
          buf = buf @ u32_le (crc (drop start buf))
      in buf @ u32_le (word_of_nat tot))"

definition to_bytes :: "(u8 list \<Rightarrow> u32) \<Rightarrow> wal_entry \<Rightarrow> u8 list" where
  "to_bytes crc e =
     (let total_u32 = word_of_nat (serialized_len e);
          buf = u32_le total_u32 @ u64_le (we_lsn e) @ u64_le (we_txn_id e) @
            [entry_type_byte (we_type e)] @ u32_le (we_table_id e) @
            u16_le (word_of_nat (length (we_key e))) @ we_key e @
            u32_le (word_of_nat (length (we_old_value e))) @ we_old_value e @
            u32_le (word_of_nat (length (we_new_value e))) @ we_new_value e
      in buf @ u32_le (crc buf) @ u32_le total_u32)"

definition sub_slice :: "u8 list \<Rightarrow> nat \<Rightarrow> nat \<Rightarrow> u8 list" where
  "sub_slice bs off n = take n (drop off bs)"

definition from_bytes :: "(u8 list \<Rightarrow> u32) \<Rightarrow> u8 list \<Rightarrow> db_error + (wal_entry \<times> nat)" where
  "from_bytes crc buf =
    (if length buf < 4 then Inl (WalEntryTruncated 0) else
     let entry_len = unat (u32_of_le (sub_slice buf 0 4)) in
     if length buf < entry_len then Inl (WalEntryTruncated 0) else
     if entry_len < MIN_ENTRY_LEN then Inl (WalEntryTruncated 0) else
     let lsn = u64_of_le (sub_slice buf 4 8); txn_id = u64_of_le (sub_slice buf 12 8) in
     ebind (entry_type_try_from (buf ! 20)) (\<lambda>entry_type.
     let table_id = u32_of_le (sub_slice buf 21 4); key_len = unat (u16_of_le (sub_slice buf 25 2));
         pos = FIXED_HEADER in
     if entry_len < pos + key_len then Inl (WalEntryTruncated lsn) else
     let key = sub_slice buf pos key_len; pos = pos + key_len in
     if entry_len < pos + 4 then Inl (WalEntryTruncated lsn) else
     let old_val_len = unat (u32_of_le (sub_slice buf pos 4)); pos = pos + 4 in
     if entry_len < pos + old_val_len then Inl (WalEntryTruncated lsn) else
     let old_value = sub_slice buf pos old_val_len; pos = pos + old_val_len in
     if entry_len < pos + 4 then Inl (WalEntryTruncated lsn) else
     let new_val_len = unat (u32_of_le (sub_slice buf pos 4)); pos = pos + 4 in
     if entry_len < pos + new_val_len then Inl (WalEntryTruncated lsn) else
     let new_value = sub_slice buf pos new_val_len; pos = pos + new_val_len in
     if entry_len < pos + 4 then Inl (WalEntryTruncated lsn) else
     let stored_crc = u32_of_le (sub_slice buf pos 4); computed_crc = crc (take pos buf) in
     if stored_crc \<noteq> computed_crc then Inl (WalChecksumMismatch lsn stored_crc computed_crc) else
     let pos = pos + 4 in
     if entry_len < pos + 4 then Inl (WalEntryTruncated lsn) else
     let entry_len_2 = unat (u32_of_le (sub_slice buf pos 4)) in
     if entry_len_2 \<noteq> entry_len then Inl (WalEntryTruncated lsn) else
     Inr (\<lparr>we_lsn = lsn, we_txn_id = txn_id, we_type = entry_type, we_table_id = table_id,
       we_key = key, we_old_value = old_value, we_new_value = new_value\<rparr>, entry_len)))"

subsection \<open>Serialisation\<close>

text \<open>The bytes of a record before its checksum, with \<open>n\<close> as its length field.\<close>

definition wal_head :: "u32 \<Rightarrow> wal_entry \<Rightarrow> u8 list" where
  "wal_head n e = u32_le n @ u64_le (we_lsn e) @ u64_le (we_txn_id e) @
     [entry_type_byte (we_type e)] @ u32_le (we_table_id e) @
     u16_le (word_of_nat (length (we_key e))) @ we_key e @
     u32_le (word_of_nat (length (we_old_value e))) @ we_old_value e @
     u32_le (word_of_nat (length (we_new_value e))) @ we_new_value e"

lemma length_wal_head: "length (wal_head n e) + 8 = serialized_len e"
  by (simp add: wal_head_def serialized_len_def MIN_ENTRY_LEN_def)

lemma to_bytes_head:
  "to_bytes crc e = wal_head (word_of_nat (serialized_len e)) e @
     u32_le (crc (wal_head (word_of_nat (serialized_len e)) e)) @ u32_le (word_of_nat (serialized_len e))"
  by (simp add: to_bytes_def wal_head_def Let_def)

lemma length_to_bytes [simp]: "length (to_bytes crc e) = serialized_len e"
  using length_wal_head [of "word_of_nat (serialized_len e)" e] by (simp add: to_bytes_head)

lemma serialize_into_append: "serialize_into crc e buf = buf @ to_bytes crc e"
  by (simp add: serialize_into_def to_bytes_def Let_def)

text \<open>The lengths a record can carry in its length fields.\<close>

definition wal_entry_ok :: "wal_entry \<Rightarrow> bool" where
  "wal_entry_ok e \<longleftrightarrow> length (we_key e) < 2 ^ 16 \<and> serialized_len e < 2 ^ 32"

lemma length_sub_slice [simp]: "off + n \<le> length bs \<Longrightarrow> length (sub_slice bs off n) = n"
  by (simp add: sub_slice_def)

lemma take_sub_slice: "take (a + n) bs = take a bs @ sub_slice bs a n"
  by (simp add: sub_slice_def take_add)

lemma sub_slice_at [simp]: "length xs = off \<Longrightarrow> sub_slice (xs @ ys) off n = take n ys"
  by (simp add: sub_slice_def)

lemma sub_slice_Suc: "off < length bs \<Longrightarrow> sub_slice bs off 1 = [bs ! off]"
  by (simp add: sub_slice_def take_Suc_conv_app_nth)

lemma sub_slice_take: "off + n \<le> k \<Longrightarrow> sub_slice (take k bs) off n = sub_slice bs off n"
  by (simp add: sub_slice_def drop_take min_def)

lemma split_trailer: "bs = take p bs @ sub_slice bs p 4 @ sub_slice bs (p + 4) 4 @ drop (p + 8) bs"
proof -
  have "bs = take (p + 4 + 4) bs @ drop (p + 4 + 4) bs" by (rule append_take_drop_id [symmetric])
  then show ?thesis by (simp only: take_sub_slice append_assoc) (simp add: ac_simps)
qed

lemma sub_slice_u32: "off + 4 \<le> length bs \<Longrightarrow> u32_of_le (sub_slice bs off 4) = w \<Longrightarrow> sub_slice bs off 4 = u32_le w"
  by (auto simp: u32_le.enc_dec)

lemma unat_word_of_nat32: "n < 2 ^ 32 \<Longrightarrow> unat (word_of_nat n :: u32) = n"
  by (simp add: unat_of_nat)

lemma unat_len_u16: "n < 2 ^ 16 \<Longrightarrow> unat (word_of_nat n :: u16) = n"
  by (simp add: unat_of_nat)

lemma control_entry_ok [simp]:
  "wal_entry_ok (control_entry l x t)" "serialized_len (control_entry l x t) = 43"
  "we_lsn (control_entry l x t) = l" "we_txn_id (control_entry l x t) = x" "we_type (control_entry l x t) = t"
  by (simp_all add: wal_entry_ok_def serialized_len_def MIN_ENTRY_LEN_def control_entry_def)

text \<open>The decoder accepts a buffer exactly when it starts with the head of a record, the checksum of
  that head and a copy of the length field.\<close>

definition framed :: "(u8 list \<Rightarrow> u32) \<Rightarrow> u8 list \<Rightarrow> wal_entry \<Rightarrow> nat \<Rightarrow> bool" where
  "framed crc buf e n \<longleftrightarrow> length (we_key e) < 2 ^ 16 \<and> serialized_len e \<le> n \<and> n \<le> length buf \<and> n < 2 ^ 32 \<and>
     (\<exists>rest. buf = wal_head (word_of_nat n) e @ u32_le (crc (wal_head (word_of_nat n) e)) @
        u32_le (word_of_nat n) @ rest)"

lemma from_bytes_framed:
  assumes "from_bytes crc buf = Inr (e, n)" shows "framed crc buf e n"
proof -
  let ?n = "u32_of_le (sub_slice buf 0 4)" and ?kl = "unat (u16_of_le (sub_slice buf 25 2))"
  let ?ol = "unat (u32_of_le (sub_slice buf (27 + ?kl) 4))"
  let ?p1 = "27 + ?kl + 4 + ?ol"
  let ?nl = "unat (u32_of_le (sub_slice buf ?p1 4))"
  let ?p = "?p1 + 4 + ?nl"
  from assms obtain t where a:
    "n = unat ?n" "n \<le> length buf" "43 \<le> n" "entry_type_try_from (buf ! 20) = Inr t" "?p + 8 \<le> n"
    "u32_of_le (sub_slice buf ?p 4) = crc (take ?p buf)" "unat (u32_of_le (sub_slice buf (?p + 4) 4)) = n"
    "e = \<lparr>we_lsn = u64_of_le (sub_slice buf 4 8), we_txn_id = u64_of_le (sub_slice buf 12 8), we_type = t,
       we_table_id = u32_of_le (sub_slice buf 21 4), we_key = sub_slice buf 27 ?kl,
       we_old_value = sub_slice buf (27 + ?kl + 4) ?ol, we_new_value = sub_slice buf (?p1 + 4) ?nl\<rparr>"
    by (auto simp: from_bytes_def Let_def FIXED_HEADER_def MIN_ENTRY_LEN_def ebind_Inr_iff not_less
      split: if_splits)
  have len: "?p + 8 \<le> length buf" using a(2,5) by linarith
  have n: "word_of_nat n = ?n" using a(1) by simp
  have lens: "length (we_key e) = ?kl" "length (we_old_value e) = ?ol" "length (we_new_value e) = ?nl"
    using len by (simp_all add: a(8))
  have kl: "?kl < 2 ^ 16" using unsigned_less [of "u16_of_le (sub_slice buf 25 2)", where ?'a = nat] by simp
  have head: "wal_head (word_of_nat n) e = take ?p buf"
  proof -
    have "take ?p buf = take (27 + ?kl + 4 + ?ol) buf @ sub_slice buf ?p1 4 @ sub_slice buf (?p1 + 4) ?nl"
      by (simp only: take_sub_slice append_assoc)
    also have "take (27 + ?kl + 4 + ?ol) buf = take 27 buf @ sub_slice buf 27 ?kl @ sub_slice buf (27 + ?kl) 4 @
        sub_slice buf (27 + ?kl + 4) ?ol"
      by (simp only: take_sub_slice append_assoc)
    also have "take 27 buf = sub_slice buf 0 4 @ sub_slice buf 4 8 @ sub_slice buf 12 8 @ sub_slice buf 20 1 @ sub_slice buf 21 4 @ sub_slice buf 25 2"
      using take_sub_slice [of 0 4 buf] take_sub_slice [of 4 8 buf] take_sub_slice [of 12 8 buf] take_sub_slice [of 20 1 buf]
        take_sub_slice [of 21 4 buf] take_sub_slice [of 25 2 buf] by simp
    also have "sub_slice buf 20 1 = [entry_type_byte t]"
      using len a(4) sub_slice_Suc [of 20 buf] by (simp add: entry_type_roundtrip)
    finally show ?thesis
      using len unfolding wal_head_def lens n
      by (simp add: a(8) u32_le.enc_dec u64_le.enc_dec u16_le.enc_dec)
  qed
  have "buf = take ?p buf @ sub_slice buf ?p 4 @ sub_slice buf (?p + 4) 4 @ drop (?p + 8) buf"
    by (rule split_trailer)
  moreover have "sub_slice buf ?p 4 = u32_le (crc (take ?p buf))"
    by (rule sub_slice_u32 [OF _ a(6)]) (use len in linarith)
  moreover have "sub_slice buf (?p + 4) 4 = u32_le (word_of_nat n)"
    by (rule sub_slice_u32) (use len in linarith, simp flip: a(7))
  moreover have "serialized_len e \<le> n" using a(5) lens by (simp add: serialized_len_def MIN_ENTRY_LEN_def)
  moreover have "n < 2 ^ 32" using a(1) unsigned_less [of ?n, where ?'a = nat] by simp
  ultimately show ?thesis
    using kl lens a(2) unfolding framed_def head by metis
qed

lemma framed_from_bytes:
  assumes "framed crc buf e n" shows "from_bytes crc buf = Inr (e, n)"
proof -
  from assms obtain rest where buf: "buf = wal_head (word_of_nat n) e @
      u32_le (crc (wal_head (word_of_nat n) e)) @ u32_le (word_of_nat n) @ rest"
    and b: "length (we_key e) < 2 ^ 16" "serialized_len e \<le> n" "n \<le> length buf" "n < 2 ^ 32"
    by (auto simp: framed_def)
  define H where "H = wal_head (word_of_nat n) e"
  have bounds: "length (we_old_value e) < 2 ^ 32" "length (we_new_value e) < 2 ^ 32" "43 \<le> n"
    "43 + length (we_key e) + length (we_old_value e) + length (we_new_value e) \<le> n"
    using b by (simp_all add: serialized_len_def MIN_ENTRY_LEN_def)
  note u = unat_word_of_nat32 [OF b(4)] unat_len_u16 [OF b(1)] unat_word_of_nat32 [OF bounds(1)]
    unat_word_of_nat32 [OF bounds(2)]
  let ?k = "length (we_key e)" and ?o = "length (we_old_value e)" and ?v = "length (we_new_value e)"
  have f: "sub_slice buf 0 4 = u32_le (word_of_nat n)" "sub_slice buf 4 8 = u64_le (we_lsn e)"
      "sub_slice buf 12 8 = u64_le (we_txn_id e)" "buf ! 20 = entry_type_byte (we_type e)"
      "sub_slice buf 21 4 = u32_le (we_table_id e)" "sub_slice buf 25 2 = u16_le (word_of_nat ?k)"
      "sub_slice buf 27 ?k = we_key e" "sub_slice buf (27 + ?k) 4 = u32_le (word_of_nat ?o)"
      "sub_slice buf (27 + ?k + 4) ?o = we_old_value e"
      "sub_slice buf (27 + ?k + 4 + ?o) 4 = u32_le (word_of_nat ?v)"
      "sub_slice buf (27 + ?k + 4 + ?o + 4) ?v = we_new_value e"
    by (simp_all add: buf wal_head_def sub_slice_def nth_append drop_Cons')
  have P: "27 + ?k + 4 + ?o + 4 + ?v = length H" by (simp add: H_def wal_head_def)
  have g: "take (length H) buf = H" "sub_slice buf (length H) 4 = u32_le (crc H)"
      "sub_slice buf (length H + 4) 4 = u32_le (word_of_nat n)"
    by (simp_all add: buf sub_slice_def flip: H_def)
  have "length H + 8 \<le> n" using b(2) by (simp add: H_def length_wal_head)
  moreover have t: "entry_type_try_from (entry_type_byte (we_type e)) = Inr (we_type e)"
    by (simp add: entry_type_roundtrip)
  moreover have "\<not> length buf < 4" "\<not> length buf < n" using bounds(3) b(3) by simp_all
  ultimately show ?thesis
    using bounds P [symmetric]
    unfolding from_bytes_def Let_def FIXED_HEADER_def MIN_ENTRY_LEN_def f u32_le.dec_enc u64_le.dec_enc
      u16_le.dec_enc u t ebind_simps P g
    by simp
qed

lemma from_bytes_iff: "from_bytes crc buf = Inr (e, n) \<longleftrightarrow> framed crc buf e n"
  using from_bytes_framed framed_from_bytes by blast

lemma framed_to_bytes: "wal_entry_ok e \<Longrightarrow> framed crc (to_bytes crc e @ rest) e (serialized_len e)"
  using length_wal_head [of "word_of_nat (serialized_len e)" e]
  by (auto simp: framed_def wal_entry_ok_def to_bytes_head)

lemma from_bytes_to_bytes:
  "wal_entry_ok e \<Longrightarrow> from_bytes crc (to_bytes crc e @ rest) = Inr (e, serialized_len e)"
  by (simp add: from_bytes_iff framed_to_bytes)

lemma to_bytes_len_field: "take 4 (to_bytes crc e) = u32_le (word_of_nat (serialized_len e))"
  by (simp add: to_bytes_def Let_def)

lemma serialized_len_min: "43 \<le> serialized_len e"
  by (simp add: serialized_len_def MIN_ENTRY_LEN_def)

lemma from_bytes_prefix:
  assumes "wal_entry_ok e" "k < serialized_len e"
  shows "from_bytes crc (take k (to_bytes crc e)) = Inl (WalEntryTruncated 0)"
proof (cases "k < 4")
  case True
  then have "length (take k (to_bytes crc e)) < 4" by simp
  then show ?thesis unfolding from_bytes_def by (simp only: if_True)
next
  case False
  then have "sub_slice (take k (to_bytes crc e)) 0 4 = u32_le (word_of_nat (serialized_len e))"
    using to_bytes_len_field [of crc e] by (simp add: sub_slice_def)
  moreover have "unat (word_of_nat (serialized_len e) :: u32) = serialized_len e"
    using assms(1) by (intro unat_word_of_nat32) (simp add: wal_entry_ok_def)
  moreover have "\<not> length (take k (to_bytes crc e)) < 4" "length (take k (to_bytes crc e)) < serialized_len e"
    using assms(2) False serialized_len_min [of e] by simp_all
  ultimately show ?thesis unfolding from_bytes_def Let_def by (simp only: u32_le.dec_enc if_True if_False)
qed

text \<open>C14: A log record whose lengths fit their length fields is read back exactly from its
  serialised form, whatever follows it, and the bytes consumed are its serialised length.
  Every strict prefix of the serialised form is reported as truncated. Both serialisers
  produce the same bytes.\<close>

theorem wal_entry_roundtrip:
  assumes "wal_entry_ok e"
  shows "from_bytes crc (to_bytes crc e @ rest) = Inr (e, serialized_len e) \<and>
    (\<forall>k < serialized_len e. from_bytes crc (take k (to_bytes crc e)) = Inl (WalEntryTruncated 0)) \<and>
    serialize_into crc e buf = buf @ to_bytes crc e"
  using assms from_bytes_to_bytes from_bytes_prefix serialize_into_append by auto

theorem wal_entry_roundtrip_witness:
  "from_bytes (\<lambda>_. 7) (to_bytes (\<lambda>_. 7) \<lparr>we_lsn = 3, we_txn_id = 9, we_type = Insert, we_table_id = 1,
      we_key = [1, 2], we_old_value = [], we_new_value = [5]\<rparr> @ [0, 0]) =
    Inr (\<lparr>we_lsn = 3, we_txn_id = 9, we_type = Insert, we_table_id = 1,
      we_key = [1, 2], we_old_value = [], we_new_value = [5]\<rparr>, 46)"
  by (subst wal_entry_roundtrip [THEN conjunct1])
    (simp_all add: wal_entry_ok_def serialized_len_def MIN_ENTRY_LEN_def)

subsection \<open>Records cut off by a crash\<close>

lemma u32_le_nonzero: "w \<noteq> 0 \<Longrightarrow> u32_le w \<noteq> replicate 4 0"
  using u32_le.dec_enc [of w] by (auto simp: u32_of_le_def numeral_eq_Suc)

lemma wal_head_inj:
  assumes "wal_head n e @ xs = wal_head n' e' @ ys" "length (we_key e) < 2 ^ 16" "length (we_key e') < 2 ^ 16"
    "serialized_len e < 2 ^ 32" "serialized_len e' < 2 ^ 32"
  shows "n = n' \<and> e = e' \<and> xs = ys"
proof -
  have b: "length (we_old_value e) < 2 ^ 32" "length (we_old_value e') < 2 ^ 32"
    "length (we_new_value e) < 2 ^ 32" "length (we_new_value e') < 2 ^ 32"
    using assms(4,5) by (simp_all add: serialized_len_def)
  have c: "word_of_nat a = (word_of_nat b :: u32) \<longleftrightarrow> a = b" if "a < 2 ^ 32" "b < 2 ^ 32" for a b
    using that by (metis unat_word_of_nat32)
  have d: "word_of_nat a = (word_of_nat b :: u16) \<longleftrightarrow> a = b" if "a < 2 ^ 16" "b < 2 ^ 16" for a b
    using that by (metis unat_len_u16)
  have t: "entry_type_byte a = entry_type_byte b \<longleftrightarrow> a = b" for a b
    by (metis entry_type_roundtrip sum.inject(2))
  from assms(1) have "n = n'" "we_lsn e = we_lsn e'" "we_txn_id e = we_txn_id e'" "we_type e = we_type e'"
    "we_table_id e = we_table_id e'" "length (we_key e) = length (we_key e')"
    using assms(2,3) by (auto simp: wal_head_def t d)
  with assms(1) have "we_key e = we_key e'" "length (we_old_value e) = length (we_old_value e')"
    using b by (auto simp: wal_head_def c)
  with assms(1) \<open>length (we_key e) = length (we_key e')\<close>
  have "we_old_value e = we_old_value e'" "length (we_new_value e) = length (we_new_value e')"
    using b by (auto simp: wal_head_def c)
  with assms(1) \<open>we_key e = we_key e'\<close> \<open>n = n'\<close> \<open>we_lsn e = we_lsn e'\<close> \<open>we_txn_id e = we_txn_id e'\<close>
    \<open>we_type e = we_type e'\<close> \<open>we_table_id e = we_table_id e'\<close>
  show ?thesis by (auto simp: wal_head_def)
qed


text \<open>A record of which only a prefix reached a zero-filled file is accepted only if the missing bytes
  are zero themselves: the length copy at its end cannot be zero.\<close>

lemma torn_record:
  assumes "wal_entry_ok e" "k \<le> serialized_len e"
    "from_bytes crc (take k (to_bytes crc e) @ replicate m 0) = Inr (e', n)" (is "from_bytes crc ?t = _")
  shows "e' = e \<and> n = serialized_len e \<and> take (serialized_len e) (take k (to_bytes crc e) @ replicate m 0) = to_bytes crc e"
proof -
  let ?B = "to_bytes crc e"
  define H where "H = wal_head (word_of_nat n) e'"
  from assms(3) obtain rest where t: "?t = H @ u32_le (crc H) @ u32_le (word_of_nat n) @ rest"
    and b: "length (we_key e') < 2 ^ 16" "serialized_len e' \<le> n" "n < 2 ^ 32"
    by (auto simp: from_bytes_iff framed_def H_def)
  have kB: "length (take k ?B) = k" using assms(2) by simp
  have n0: "(word_of_nat n :: u32) \<noteq> 0"
    using unat_word_of_nat32 [OF b(3)] b(2) serialized_len_min [of e'] by (metis le_zero_eq not_numeral_le_zero order_trans unat_0)
  have big: "length H + 4 < k"
  proof (rule ccontr)
    assume "\<not> length H + 4 < k"
    then have "drop (length H + 4) ?t = drop (length H + 4 - k) (replicate m 0)" using kB by simp
    moreover have "drop (length H + 4) ?t = u32_le (word_of_nat n) @ rest" unfolding t by simp
    ultimately have "u32_le (word_of_nat n) = take 4 (replicate (m - (length H + 4 - k)) 0)" by (metis drop_replicate u32_le.take_enc)
    moreover have "length (u32_le (word_of_nat n)) = 4" by simp
    ultimately have "u32_le (word_of_nat n) = replicate 4 0" by (metis length_replicate take_replicate)
    with u32_le_nonzero n0 show False by blast
  qed
  then have pre: "take (length H + 4) ?t = take (length H + 4) ?B" using kB by simp
  have "H @ u32_le (crc H) = take (length H + 4) ?t" unfolding t by simp
  then have "?B = H @ u32_le (crc H) @ drop (length H + 4) ?B" using pre by (metis append_assoc append_take_drop_id)
  then have "wal_head (word_of_nat n) e' @ (u32_le (crc H) @ drop (length H + 4) ?B) =
      wal_head (word_of_nat (serialized_len e)) e @ u32_le (crc (wal_head (word_of_nat (serialized_len e)) e)) @
        u32_le (word_of_nat (serialized_len e))"
    by (simp add: H_def to_bytes_head)
  from wal_head_inj [OF this b(1)] assms(1) b(2,3)
  have e: "word_of_nat n = (word_of_nat (serialized_len e) :: u32)" "e' = e" by (auto simp: wal_entry_ok_def)
  then have n: "n = serialized_len e"
    using unat_word_of_nat32 [OF b(3)] unat_word_of_nat32 [of "serialized_len e"] assms(1) by (simp add: wal_entry_ok_def)
  have "take (length H + 8) ?t = H @ u32_le (crc H) @ u32_le (word_of_nat n)" unfolding t by simp
  then show ?thesis using e n length_wal_head [of "word_of_nat n" e'] by (simp add: H_def to_bytes_head)
qed

end
