(* ===== verification/Page_Layout.thy ===== *)
theory Page_Layout
  imports Axiom_Prelude
begin

text \<open>
  \<open>axiomdb-storage/src/page.rs\<close>: the 16 KiB page, a raw byte buffer whose first 64 bytes are
  the header. The header is \<open>repr(C)\<close> and read through a pointer cast; the model reads and
  writes its fields at their offsets in little-endian order. The checksum function
  \<open>crc32c\<close> comes from another crate and is a parameter.
\<close>

type_synonym page = mem

type_synonym checksum = "u8 list \<Rightarrow> u32"

definition PAGE_SIZE :: nat where "PAGE_SIZE = 16384"

definition HEADER_SIZE :: nat where "HEADER_SIZE = 64"

definition PAGE_MAGIC :: u64 where "PAGE_MAGIC = 0x4158494F4D444200"

definition PAGE_FLAG_ALL_VISIBLE :: u8 where "PAGE_FLAG_ALL_VISIBLE = 0x01"

datatype page_type = Meta | Data | Index | Overflow | Free | ClusteredLeaf | ClusteredInternal

primrec page_type_byte :: "page_type \<Rightarrow> u8" where
  "page_type_byte Meta = 0"
| "page_type_byte Data = 1"
| "page_type_byte Index = 2"
| "page_type_byte Overflow = 3"
| "page_type_byte Free = 4"
| "page_type_byte ClusteredLeaf = 5"
| "page_type_byte ClusteredInternal = 6"

definition page_type_try_from :: "u8 \<Rightarrow> db_error + page_type" where
  "page_type_try_from v =
     (if v = 0 then Inr Meta else if v = 1 then Inr Data else if v = 2 then Inr Index
      else if v = 3 then Inr Overflow else if v = 4 then Inr Free
      else if v = 5 then Inr ClusteredLeaf else if v = 6 then Inr ClusteredInternal
      else Inl (ParseError ''unknown page_type''))"

subsection \<open>Fixed-width fields\<close>

definition get_u16 :: "mem \<Rightarrow> nat \<Rightarrow> u16" where "get_u16 m off = u16_of_le (read_bytes m off 2)"
definition get_u32 :: "mem \<Rightarrow> nat \<Rightarrow> u32" where "get_u32 m off = u32_of_le (read_bytes m off 4)"
definition get_u64 :: "mem \<Rightarrow> nat \<Rightarrow> u64" where "get_u64 m off = u64_of_le (read_bytes m off 8)"

definition put_u8 :: "mem \<Rightarrow> nat \<Rightarrow> u8 \<Rightarrow> mem" where "put_u8 m off w = write_bytes m off [w]"
definition put_u16 :: "mem \<Rightarrow> nat \<Rightarrow> u16 \<Rightarrow> mem" where "put_u16 m off w = write_bytes m off (u16_le w)"
definition put_u32 :: "mem \<Rightarrow> nat \<Rightarrow> u32 \<Rightarrow> mem" where "put_u32 m off w = write_bytes m off (u32_le w)"
definition put_u64 :: "mem \<Rightarrow> nat \<Rightarrow> u64 \<Rightarrow> mem" where "put_u64 m off w = write_bytes m off (u64_le w)"

lemmas put_defs = put_u8_def put_u16_def put_u32_def put_u64_def

lemma get_same [simp]:
  "get_u16 (put_u16 m off v) off = v"
  "get_u32 (put_u32 m off w) off = w"
  "get_u64 (put_u64 m off x) off = x"
  by (simp_all add: get_u16_def get_u32_def get_u64_def put_defs read_write_same)

lemma put_u8_same [simp]: "put_u8 m off w off = w"
  by (simp add: put_u8_def write_bytes_def)

lemma read_put_other:
  "off + n \<le> off' \<or> off' + 1 \<le> off \<Longrightarrow> read_bytes (put_u8 m off' b) off n = read_bytes m off n"
  "off + n \<le> off' \<or> off' + 2 \<le> off \<Longrightarrow> read_bytes (put_u16 m off' v) off n = read_bytes m off n"
  "off + n \<le> off' \<or> off' + 4 \<le> off \<Longrightarrow> read_bytes (put_u32 m off' w) off n = read_bytes m off n"
  "off + n \<le> off' \<or> off' + 8 \<le> off \<Longrightarrow> read_bytes (put_u64 m off' x) off n = read_bytes m off n"
  by (simp_all add: put_defs read_write_other)

lemma byte_put_other:
  "off \<noteq> off' \<Longrightarrow> put_u8 m off' b off = m off"
  "off + 1 \<le> off' \<or> off' + 2 \<le> off \<Longrightarrow> put_u16 m off' v off = m off"
  "off + 1 \<le> off' \<or> off' + 4 \<le> off \<Longrightarrow> put_u32 m off' w off = m off"
  "off + 1 \<le> off' \<or> off' + 8 \<le> off \<Longrightarrow> put_u64 m off' x off = m off"
  by (auto simp: put_defs write_bytes_def)

text \<open>A field is unaffected by a write elsewhere.\<close>

lemma get_write_other:
  "off + 2 \<le> off' \<or> off' + length bs \<le> off \<Longrightarrow> get_u16 (write_bytes m off' bs) off = get_u16 m off"
  "off + 4 \<le> off' \<or> off' + length bs \<le> off \<Longrightarrow> get_u32 (write_bytes m off' bs) off = get_u32 m off"
  "off + 8 \<le> off' \<or> off' + length bs \<le> off \<Longrightarrow> get_u64 (write_bytes m off' bs) off = get_u64 m off"
  by (simp_all add: get_u16_def get_u32_def get_u64_def read_write_other)

lemma get_put_other:
  "off + 2 \<le> off' \<or> off' + 1 \<le> off \<Longrightarrow> get_u16 (put_u8 m off' b) off = get_u16 m off"
  "off + 2 \<le> off' \<or> off' + 2 \<le> off \<Longrightarrow> get_u16 (put_u16 m off' v) off = get_u16 m off"
  "off + 2 \<le> off' \<or> off' + 4 \<le> off \<Longrightarrow> get_u16 (put_u32 m off' w) off = get_u16 m off"
  "off + 2 \<le> off' \<or> off' + 8 \<le> off \<Longrightarrow> get_u16 (put_u64 m off' x) off = get_u16 m off"
  "off + 4 \<le> off' \<or> off' + 1 \<le> off \<Longrightarrow> get_u32 (put_u8 m off' b) off = get_u32 m off"
  "off + 4 \<le> off' \<or> off' + 2 \<le> off \<Longrightarrow> get_u32 (put_u16 m off' v) off = get_u32 m off"
  "off + 4 \<le> off' \<or> off' + 4 \<le> off \<Longrightarrow> get_u32 (put_u32 m off' w) off = get_u32 m off"
  "off + 4 \<le> off' \<or> off' + 8 \<le> off \<Longrightarrow> get_u32 (put_u64 m off' x) off = get_u32 m off"
  "off + 8 \<le> off' \<or> off' + 1 \<le> off \<Longrightarrow> get_u64 (put_u8 m off' b) off = get_u64 m off"
  "off + 8 \<le> off' \<or> off' + 2 \<le> off \<Longrightarrow> get_u64 (put_u16 m off' v) off = get_u64 m off"
  "off + 8 \<le> off' \<or> off' + 4 \<le> off \<Longrightarrow> get_u64 (put_u32 m off' w) off = get_u64 m off"
  "off + 8 \<le> off' \<or> off' + 8 \<le> off \<Longrightarrow> get_u64 (put_u64 m off' x) off = get_u64 m off"
  by (simp_all add: put_defs get_write_other)

lemmas page_simps = get_put_other get_write_other read_put_other byte_put_other

subsection \<open>The header\<close>

definition hdr_magic :: "page \<Rightarrow> u64" where "hdr_magic p = get_u64 p 0"
definition hdr_page_type :: "page \<Rightarrow> u8" where "hdr_page_type p = p 8"
definition hdr_flags :: "page \<Rightarrow> u8" where "hdr_flags p = p 9"
definition hdr_item_count :: "page \<Rightarrow> u16" where "hdr_item_count p = get_u16 p 10"
definition hdr_checksum :: "page \<Rightarrow> u32" where "hdr_checksum p = get_u32 p 12"
definition hdr_page_id :: "page \<Rightarrow> u64" where "hdr_page_id p = get_u64 p 16"
definition hdr_lsn :: "page \<Rightarrow> u64" where "hdr_lsn p = get_u64 p 24"
definition hdr_free_start :: "page \<Rightarrow> u16" where "hdr_free_start p = get_u16 p 32"
definition hdr_free_end :: "page \<Rightarrow> u16" where "hdr_free_end p = get_u16 p 34"

lemmas hdr_defs = hdr_magic_def hdr_page_type_def hdr_flags_def hdr_item_count_def hdr_checksum_def
  hdr_page_id_def hdr_lsn_def hdr_free_start_def hdr_free_end_def

definition page_body :: "page \<Rightarrow> u8 list" where
  "page_body p = read_bytes p HEADER_SIZE (PAGE_SIZE - HEADER_SIZE)"

definition update_checksum :: "checksum \<Rightarrow> page \<Rightarrow> page" where
  "update_checksum crc p = put_u32 p 12 (crc (page_body p))"

definition verify_checksum :: "checksum \<Rightarrow> page \<Rightarrow> db_error + unit" where
  "verify_checksum crc p =
     (let expected = hdr_checksum p; got = crc (page_body p)
      in if expected \<noteq> got then Inl (ChecksumMismatch (hdr_page_id p) expected got) else Inr ())"

definition page_new :: "checksum \<Rightarrow> page_type \<Rightarrow> page_id \<Rightarrow> page" where
  "page_new crc ty pid =
     (let p = (\<lambda>_. 0);
          p = put_u64 p 0 PAGE_MAGIC;
          p = put_u8 p 8 (page_type_byte ty);
          p = put_u8 p 9 0;
          p = put_u16 p 10 0;
          p = put_u64 p 16 pid;
          p = put_u64 p 24 0;
          p = put_u16 p 32 (word_of_nat HEADER_SIZE);
          p = put_u16 p 34 (word_of_nat PAGE_SIZE);
          p = write_bytes p 36 (replicate 28 0)
      in update_checksum crc p)"

definition page_from_bytes :: "checksum \<Rightarrow> page \<Rightarrow> db_error + page" where
  "page_from_bytes crc p =
     (let magic = hdr_magic p in
      if magic \<noteq> PAGE_MAGIC then Inl (ChecksumMismatch (hdr_page_id p) (ucast PAGE_MAGIC) (ucast magic))
      else ebind (verify_checksum crc p) (\<lambda>_. Inr p))"

definition is_all_visible :: "page \<Rightarrow> bool" where
  "is_all_visible p \<longleftrightarrow> hdr_flags p AND PAGE_FLAG_ALL_VISIBLE \<noteq> 0"

definition set_all_visible :: "page \<Rightarrow> page" where
  "set_all_visible p = put_u8 p 9 (hdr_flags p OR PAGE_FLAG_ALL_VISIBLE)"

definition clear_all_visible :: "page \<Rightarrow> page" where
  "clear_all_visible p = put_u8 p 9 (hdr_flags p AND NOT PAGE_FLAG_ALL_VISIBLE)"

lemma page_type_roundtrip: "page_type_try_from (page_type_byte t) = Inr t"
  by (cases t) (simp_all add: page_type_try_from_def)

lemma page_type_from_byte: "page_type_try_from v = Inr t \<Longrightarrow> page_type_byte t = v"
  by (auto simp: page_type_try_from_def split: if_splits)

text \<open>The checksum and the flags lie outside the part of the page the checksum covers.\<close>

lemma page_body_simps [simp]:
  "off + 4 \<le> 64 \<Longrightarrow> page_body (put_u32 p off w) = page_body p"
  "off + 1 \<le> 64 \<Longrightarrow> page_body (put_u8 p off b) = page_body p"
  "off + 2 \<le> 64 \<Longrightarrow> page_body (put_u16 p off v) = page_body p"
  by (simp_all add: page_body_def HEADER_SIZE_def page_simps)

lemma verify_updated [simp]: "verify_checksum crc (update_checksum crc p) = Inr ()"
  by (simp add: verify_checksum_def update_checksum_def hdr_checksum_def)

lemma update_checksum_read [simp]:
  "off + n \<le> 12 \<or> 16 \<le> off \<Longrightarrow> read_bytes (update_checksum crc p) off n = read_bytes p off n"
  by (simp add: update_checksum_def page_simps)

lemma update_checksum_hdr [simp]:
  "hdr_magic (update_checksum crc p) = hdr_magic p"
  "hdr_page_type (update_checksum crc p) = hdr_page_type p"
  "hdr_flags (update_checksum crc p) = hdr_flags p"
  "hdr_item_count (update_checksum crc p) = hdr_item_count p"
  "hdr_page_id (update_checksum crc p) = hdr_page_id p"
  "hdr_lsn (update_checksum crc p) = hdr_lsn p"
  "hdr_free_start (update_checksum crc p) = hdr_free_start p"
  "hdr_free_end (update_checksum crc p) = hdr_free_end p"
  by (simp_all add: update_checksum_def hdr_defs page_simps)

lemma clear_all_visible_hdr [simp]:
  "hdr_magic (clear_all_visible p) = hdr_magic p"
  "hdr_page_type (clear_all_visible p) = hdr_page_type p"
  "hdr_item_count (clear_all_visible p) = hdr_item_count p"
  "hdr_checksum (clear_all_visible p) = hdr_checksum p"
  "hdr_page_id (clear_all_visible p) = hdr_page_id p"
  "hdr_lsn (clear_all_visible p) = hdr_lsn p"
  "hdr_free_start (clear_all_visible p) = hdr_free_start p"
  "hdr_free_end (clear_all_visible p) = hdr_free_end p"
  by (simp_all add: clear_all_visible_def hdr_defs page_simps)

lemma clear_all_visible_read [simp]:
  "off + n \<le> 9 \<or> 10 \<le> off \<Longrightarrow> read_bytes (clear_all_visible p) off n = read_bytes p off n"
  by (simp add: clear_all_visible_def page_simps)

lemma clear_all_visible_clears: "\<not> is_all_visible (clear_all_visible p)"
  by (simp add: is_all_visible_def clear_all_visible_def hdr_flags_def PAGE_FLAG_ALL_VISIBLE_def)
    (simp add: and.assoc)

lemma page_new_hdr:
  "hdr_magic (page_new crc ty pid) = PAGE_MAGIC"
  "hdr_page_type (page_new crc ty pid) = page_type_byte ty"
  "hdr_flags (page_new crc ty pid) = 0"
  "hdr_item_count (page_new crc ty pid) = 0"
  "hdr_page_id (page_new crc ty pid) = pid"
  "hdr_lsn (page_new crc ty pid) = 0"
  "hdr_free_start (page_new crc ty pid) = 64"
  "hdr_free_end (page_new crc ty pid) = 16384"
  unfolding page_new_def Let_def update_checksum_hdr
  by (simp_all add: hdr_defs page_simps write_bytes_outside HEADER_SIZE_def PAGE_SIZE_def)

lemma page_new_verify: "verify_checksum crc (page_new crc ty pid) = Inr ()"
  by (simp add: page_new_def Let_def)

text \<open>A page written to disk reads back: \<open>from_bytes\<close> accepts a page with the right magic
  exactly when its stored checksum is that of its body, so it accepts every new page and every
  page after \<open>update_checksum\<close>, and it reports the stored and the computed checksum otherwise.\<close>

lemma page_from_bytes_iff:
  assumes "hdr_magic p = PAGE_MAGIC"
  shows "page_from_bytes crc (update_checksum crc p) = Inr (update_checksum crc p) \<and>
    page_from_bytes crc (page_new crc ty pid) = Inr (page_new crc ty pid) \<and>
    page_from_bytes crc p =
      (if hdr_checksum p = crc (page_body p) then Inr p
       else Inl (ChecksumMismatch (hdr_page_id p) (hdr_checksum p) (crc (page_body p))))"
  by (simp add: page_from_bytes_def assms page_new_hdr page_new_verify)
    (simp add: verify_checksum_def)

end
