(* ===== verification/Mvcc.thy ===== *)
theory Mvcc
  imports Axiom_Prelude
begin

text \<open>
  Snapshots and row visibility: \<open>TransactionSnapshot\<close> and \<open>IsolationLevel\<close> of
  \<open>axiomdb-core/src/traits.rs\<close> and \<open>RowHeader\<close> of \<open>axiomdb-storage/src/heap.rs\<close>. Strings are
  lists of ASCII characters.
\<close>

subsection \<open>Snapshots and isolation levels\<close>

record transaction_snapshot =
  snapshot_id :: txn_id
  current_txn_id :: txn_id
  active_ids :: "txn_id set"

definition snapshot_committed :: "txn_id \<Rightarrow> transaction_snapshot" where
  "snapshot_committed max_committed =
     \<lparr>snapshot_id = saturating_add max_committed 1, current_txn_id = 0, active_ids = {}\<rparr>"

definition snapshot_active :: "txn_id \<Rightarrow> txn_id \<Rightarrow> transaction_snapshot" where
  "snapshot_active txn max_committed_at_start =
     \<lparr>snapshot_id = saturating_add max_committed_at_start 1, current_txn_id = txn, active_ids = {}\<rparr>"

datatype isolation_level = ReadCommitted | RepeatableRead | Serializable

primrec as_mysql_str :: "isolation_level \<Rightarrow> string" where
  "as_mysql_str ReadCommitted = ''READ-COMMITTED''"
| "as_mysql_str RepeatableRead = ''REPEATABLE-READ''"
| "as_mysql_str Serializable = ''SERIALIZABLE''"

definition is_ascii_space :: "char \<Rightarrow> bool" where
  "is_ascii_space c \<longleftrightarrow> c \<in> set [CHR 0x09, CHR 0x0A, CHR 0x0B, CHR 0x0C, CHR 0x0D, CHR '' '']"

definition str_trim :: "string \<Rightarrow> string" where
  "str_trim s = rev (dropWhile is_ascii_space (rev (dropWhile is_ascii_space s)))"

definition to_ascii_uppercase :: "char \<Rightarrow> char" where
  "to_ascii_uppercase c =
     (if of_char CHR ''a'' \<le> (of_char c :: nat) \<and> of_char c \<le> (of_char CHR ''z'' :: nat)
      then char_of ((of_char c :: nat) - 32) else c)"

definition isolation_parse :: "string \<Rightarrow> isolation_level option" where
  "isolation_parse s =
     (let normalized = map (\<lambda>c. to_ascii_uppercase (if c = CHR ''-'' \<or> c = CHR ''_'' then CHR '' '' else c))
            (str_trim s)
      in if normalized = ''READ UNCOMMITTED'' \<or> normalized = ''READ COMMITTED'' then Some ReadCommitted
         else if normalized = ''REPEATABLE READ'' then Some RepeatableRead
         else if normalized = ''SERIALIZABLE'' then Some Serializable
         else None)"

primrec uses_frozen_snapshot :: "isolation_level \<Rightarrow> bool" where
  "uses_frozen_snapshot ReadCommitted = False"
| "uses_frozen_snapshot RepeatableRead = True"
| "uses_frozen_snapshot Serializable = True"

lemma isolation_roundtrip: "isolation_parse (as_mysql_str l) = Some l"
  by (cases l) (simp_all add: isolation_parse_def str_trim_def is_ascii_space_def to_ascii_uppercase_def)

subsection \<open>Row headers\<close>

record row_header =
  txn_id_created :: txn_id
  txn_id_deleted :: txn_id
  row_version :: u32
  row_flags :: u32

definition is_visible :: "row_header \<Rightarrow> transaction_snapshot \<Rightarrow> bool" where
  "is_visible h snap =
     (let created_by_self = current_txn_id snap \<noteq> 0 \<and> txn_id_created h = current_txn_id snap;
          created_committed = txn_id_created h < snapshot_id snap \<and> txn_id_created h \<notin> active_ids snap
      in if \<not> created_by_self \<and> \<not> created_committed then False
         else if txn_id_deleted h = 0 then True
         else if current_txn_id snap \<noteq> 0 \<and> txn_id_deleted h = current_txn_id snap then False
         else snapshot_id snap \<le> txn_id_deleted h \<or> txn_id_deleted h \<in> active_ids snap)"

subsection \<open>Visibility as a property of transactions\<close>

text \<open>The transactions whose effects a snapshot contains: its own, and those that had committed
  when it was taken.\<close>

definition in_snapshot :: "transaction_snapshot \<Rightarrow> txn_id \<Rightarrow> bool" where
  "in_snapshot snap t \<longleftrightarrow>
     (current_txn_id snap \<noteq> 0 \<and> t = current_txn_id snap) \<or> (t < snapshot_id snap \<and> t \<notin> active_ids snap)"

lemma is_visible_in_snapshot:
  "is_visible h snap \<longleftrightarrow>
     in_snapshot snap (txn_id_created h) \<and> (txn_id_deleted h = 0 \<or> \<not> in_snapshot snap (txn_id_deleted h))"
  by (auto simp: is_visible_def in_snapshot_def Let_def)

text \<open>The versions of one row: each is deleted by the transaction that created the next, the last
  one is live.\<close>

fun version_chain :: "row_header list \<Rightarrow> bool" where
  "version_chain [] = False"
| "version_chain [h] = (txn_id_deleted h = 0)"
| "version_chain (h # h' # hs) =
     (txn_id_deleted h \<noteq> 0 \<and> txn_id_deleted h = txn_id_created h' \<and> version_chain (h' # hs))"

lemma version_chain_nth:
  "version_chain hs \<Longrightarrow> i < length hs \<Longrightarrow>
     (if Suc i = length hs then txn_id_deleted (hs ! i) = 0
      else txn_id_deleted (hs ! i) \<noteq> 0 \<and> txn_id_deleted (hs ! i) = txn_id_created (hs ! Suc i))"
proof (induction hs arbitrary: i rule: version_chain.induct)
  case (3 h h' hs)
  show ?case
  proof (cases i)
    case (Suc j)
    with "3.IH" [of j] "3.prems" show ?thesis by auto
  qed (use "3.prems" in auto)
qed auto

text \<open>A visible version ends the part of the chain the snapshot contains.\<close>

lemma visible_version_iff:
  assumes "version_chain hs" "i < length hs"
  shows "is_visible (hs ! i) snap \<longleftrightarrow> in_snapshot snap (txn_id_created (hs ! i)) \<and>
    (Suc i < length hs \<longrightarrow> \<not> in_snapshot snap (txn_id_created (hs ! Suc i)))"
  using version_chain_nth [OF assms] assms(2)
  by (auto simp: is_visible_in_snapshot split: if_splits)

text \<open>C13: Updates are atomic for readers. Take the versions of a row, each deleted by the
  transaction that created the next one, and a snapshot in which a version is included only if
  all earlier ones are. If the snapshot contains the first version, it sees exactly one
  version, the last one it contains.\<close>

theorem exactly_one_version_visible:
  assumes "version_chain hs" "in_snapshot snap (txn_id_created (hs ! 0))"
    "\<And>i. Suc i < length hs \<Longrightarrow> in_snapshot snap (txn_id_created (hs ! Suc i)) \<Longrightarrow>
       in_snapshot snap (txn_id_created (hs ! i))"
  shows "(\<exists>!i. i < length hs \<and> is_visible (hs ! i) snap) \<and>
    (\<forall>i < length hs. is_visible (hs ! i) snap \<longrightarrow>
       (\<forall>j < length hs. in_snapshot snap (txn_id_created (hs ! j)) \<longleftrightarrow> j \<le> i))"
proof -
  let ?c = "\<lambda>i. i < length hs \<and> in_snapshot snap (txn_id_created (hs ! i))"
  have pos: "0 < length hs" using assms(1) by (cases hs) auto
  have down: "?c j" if "?c i" "j \<le> i" for i j
    using that by (induction i) (auto simp: le_Suc_eq dest: assms(3))
  define k where "k = Max {i. ?c i}"
  have fin: "finite {i. ?c i}" by (rule finite_subset [of _ "{..<length hs}"]) auto
  have "k \<in> {i. ?c i}" unfolding k_def by (rule Max_in [OF fin]) (use pos assms(2) in auto)
  then have k: "?c k" by simp
  have max: "i \<le> k" if "?c i" for i using Max_ge [OF fin, of i] that by (simp add: k_def)
  have vis: "is_visible (hs ! i) snap \<longleftrightarrow> i = k" if "i < length hs" for i
  proof -
    have "is_visible (hs ! i) snap \<longleftrightarrow> ?c i \<and> \<not> ?c (Suc i)"
      using visible_version_iff [OF assms(1) that] that by auto
    also have "\<dots> \<longleftrightarrow> i = k"
    proof
      assume c: "?c i \<and> \<not> ?c (Suc i)"
      have "\<not> Suc i \<le> k" using c down [OF k, of "Suc i"] by blast
      moreover have "i \<le> k" using c max by blast
      ultimately show "i = k" by linarith
    next
      assume "i = k"
      then show "?c i \<and> \<not> ?c (Suc i)" using k max [of "Suc k"] by auto
    qed
    finally show ?thesis .
  qed
  then have "\<exists>!i. i < length hs \<and> is_visible (hs ! i) snap" using k by blast
  moreover have "in_snapshot snap (txn_id_created (hs ! j)) \<longleftrightarrow> j \<le> k" if "j < length hs" for j
    using that max down [OF k] by blast
  ultimately show ?thesis using vis by simp
qed

definition demo_chain :: "row_header list" where
  "demo_chain =
     [\<lparr>txn_id_created = 3, txn_id_deleted = 5, row_version = 0, row_flags = 0\<rparr>,
      \<lparr>txn_id_created = 5, txn_id_deleted = 9, row_version = 0, row_flags = 0\<rparr>,
      \<lparr>txn_id_created = 9, txn_id_deleted = 0, row_version = 0, row_flags = 0\<rparr>]"

theorem exactly_one_version_visible_witness:
  "\<exists>!i. i < length demo_chain \<and> is_visible (demo_chain ! i) (snapshot_committed 7)"
  by (rule exactly_one_version_visible [THEN conjunct1])
    (auto simp: demo_chain_def snapshot_committed_def in_snapshot_def saturating_add_def less_Suc_eq)

end
