(* ===== verification/Heap_Page.thy ===== *)
theory Heap_Page
  imports Page_Layout Mvcc
begin

text \<open>
  \<open>axiomdb-storage/src/heap.rs\<close>: the slotted heap page. The slot directory grows upwards from
  the header, tuples grow downwards from the end of the page. Mutating functions return the
  page they leave behind together with their result, also when they fail. Slices out of the
  page and misaligned header casts are \<open>Panic\<close>; so is a page whose free space is negative.
\<close>

subsection \<open>Row headers and slots as bytes\<close>

definition row_header_bytes :: "row_header \<Rightarrow> u8 list" where
  "row_header_bytes h =
     u64_le (txn_id_created h) @ u64_le (txn_id_deleted h) @ u32_le (row_version h) @ u32_le (row_flags h)"

definition row_header_of :: "u8 list \<Rightarrow> row_header" where
  "row_header_of bs =
     \<lparr>txn_id_created = u64_of_le (take 8 bs), txn_id_deleted = u64_of_le (take 8 (drop 8 bs)),
      row_version = u32_of_le (take 4 (drop 16 bs)), row_flags = u32_of_le (take 4 (drop 20 bs))\<rparr>"

record slot_entry =
  se_offset :: u16
  se_length :: u16

definition slot_bytes :: "slot_entry \<Rightarrow> u8 list" where
  "slot_bytes e = u16_le (se_offset e) @ u16_le (se_length e)"

definition slot_of :: "u8 list \<Rightarrow> slot_entry" where
  "slot_of bs = \<lparr>se_offset = u16_of_le (take 2 bs), se_length = u16_of_le (take 2 (drop 2 bs))\<rparr>"

definition is_dead :: "slot_entry \<Rightarrow> bool" where
  "is_dead e \<longleftrightarrow> se_offset e = 0 \<and> se_length e = 0"

definition num_slots :: "page \<Rightarrow> u16" where
  "num_slots p = hdr_item_count p"

definition slot_abs_offset :: "u16 \<Rightarrow> nat" where
  "slot_abs_offset i = HEADER_SIZE + unat i * 4"

definition read_slot :: "page \<Rightarrow> u16 \<Rightarrow> db_error + slot_entry" where
  "read_slot p i =
     (let off = slot_abs_offset i in
      if off + 4 \<le> PAGE_SIZE then Inr (slot_of (read_bytes p off 4)) else Inl Panic)"

definition write_slot :: "page \<Rightarrow> u16 \<Rightarrow> slot_entry \<Rightarrow> page" where
  "write_slot p i e = write_bytes p (slot_abs_offset i) (slot_bytes e)"

text \<open>\<open>(n + 7) & !7\<close>\<close>

definition align8 :: "nat \<Rightarrow> nat" where
  "align8 n = (n + 7) div 8 * 8"

definition free_space :: "page \<Rightarrow> db_error + nat" where
  "free_space p =
     (if hdr_free_end p < hdr_free_start p then Inl Panic
      else Inr (unat (hdr_free_end p) - unat (hdr_free_start p)))"

definition invalid_slot :: "page \<Rightarrow> u16 \<Rightarrow> db_error" where
  "invalid_slot p slot_id = InvalidSlot (hdr_page_id p) slot_id (num_slots p)"

definition already_deleted :: "page \<Rightarrow> u16 \<Rightarrow> db_error" where
  "already_deleted p slot_id = AlreadyDeleted (hdr_page_id p) slot_id"

subsection \<open>Insert and read\<close>

definition fresh_header :: "txn_id \<Rightarrow> row_header" where
  "fresh_header txn = \<lparr>txn_id_created = txn, txn_id_deleted = 0, row_version = 0, row_flags = 0\<rparr>"

definition insert_tuple :: "checksum \<Rightarrow> page \<Rightarrow> u8 list \<Rightarrow> txn_id \<Rightarrow> page \<times> (db_error + u16)" where
  "insert_tuple crc p data txn =
     (let tuple_len_actual = 24 + length data;
          tuple_len_alloc = align8 tuple_len_actual;
          need = 4 + tuple_len_alloc
      in case free_space p of
           Inl e \<Rightarrow> (p, Inl e)
         | Inr avail \<Rightarrow>
             if avail < need then (p, Inl (HeapPageFull (hdr_page_id p) need avail))
             else
               let new_free_end = hdr_free_end p - word_of_nat tuple_len_alloc;
                   tuple_abs = unat new_free_end;
                   slot_id = hdr_item_count p
               in if PAGE_SIZE < tuple_abs + tuple_len_actual \<or> PAGE_SIZE < slot_abs_offset slot_id + 4
                  then (p, Inl Panic)
                  else
                    let p1 = write_bytes p tuple_abs (row_header_bytes (fresh_header txn));
                        p2 = write_bytes p1 (tuple_abs + 24) data;
                        p3 = write_slot p2 slot_id
                          \<lparr>se_offset = new_free_end, se_length = word_of_nat tuple_len_actual\<rparr>;
                        p4 = put_u16 p3 10 (hdr_item_count p3 + 1);
                        p5 = put_u16 p4 32 (hdr_free_start p4 + 4);
                        p6 = put_u16 p5 34 new_free_end
                    in (update_checksum crc p6, Inr slot_id))"

text \<open>The header and the data of the tuple a live slot points to.\<close>

definition tuple_at :: "page \<Rightarrow> slot_entry \<Rightarrow> db_error + (row_header \<times> u8 list)" where
  "tuple_at p e =
     (let off = unat (se_offset e); len = unat (se_length e) in
      if PAGE_SIZE < off + len \<or> len < 24 \<or> off mod 8 \<noteq> 0 then Inl Panic
      else Inr (row_header_of (read_bytes p off 24), read_bytes p (off + 24) (len - 24)))"

definition read_tuple :: "page \<Rightarrow> u16 \<Rightarrow> db_error + (row_header \<times> u8 list) option" where
  "read_tuple p slot_id =
     (if num_slots p \<le> slot_id then Inl (invalid_slot p slot_id)
      else ebind (read_slot p slot_id) (\<lambda>e.
        if is_dead e then Inr None else ebind (tuple_at p e) (\<lambda>t. Inr (Some t))))"

definition read_tuple_image :: "page \<Rightarrow> u16 \<Rightarrow> db_error + u8 list option" where
  "read_tuple_image p slot_id =
     (if num_slots p \<le> slot_id then Inl (invalid_slot p slot_id)
      else ebind (read_slot p slot_id) (\<lambda>e.
        if is_dead e then Inr None
        else let off = unat (se_offset e); len = unat (se_length e) in
          if PAGE_SIZE < off + len then Inl Panic else Inr (Some (read_bytes p off len))))"

primrec capacity_loop :: "page \<Rightarrow> u16 \<Rightarrow> nat \<Rightarrow> u16 list \<Rightarrow> nat \<Rightarrow> db_error + nat" where
  "capacity_loop p slot_id start [] upper = Inr upper"
| "capacity_loop p slot_id start (other_slot # rest) upper =
     (if other_slot = slot_id then capacity_loop p slot_id start rest upper
      else ebind (read_slot p other_slot) (\<lambda>other.
        if is_dead other then capacity_loop p slot_id start rest upper
        else let other_off = unat (se_offset other) in
          capacity_loop p slot_id start rest
            (if other_off > start \<and> other_off < upper then other_off else upper)))"

definition slot_capacity :: "page \<Rightarrow> u16 \<Rightarrow> db_error + nat" where
  "slot_capacity p slot_id =
     (if num_slots p \<le> slot_id then Inl (invalid_slot p slot_id)
      else ebind (read_slot p slot_id) (\<lambda>e.
        if is_dead e then Inl (already_deleted p slot_id)
        else let start = unat (se_offset e) in
          ebind (capacity_loop p slot_id start (map word_of_nat [0..<unat (num_slots p)]) PAGE_SIZE)
            (\<lambda>upper. if upper < start then Inl Panic else Inr (upper - start))))"

definition read_tuple_header :: "page \<Rightarrow> u16 \<Rightarrow> db_error + txn_id option" where
  "read_tuple_header p slot_id =
     (if num_slots p \<le> slot_id then Inl (invalid_slot p slot_id)
      else ebind (read_slot p slot_id) (\<lambda>e.
        if is_dead e then Inr None
        else let field_abs = unat (se_offset e) + 8 in
          if PAGE_SIZE < field_abs + 8 then Inl Panic else Inr (Some (get_u64 p field_abs))))"

subsection \<open>Delete, rewrite, restore\<close>

text \<open>The slot checks most mutating functions start with; \<open>k\<close> receives the live entry.\<close>

definition with_live_slot ::
  "page \<Rightarrow> u16 \<Rightarrow> (slot_entry \<Rightarrow> page \<times> (db_error + 'a)) \<Rightarrow> page \<times> (db_error + 'a)" where
  "with_live_slot p slot_id k =
     (if num_slots p \<le> slot_id then (p, Inl (invalid_slot p slot_id))
      else case read_slot p slot_id of
             Inl e \<Rightarrow> (p, Inl e)
           | Inr e \<Rightarrow> if is_dead e then (p, Inl (already_deleted p slot_id)) else k e)"

definition mark_deleted :: "page \<Rightarrow> u16 \<Rightarrow> txn_id \<Rightarrow> page \<times> (db_error + unit)" where
  "mark_deleted p0 slot_id txn =
     (let p = clear_all_visible p0 in
      with_live_slot p slot_id (\<lambda>e.
        let field_abs = unat (se_offset e) + 8 in
        if PAGE_SIZE < field_abs + 8 then (p, Inl Panic) else (put_u64 p field_abs txn, Inr ())))"

definition delete_tuple :: "checksum \<Rightarrow> page \<Rightarrow> u16 \<Rightarrow> txn_id \<Rightarrow> page \<times> (db_error + unit)" where
  "delete_tuple crc p slot_id txn =
     (case mark_deleted p slot_id txn of
        (p', Inl e) \<Rightarrow> (p', Inl e)
      | (p', Inr _) \<Rightarrow> (update_checksum crc p', Inr ()))"

definition saturating_succ32 :: "u32 \<Rightarrow> u32" where
  "saturating_succ32 w = (if w = - 1 then w else w + 1)"

definition rewrite_no_checksum ::
  "page \<Rightarrow> u16 \<Rightarrow> u8 list \<Rightarrow> txn_id \<Rightarrow> page \<times> (db_error + u8 list option)" where
  "rewrite_no_checksum p0 slot_id new_data txn =
     (let p = clear_all_visible p0 in
      with_live_slot p slot_id (\<lambda>e.
        let tuple_len_actual = 24 + length new_data;
            tuple_len_alloc = align8 tuple_len_actual
        in case slot_capacity p slot_id of
             Inl err \<Rightarrow> (p, Inl err)
           | Inr capacity \<Rightarrow>
               if tuple_len_alloc > capacity then (p, Inr None)
               else
                 let off = unat (se_offset e); old_len = unat (se_length e) in
                 if PAGE_SIZE < off + old_len \<or> old_len < 24 then (p, Inl Panic)
                 else
                   let old_image = read_bytes p off old_len;
                       old_header = row_header_of (take 24 old_image);
                       new_header = \<lparr>txn_id_created = txn, txn_id_deleted = 0,
                         row_version = saturating_succ32 (row_version old_header),
                         row_flags = row_flags old_header\<rparr>;
                       p1 = write_bytes p off (row_header_bytes new_header);
                       p2 = write_bytes p1 (off + 24) new_data;
                       p3 = write_bytes p2 (off + tuple_len_actual)
                         (replicate (capacity - tuple_len_actual) 0);
                       p4 = write_slot p3 slot_id
                         \<lparr>se_offset = se_offset e, se_length = word_of_nat tuple_len_actual\<rparr>
                   in (p4, Inr (Some old_image))))"

definition rewrite_tuple_same_slot ::
  "checksum \<Rightarrow> page \<Rightarrow> u16 \<Rightarrow> u8 list \<Rightarrow> txn_id \<Rightarrow> page \<times> (db_error + u8 list option)" where
  "rewrite_tuple_same_slot crc p slot_id new_data txn =
     (case rewrite_no_checksum p slot_id new_data txn of
        (p', Inr (Some old)) \<Rightarrow> (update_checksum crc p', Inr (Some old))
      | r \<Rightarrow> r)"

definition update_tuple :: "checksum \<Rightarrow> page \<Rightarrow> u16 \<Rightarrow> u8 list \<Rightarrow> txn_id \<Rightarrow> page \<times> (db_error + u16)" where
  "update_tuple crc p slot_id new_data txn =
     (case delete_tuple crc p slot_id txn of
        (p', Inl e) \<Rightarrow> (p', Inl e)
      | (p', Inr _) \<Rightarrow> insert_tuple crc p' new_data txn)"

definition mark_slot_dead :: "checksum \<Rightarrow> page \<Rightarrow> u16 \<Rightarrow> page \<times> (db_error + unit)" where
  "mark_slot_dead crc p slot_id =
     (if num_slots p \<le> slot_id then (p, Inl (invalid_slot p slot_id))
      else if PAGE_SIZE < slot_abs_offset slot_id + 4 then (p, Inl Panic)
      else (update_checksum crc (write_slot p slot_id \<lparr>se_offset = 0, se_length = 0\<rparr>), Inr ()))"

definition restore_no_checksum :: "page \<Rightarrow> u16 \<Rightarrow> u8 list \<Rightarrow> page \<times> (db_error + unit)" where
  "restore_no_checksum p slot_id tuple_image =
     with_live_slot p slot_id (\<lambda>e.
       case slot_capacity p slot_id of
         Inl err \<Rightarrow> (p, Inl err)
       | Inr capacity \<Rightarrow>
           if align8 (length tuple_image) > capacity
           then (p, Inl (Internal ''restore_tuple_image: tuple image no longer fits''))
           else
             let off = unat (se_offset e);
                 p1 = write_bytes p off tuple_image;
                 p2 = write_bytes p1 (off + length tuple_image)
                   (replicate (capacity - length tuple_image) 0)
             in (write_slot p2 slot_id
                   \<lparr>se_offset = se_offset e, se_length = word_of_nat (length tuple_image)\<rparr>, Inr ()))"

definition restore_tuple_image :: "checksum \<Rightarrow> page \<Rightarrow> u16 \<Rightarrow> u8 list \<Rightarrow> page \<times> (db_error + unit)" where
  "restore_tuple_image crc p slot_id tuple_image =
     (case restore_no_checksum p slot_id tuple_image of
        (p', Inl e) \<Rightarrow> (p', Inl e)
      | (p', Inr _) \<Rightarrow> (update_checksum crc p', Inr ()))"

definition clear_deletion :: "checksum \<Rightarrow> page \<Rightarrow> u16 \<Rightarrow> page \<times> (db_error + unit)" where
  "clear_deletion crc p slot_id =
     with_live_slot p slot_id (\<lambda>e.
       let field_abs = unat (se_offset e) + 8 in
       if PAGE_SIZE < field_abs + 8 then (p, Inl Panic)
       else if get_u64 p field_abs = 0 then (p, Inr ())
       else (update_checksum crc (put_u64 p field_abs 0), Inr ()))"

primrec scan_slots ::
  "page \<Rightarrow> transaction_snapshot \<Rightarrow> u16 list \<Rightarrow> db_error + (u16 \<times> u8 list) list" where
  "scan_slots p snap [] = Inr []"
| "scan_slots p snap (slot_id # rest) =
     ebind (read_slot p slot_id) (\<lambda>e.
       if is_dead e then scan_slots p snap rest
       else ebind (tuple_at p e) (\<lambda>(header, data).
         if \<not> is_visible header snap then scan_slots p snap rest
         else ebind (scan_slots p snap rest) (\<lambda>out. Inr ((slot_id, data) # out))))"

definition scan_visible :: "page \<Rightarrow> transaction_snapshot \<Rightarrow> db_error + (u16 \<times> u8 list) list" where
  "scan_visible p snap = scan_slots p snap (map word_of_nat [0..<unat (num_slots p)])"

end
