(* ===== verification/Wal_Clustered.thy ===== *)
theory Wal_Clustered
  imports Wal_Entry Heap_Page
begin

text \<open>
  \<open>axiomdb-wal/src/clustered.rs\<close>: the payloads of log records for clustered rows, whole row images and
  lists of changed fields, with their encoders and decoders. The texts of the error messages
  are left out.
\<close>

subsection \<open>Row images\<close>

definition ROW_IMAGE_FIXED_LEN :: nat where "ROW_IMAGE_FIXED_LEN = 36"

record clustered_row_image =
  ri_root_pid :: u64
  ri_row_header :: row_header
  ri_row_data :: "u8 list"

definition invalid_value :: "db_error + 'a" where
  "invalid_value = Inl (InvalidValue [])"

definition row_image_to_bytes :: "clustered_row_image \<Rightarrow> db_error + u8 list" where
  "row_image_to_bytes r =
     (if 2 ^ 32 - 1 < length (ri_row_data r) then Inl (ValueTooLarge (length (ri_row_data r)) (2 ^ 32 - 1))
      else Inr (u64_le (ri_root_pid r) @ u64_le (txn_id_created (ri_row_header r)) @
        u64_le (txn_id_deleted (ri_row_header r)) @ u32_le (row_version (ri_row_header r)) @
        u32_le (row_flags (ri_row_header r)) @ u32_le (word_of_nat (length (ri_row_data r))) @ ri_row_data r))"

definition row_image_from_bytes :: "u8 list \<Rightarrow> db_error + clustered_row_image" where
  "row_image_from_bytes bs =
     (if length bs < ROW_IMAGE_FIXED_LEN then invalid_value
      else
        let row_len = unat (u32_of_le (sub_slice bs 32 4)) in
        if length bs \<noteq> ROW_IMAGE_FIXED_LEN + row_len then invalid_value
        else Inr \<lparr>ri_root_pid = u64_of_le (sub_slice bs 0 8),
          ri_row_header = \<lparr>txn_id_created = u64_of_le (sub_slice bs 8 8),
            txn_id_deleted = u64_of_le (sub_slice bs 16 8), row_version = u32_of_le (sub_slice bs 24 4),
            row_flags = u32_of_le (sub_slice bs 28 4)\<rparr>,
          ri_row_data = drop ROW_IMAGE_FIXED_LEN bs\<rparr>)"

lemma row_image_roundtrip:
  assumes "row_image_to_bytes r = Inr bs" shows "row_image_from_bytes bs = Inr r"
proof -
  let ?d = "ri_row_data r"
  have "\<not> 2 ^ 32 - 1 < length ?d" using assms by (simp add: row_image_to_bytes_def split: if_splits)
  then have "length ?d < 2 ^ 32" by simp
  then have len: "unat (word_of_nat (length ?d) :: u32) = length ?d" by (rule unat_word_of_nat32)
  have bs: "bs = u64_le (ri_root_pid r) @ u64_le (txn_id_created (ri_row_header r)) @
        u64_le (txn_id_deleted (ri_row_header r)) @ u32_le (row_version (ri_row_header r)) @
        u32_le (row_flags (ri_row_header r)) @ u32_le (word_of_nat (length ?d)) @ ?d"
    using assms by (simp add: row_image_to_bytes_def split: if_splits)
  have f: "sub_slice bs 0 8 = u64_le (ri_root_pid r)" "sub_slice bs 8 8 = u64_le (txn_id_created (ri_row_header r))"
    "sub_slice bs 16 8 = u64_le (txn_id_deleted (ri_row_header r))" "sub_slice bs 24 4 = u32_le (row_version (ri_row_header r))"
    "sub_slice bs 28 4 = u32_le (row_flags (ri_row_header r))" "sub_slice bs 32 4 = u32_le (word_of_nat (length ?d))"
    "drop 36 bs = ?d" "length bs = 36 + length ?d"
    by (simp_all add: bs sub_slice_def)
  show ?thesis unfolding row_image_from_bytes_def ROW_IMAGE_FIXED_LEN_def Let_def f u32_le.dec_enc u64_le.dec_enc len by simp
qed

subsection \<open>Field patches\<close>

text \<open>The byte arrays of a delta have length 8 in the source; \<open>size\<close> of them are used.\<close>

record field_delta =
  fd_offset :: u16
  fd_size :: u8
  fd_old_bytes :: "u8 list"
  fd_new_bytes :: "u8 list"

record clustered_field_patch =
  fp_key :: "u8 list"
  fp_old_header :: row_header
  fp_new_header :: row_header
  fp_old_row_data :: "u8 list"
  fp_field_deltas :: "field_delta list"

definition encode_header :: "row_header \<Rightarrow> u8 list" where
  "encode_header hdr = u64_le (txn_id_created hdr) @ u64_le (txn_id_deleted hdr) @
     u32_le (row_version hdr) @ u32_le (row_flags hdr)"

definition encode_delta :: "(field_delta \<Rightarrow> u8 list) \<Rightarrow> field_delta \<Rightarrow> u8 list" where
  "encode_delta bs d = u16_le (fd_offset d) @ [fd_size d] @ take (unat (fd_size d)) (bs d)"

definition encode_old_value :: "clustered_field_patch \<Rightarrow> u8 list" where
  "encode_old_value p = encode_header (fp_old_header p) @ [word_of_nat (length (fp_field_deltas p))] @
     concat (map (encode_delta fd_old_bytes) (fp_field_deltas p))"

definition encode_new_value :: "clustered_field_patch \<Rightarrow> u8 list" where
  "encode_new_value p = encode_header (fp_new_header p) @ [word_of_nat (length (fp_field_deltas p))] @
     concat (map (encode_delta fd_new_bytes) (fp_field_deltas p))"

primrec decode_fields :: "nat \<Rightarrow> u8 list \<Rightarrow> nat \<Rightarrow> db_error + (u16 \<times> u8 \<times> u8 list) list \<times> nat" where
  "decode_fields 0 bs cursor = Inr ([], cursor)"
| "decode_fields (Suc n) bs cursor =
     (if length bs < cursor + 3 then invalid_value
      else let offset = u16_of_le (sub_slice bs cursor 2); sz = bs ! (cursor + 2); cursor = cursor + 3 in
        if 8 < unat sz then invalid_value
        else let fin = cursor + unat sz in
          if length bs < fin then invalid_value
          else let arr = sub_slice bs cursor (unat sz) @ replicate (8 - unat sz) 0 in
            ebind (decode_fields n bs fin) (\<lambda>(fields, cursor). Inr ((offset, sz, arr) # fields, cursor)))"

definition decode_patch_value :: "u8 list \<Rightarrow> db_error + row_header \<times> (u16 \<times> u8 \<times> u8 list) list" where
  "decode_patch_value bs =
     (if length bs < 24 + 1 then invalid_value
      else let row_header = \<lparr>txn_id_created = u64_of_le (sub_slice bs 0 8),
                 txn_id_deleted = u64_of_le (sub_slice bs 8 8), row_version = u32_of_le (sub_slice bs 16 4),
                 row_flags = u32_of_le (sub_slice bs 20 4)\<rparr>;
               num_fields = unat (bs ! 24)
           in ebind (decode_fields num_fields bs 25) (\<lambda>(fields, cursor).
                if cursor \<noteq> length bs then invalid_value else Inr (row_header, fields)))"

primrec zip_deltas ::
  "(u16 \<times> u8 \<times> u8 list) list \<Rightarrow> (u16 \<times> u8 \<times> u8 list) list \<Rightarrow> db_error + field_delta list" where
  "zip_deltas [] news = Inr []"
| "zip_deltas (old # olds) news =
     (case news of
        [] \<Rightarrow> Inr []
      | new # news \<Rightarrow>
          (case (old, new) of ((old_offset, old_size, old_arr), (new_offset, new_size, new_arr)) \<Rightarrow>
            if old_offset \<noteq> new_offset \<or> old_size \<noteq> new_size then invalid_value
            else ebind (zip_deltas olds news) (\<lambda>ds. Inr
              (\<lparr>fd_offset = old_offset, fd_size = old_size, fd_old_bytes = old_arr, fd_new_bytes = new_arr\<rparr> # ds))))"

definition from_wal_values :: "u8 list \<Rightarrow> u8 list \<Rightarrow> u8 list \<Rightarrow> db_error + clustered_field_patch" where
  "from_wal_values key old_value new_value =
     ebind (decode_patch_value old_value) (\<lambda>(old_header, old_fields).
     ebind (decode_patch_value new_value) (\<lambda>(new_header, new_fields).
       if length old_fields \<noteq> length new_fields then invalid_value
       else ebind (zip_deltas old_fields new_fields) (\<lambda>field_deltas.
         Inr \<lparr>fp_key = key, fp_old_header = old_header, fp_new_header = new_header,
              fp_old_row_data = [], fp_field_deltas = field_deltas\<rparr>)))"

subsection \<open>Round trips\<close>

text \<open>A delta of which at most 8 bytes are in use, the rest being zero, as the decoder builds it.\<close>

definition delta_ok :: "field_delta \<Rightarrow> bool" where
  "delta_ok d \<longleftrightarrow> unat (fd_size d) \<le> 8 \<and>
     (\<exists>xs. length xs = unat (fd_size d) \<and> fd_old_bytes d = xs @ replicate (8 - unat (fd_size d)) 0) \<and>
     (\<exists>xs. length xs = unat (fd_size d) \<and> fd_new_bytes d = xs @ replicate (8 - unat (fd_size d)) 0)"

lemma decode_fields_encode:
  assumes "\<forall>d \<in> set ds. unat (fd_size d) \<le> 8 \<and>
    (\<exists>xs. length xs = unat (fd_size d) \<and> f d = xs @ replicate (8 - unat (fd_size d)) 0)"
  shows "decode_fields (length ds) (pre @ concat (map (encode_delta f) ds)) (length pre) =
    Inr (map (\<lambda>d. (fd_offset d, fd_size d, f d)) ds, length pre + length (concat (map (encode_delta f) ds)))"
  using assms
proof (induction ds arbitrary: pre)
  case (Cons d ds)
  then obtain xs where xs: "length xs = unat (fd_size d)" "f d = xs @ replicate (8 - unat (fd_size d)) 0" "unat (fd_size d) \<le> 8" by auto
  let ?e = "encode_delta f d"
  have e: "?e = u16_le (fd_offset d) @ fd_size d # xs" using xs by (simp add: encode_delta_def)
  have IH: "decode_fields (length ds) ((pre @ ?e) @ concat (map (encode_delta f) ds)) (length (pre @ ?e)) =
      Inr (map (\<lambda>d. (fd_offset d, fd_size d, f d)) ds, length (pre @ ?e) + length (concat (map (encode_delta f) ds)))"
    using Cons by (intro Cons.IH) simp
  have len: "length (pre @ ?e) = length pre + 3 + unat (fd_size d)" using xs by (simp add: e)
  define buf where "buf = pre @ ?e @ concat (map (encode_delta f) ds)"
  have s: "sub_slice buf (length pre) 2 = u16_le (fd_offset d)" "buf ! (length pre + 2) = fd_size d"
    "sub_slice buf (length pre + 3) (unat (fd_size d)) = xs"
    using xs by (simp_all add: buf_def e sub_slice_def nth_append)
  have l: "length pre + 3 + unat (fd_size d) \<le> length buf" using len by (simp add: buf_def)
  have IH': "decode_fields (length ds) buf (length pre + 3 + unat (fd_size d)) =
      Inr (map (\<lambda>d. (fd_offset d, fd_size d, f d)) ds, length buf)"
    using IH [unfolded len] len by (simp add: buf_def)
  have "decode_fields (Suc (length ds)) buf (length pre) =
      Inr (map (\<lambda>d. (fd_offset d, fd_size d, f d)) (d # ds), length buf)"
    using l xs unfolding decode_fields.simps(2) Let_def s IH' u16_le.dec_enc by simp
  then show ?case by (simp add: buf_def)
qed simp

lemma decode_patch_encode:
  assumes "length ds < 256" "\<forall>d \<in> set ds. unat (fd_size d) \<le> 8 \<and>
    (\<exists>xs. length xs = unat (fd_size d) \<and> f d = xs @ replicate (8 - unat (fd_size d)) 0)"
  shows "decode_patch_value (encode_header h @ [word_of_nat (length ds)] @ concat (map (encode_delta f) ds)) =
    Inr (h, map (\<lambda>d. (fd_offset d, fd_size d, f d)) ds)"
proof -
  let ?p = "encode_header h @ [word_of_nat (length ds)]"
  define buf where "buf = ?p @ concat (map (encode_delta f) ds)"
  have p: "length ?p = 25" by (simp add: encode_header_def)
  have n: "unat (word_of_nat (length ds) :: u8) = length ds" using assms(1) by (simp add: unat_of_nat)
  have d: "decode_fields (length ds) buf 25 = Inr (map (\<lambda>d. (fd_offset d, fd_size d, f d)) ds, length buf)"
    using decode_fields_encode [OF assms(2), of ?p] p by (simp add: buf_def)
  have s: "sub_slice buf 0 8 = u64_le (txn_id_created h)" "sub_slice buf 8 8 = u64_le (txn_id_deleted h)"
    "sub_slice buf 16 4 = u32_le (row_version h)" "sub_slice buf 20 4 = u32_le (row_flags h)"
    "buf ! 24 = word_of_nat (length ds)" "\<not> length buf < 24 + 1"
    by (simp_all add: buf_def encode_header_def sub_slice_def nth_append)
  have "decode_patch_value buf = Inr (h, map (\<lambda>d. (fd_offset d, fd_size d, f d)) ds)"
    using s(6) unfolding decode_patch_value_def Let_def s(1-5) n d by simp
  then show ?thesis by (simp add: buf_def)
qed

lemma zip_deltas_same:
  "zip_deltas (map (\<lambda>d. (fd_offset d, fd_size d, fd_old_bytes d)) ds) (map (\<lambda>d. (fd_offset d, fd_size d, fd_new_bytes d)) ds) = Inr ds"
  by (induction ds) simp_all

lemma field_patch_roundtrip:
  assumes "length (fp_field_deltas p) < 256" "\<forall>d \<in> set (fp_field_deltas p). delta_ok d" "fp_old_row_data p = []"
  shows "from_wal_values (fp_key p) (encode_old_value p) (encode_new_value p) = Inr p"
proof -
  have "decode_patch_value (encode_old_value p) = Inr (fp_old_header p,
      map (\<lambda>d. (fd_offset d, fd_size d, fd_old_bytes d)) (fp_field_deltas p))"
    unfolding encode_old_value_def by (rule decode_patch_encode [OF assms(1)]) (use assms(2) in \<open>simp add: delta_ok_def\<close>)
  moreover have "decode_patch_value (encode_new_value p) = Inr (fp_new_header p,
      map (\<lambda>d. (fd_offset d, fd_size d, fd_new_bytes d)) (fp_field_deltas p))"
    unfolding encode_new_value_def by (rule decode_patch_encode [OF assms(1)]) (use assms(2) in \<open>simp add: delta_ok_def\<close>)
  ultimately show ?thesis by (simp add: from_wal_values_def zip_deltas_same assms(3) [symmetric])
qed

end
