(* ===== verification/Wal_File.thy ===== *)
theory Wal_File
  imports Wal_Entry
begin

text \<open>
  \<open>axiomdb-wal/src/writer.rs\<close> and \<open>reader.rs\<close>: the append-only log file. A file is its list of bytes; the
  writer holds the file, the position of the file handle and the bytes still in the
  \<open>BufWriter\<close>. File offsets are natural numbers, log sequence numbers 64-bit words. I/O errors
  of the operating system are not modelled.
\<close>

definition WAL_MAGIC :: u64 where "WAL_MAGIC = 0x4C41574D4F495841"
definition WAL_VERSION :: u16 where "WAL_VERSION = 2"
definition WAL_HEADER_SIZE :: nat where "WAL_HEADER_SIZE = 24"
definition START_LSN_OFFSET :: nat where "START_LSN_OFFSET = 14"
definition BUF_CAPACITY :: nat where "BUF_CAPACITY = 64 * 1024"
definition PREALLOC_CHUNK :: nat where "PREALLOC_CHUNK = 256 * 1024"

definition round_up :: "nat \<Rightarrow> nat \<Rightarrow> nat" where
  "round_up v q = (if v = 0 then 0 else (v + q - 1) div q * q)"

subsection \<open>Files\<close>

definition file_write :: "u8 list \<Rightarrow> nat \<Rightarrow> u8 list \<Rightarrow> u8 list" where
  "file_write f off bs = take off (f @ replicate (off - length f) 0) @ bs @ drop (off + length bs) f"

definition set_len :: "u8 list \<Rightarrow> nat \<Rightarrow> u8 list" where
  "set_len f n = take n f @ replicate (n - length f) 0"

definition wal_header :: "u64 \<Rightarrow> u8 list" where
  "wal_header start_lsn = u64_le WAL_MAGIC @ u16_le WAL_VERSION @ replicate 4 0 @ u64_le start_lsn @ replicate 2 0"

definition read_and_verify_header :: "u8 list \<Rightarrow> db_error + u64" where
  "read_and_verify_header f =
     (if length f < WAL_HEADER_SIZE then Inl WalInvalidHeader
      else let magic = u64_of_le (sub_slice f 0 8); version = u16_of_le (sub_slice f 8 2) in
        if magic \<noteq> WAL_MAGIC \<or> version \<noteq> WAL_VERSION then Inl WalInvalidHeader
        else Inr (u64_of_le (sub_slice f START_LSN_OFFSET 8)))"

record wal_tail_info =
  last_lsn :: u64
  tail_end :: nat
  tail_reserved :: nat

lemma from_bytes_consumes: "from_bytes crc buf = Inr (e, n) \<Longrightarrow> 43 \<le> n \<and> n \<le> length buf"
  using serialized_len_min [of e] by (auto simp: from_bytes_iff framed_def)

function scan_tail_loop :: "(u8 list \<Rightarrow> u32) \<Rightarrow> u8 list \<Rightarrow> nat \<Rightarrow> u64 \<Rightarrow> u64 \<times> nat" where
  "scan_tail_loop crc buf pos lsn =
     (if \<not> pos < length buf then (lsn, pos)
      else if length buf - pos < 4 then (lsn, pos)
      else if sub_slice buf pos 4 = [0, 0, 0, 0] then (lsn, pos)
      else case from_bytes crc (drop pos buf) of
             Inr (e, consumed) \<Rightarrow> scan_tail_loop crc buf (pos + consumed) (we_lsn e)
           | Inl _ \<Rightarrow> (lsn, pos))"
  by auto
termination
  by (relation "measure (\<lambda>(crc, buf, pos, lsn). length buf - pos)") (auto dest: from_bytes_consumes)

declare scan_tail_loop.simps [simp del]

definition scan_valid_tail :: "(u8 list \<Rightarrow> u32) \<Rightarrow> u8 list \<Rightarrow> wal_tail_info" where
  "scan_valid_tail crc f =
     (let data_len = length f - WAL_HEADER_SIZE in
      if data_len = 0 then \<lparr>last_lsn = 0, tail_end = WAL_HEADER_SIZE, tail_reserved = length f\<rparr>
      else case scan_tail_loop crc (drop WAL_HEADER_SIZE f) 0 0 of
             (lsn, pos) \<Rightarrow>
               \<lparr>last_lsn = lsn, tail_end = WAL_HEADER_SIZE + pos, tail_reserved = length f\<rparr>)"

subsection \<open>The writer\<close>

text \<open>The I/O state, and the single-threaded writer, which also owns the counter.\<close>

record writer_state =
  ws_file :: "u8 list"
  ws_cursor :: nat
  ws_buf :: "u8 list"
  ws_logical_end :: nat
  ws_reserved_end :: nat

record wal_writer = writer_state +
  ww_next_lsn :: u64

definition wal_create :: wal_writer where
  "wal_create =
     (let f = file_write [] 0 (wal_header 0); logical_end = WAL_HEADER_SIZE;
          reserved_end = round_up logical_end PREALLOC_CHUNK
      in \<lparr>ws_file = set_len f reserved_end, ws_cursor = logical_end, ws_buf = [],
          ws_logical_end = logical_end, ws_reserved_end = reserved_end, ww_next_lsn = 1\<rparr>)"

definition wal_open :: "(u8 list \<Rightarrow> u32) \<Rightarrow> u8 list \<Rightarrow> db_error + wal_writer" where
  "wal_open crc f =
     ebind (read_and_verify_header f) (\<lambda>start_lsn.
       let tail = scan_valid_tail crc f in
       Inr \<lparr>ws_file = f, ws_cursor = tail_end tail, ws_buf = [],
            ws_logical_end = tail_end tail, ws_reserved_end = tail_reserved tail,
            ww_next_lsn = max (last_lsn tail) start_lsn + 1\<rparr>)"

definition rotate_file :: "u64 \<Rightarrow> u8 list \<Rightarrow> u8 list" where
  "rotate_file start_lsn f =
     set_len (file_write (set_len f 0) 0 (wal_header start_lsn)) (round_up WAL_HEADER_SIZE PREALLOC_CHUNK)"

text \<open>\<open>BufWriter::flush\<close> and \<open>BufWriter::write_all\<close> of the standard library.\<close>

definition buf_flush :: "'a writer_state_scheme \<Rightarrow> 'a writer_state_scheme" where
  "buf_flush w = w\<lparr>ws_file := file_write (ws_file w) (ws_cursor w) (ws_buf w),
     ws_cursor := ws_cursor w + length (ws_buf w), ws_buf := []\<rparr>"

definition buf_write_all :: "u8 list \<Rightarrow> 'a writer_state_scheme \<Rightarrow> 'a writer_state_scheme" where
  "buf_write_all bs w =
     (let spare = BUF_CAPACITY - length (ws_buf w) in
      if length bs < spare then w\<lparr>ws_buf := ws_buf w @ bs\<rparr>
      else let w = (if spare < length bs then buf_flush w else w) in
        if BUF_CAPACITY \<le> length bs
        then w\<lparr>ws_file := file_write (ws_file w) (ws_cursor w) bs, ws_cursor := ws_cursor w + length bs\<rparr>
        else w\<lparr>ws_buf := ws_buf w @ bs\<rparr>)"

definition ensure_capacity :: "nat \<Rightarrow> 'a writer_state_scheme \<Rightarrow> 'a writer_state_scheme" where
  "ensure_capacity required_end w =
     (if required_end \<le> ws_reserved_end w then w
      else let w = buf_flush w; new_reserved_end = round_up required_end PREALLOC_CHUNK in
        w\<lparr>ws_file := set_len (ws_file w) new_reserved_end, ws_cursor := ws_logical_end w,
          ws_reserved_end := new_reserved_end\<rparr>)"

text \<open>Writing bytes for which there is room, and the two steps every append takes.\<close>

definition put_bytes :: "u8 list \<Rightarrow> 'a writer_state_scheme \<Rightarrow> 'a writer_state_scheme" where
  "put_bytes bs w =
     (let w = buf_write_all bs w in w\<lparr>ws_logical_end := ws_logical_end w + length bs\<rparr>)"

definition append_bytes :: "u8 list \<Rightarrow> 'a writer_state_scheme \<Rightarrow> 'a writer_state_scheme" where
  "append_bytes bs w = put_bytes bs (ensure_capacity (ws_logical_end w + length bs) w)"

definition wal_append :: "(u8 list \<Rightarrow> u32) \<Rightarrow> wal_entry \<Rightarrow> wal_writer \<Rightarrow> wal_writer \<times> wal_entry" where
  "wal_append crc entry w =
     (let entry = entry\<lparr>we_lsn := ww_next_lsn w\<rparr>; w = append_bytes (to_bytes crc entry) w in
      (w\<lparr>ww_next_lsn := ww_next_lsn w + 1\<rparr>, entry))"

definition append_with_buf ::
  "(u8 list \<Rightarrow> u32) \<Rightarrow> wal_entry \<Rightarrow> u8 list \<Rightarrow> wal_writer \<Rightarrow> wal_writer \<times> wal_entry \<times> u8 list" where
  "append_with_buf crc entry scratch w =
     (let entry = entry\<lparr>we_lsn := ww_next_lsn w\<rparr>; scratch = serialize_into crc entry [];
          w = append_bytes scratch w
      in (w\<lparr>ww_next_lsn := ww_next_lsn w + 1\<rparr>, entry, scratch))"

definition reserve_lsns :: "nat \<Rightarrow> wal_writer \<Rightarrow> wal_writer \<times> u64" where
  "reserve_lsns n w = (w\<lparr>ww_next_lsn := ww_next_lsn w + word_of_nat n\<rparr>, ww_next_lsn w)"

definition write_batch :: "u8 list \<Rightarrow> wal_writer \<Rightarrow> wal_writer" where
  "write_batch batch w = (if batch = [] then w else append_bytes batch w)"

text \<open>\<open>commit\<close>, \<open>commit_data_sync\<close>, \<open>commit_metadata_sync\<close> flush the buffer and then ask the operating system
  to make the file durable; \<open>flush_no_sync\<close> and \<open>flush_buffer\<close> only flush.\<close>

definition wal_commit :: "wal_writer \<Rightarrow> wal_writer" where
  "wal_commit w = buf_flush w"

definition current_lsn :: "wal_writer \<Rightarrow> u64" where
  "current_lsn w = (if ww_next_lsn w = 0 then 0 else ww_next_lsn w - 1)"

subsection \<open>The readers\<close>

function forward_scan ::
  "(u8 list \<Rightarrow> u32) \<Rightarrow> u8 list \<Rightarrow> u64 \<Rightarrow> nat \<Rightarrow> nat \<Rightarrow> (db_error + wal_entry) list" where
  "forward_scan crc f from_lsn logical_end cursor =
     (if logical_end \<le> cursor then []
      else if logical_end < cursor + 4 then []
      else if length f < cursor + 4 then []
      else let entry_len = unat (u32_of_le (sub_slice f cursor 4)) in
        if logical_end < cursor + entry_len then [Inl (WalEntryTruncated 0)]
        else if entry_len < MIN_ENTRY_LEN then [Inl (WalEntryTruncated 0)]
        else if length f < cursor + entry_len then [Inl (WalEntryTruncated 0)]
        else case from_bytes crc (sub_slice f cursor entry_len) of
               Inl e \<Rightarrow> [Inl e]
             | Inr (entry, _) \<Rightarrow>
                 (if we_lsn entry < from_lsn then [] else [Inr entry]) @
                 forward_scan crc f from_lsn logical_end (cursor + entry_len))"
  by auto
termination
  by (relation "measure (\<lambda>(crc, f, l, e, cursor). e - cursor)") (auto simp: MIN_ENTRY_LEN_def)

declare forward_scan.simps [simp del]

function backward_scan :: "(u8 list \<Rightarrow> u32) \<Rightarrow> u8 list \<Rightarrow> nat \<Rightarrow> (db_error + wal_entry) list" where
  "backward_scan crc f cursor =
     (if cursor \<le> WAL_HEADER_SIZE then []
      else if cursor < WAL_HEADER_SIZE + 4 then [Inl (WalEntryTruncated 0)]
      else if length f < cursor then [Inl (WalEntryTruncated 0)]
      else let entry_len = unat (u32_of_le (sub_slice f (cursor - 4) 4)) in
        if entry_len < MIN_ENTRY_LEN then [Inl (WalEntryTruncated 0)]
        else if cursor < entry_len then [Inl (WalEntryTruncated 0)]
        else let entry_start = cursor - entry_len in
          if entry_start < WAL_HEADER_SIZE then [Inl (WalEntryTruncated 0)]
          else case from_bytes crc (sub_slice f entry_start entry_len) of
                 Inr (entry, _) \<Rightarrow> Inr entry # backward_scan crc f entry_start
               | Inl e \<Rightarrow> [Inl e])"
  by auto
termination
  by (relation "measure (\<lambda>(crc, f, cursor). cursor)") (auto simp: MIN_ENTRY_LEN_def WAL_HEADER_SIZE_def)

declare backward_scan.simps [simp del]

text \<open>\<open>WalReader::open\<close> followed by \<open>scan_forward\<close> or \<open>scan_backward\<close>.\<close>

definition verify_header :: "u8 list \<Rightarrow> db_error + unit" where
  "verify_header f =
     (if length f < WAL_HEADER_SIZE then Inl WalInvalidHeader
      else if u64_of_le (sub_slice f 0 8) \<noteq> WAL_MAGIC \<or> u16_of_le (sub_slice f 8 2) \<noteq> WAL_VERSION
      then Inl WalInvalidHeader else Inr ())"

definition read_forward :: "(u8 list \<Rightarrow> u32) \<Rightarrow> u8 list \<Rightarrow> u64 \<Rightarrow> db_error + (db_error + wal_entry) list" where
  "read_forward crc f from_lsn =
     ebind (verify_header f) (\<lambda>_.
       Inr (forward_scan crc f from_lsn (tail_end (scan_valid_tail crc f)) WAL_HEADER_SIZE))"

definition read_backward :: "(u8 list \<Rightarrow> u32) \<Rightarrow> u8 list \<Rightarrow> db_error + (db_error + wal_entry) list" where
  "read_backward crc f =
     ebind (verify_header f) (\<lambda>_. Inr (backward_scan crc f (tail_end (scan_valid_tail crc f))))"

end
