(* ===== verification/Wal_Crash.thy ===== *)
theory Wal_Crash
  imports Wal_File
begin

text \<open>
  What the log readers return: for a file that holds a header, a sequence of records of which
  the last may be cut off, and zeros. The records a crash leaves behind are a prefix of those
  written, and contain every record that was written completely.
\<close>

subsection \<open>Scanning a prefix of the log\<close>

abbreviation stream :: "(u8 list \<Rightarrow> u32) \<Rightarrow> wal_entry list \<Rightarrow> u8 list" where
  "stream crc es \<equiv> concat (map (to_bytes crc) es)"

abbreviation all_ok :: "wal_entry list \<Rightarrow> bool" where
  "all_ok es \<equiv> \<forall>e \<in> set es. wal_entry_ok e"

lemma to_bytes_nonzero: "wal_entry_ok e \<Longrightarrow> take 4 (to_bytes crc e) \<noteq> [0, 0, 0, 0]"
proof -
  assume ok: "wal_entry_ok e"
  have "unat (word_of_nat (serialized_len e) :: u32) \<noteq> 0"
    using ok serialized_len_min [of e] by (simp add: unat_word_of_nat32 wal_entry_ok_def)
  then have "(word_of_nat (serialized_len e) :: u32) \<noteq> 0" by (metis unat_0)
  from u32_le_nonzero [OF this] show ?thesis unfolding to_bytes_len_field by (simp add: numeral_eq_Suc)
qed

lemma scan_zeros: "scan_tail_loop crc (pre @ replicate m 0) (length pre) lsn = (lsn, length pre)"
  by (subst scan_tail_loop.simps) (auto simp: sub_slice_def numeral_eq_Suc not_less)

lemma scan_record:
  assumes "wal_entry_ok e"
  shows "scan_tail_loop crc (pre @ to_bytes crc e @ rest) (length pre) lsn =
    scan_tail_loop crc ((pre @ to_bytes crc e) @ rest) (length (pre @ to_bytes crc e)) (we_lsn e)"
proof -
  have "sub_slice (pre @ to_bytes crc e @ rest) (length pre) 4 \<noteq> [0, 0, 0, 0]"
    using to_bytes_nonzero [OF assms, of crc] serialized_len_min [of e] by (simp add: sub_slice_def)
  then show ?thesis
    using serialized_len_min [of e]
    by (subst scan_tail_loop.simps) (simp add: from_bytes_to_bytes [OF assms])
qed

text \<open>The last complete record of a prefix, and its log sequence number.\<close>

definition last_lsn_of :: "u64 \<Rightarrow> wal_entry list \<Rightarrow> u64" where
  "last_lsn_of lsn es = (if es = [] then lsn else we_lsn (last es))"

lemma scan_tail_prefix:
  assumes "all_ok es" "k \<le> length (stream crc es)"
  shows "\<exists>j. j \<le> length es \<and>
    scan_tail_loop crc (pre @ take k (stream crc es) @ replicate m 0) (length pre) lsn =
      (last_lsn_of lsn (take j es), length pre + length (stream crc (take j es))) \<and>
    (\<exists>rest. take k (stream crc es) @ replicate m 0 = stream crc (take j es) @ rest) \<and>
    (j < length es \<longrightarrow> k < length (stream crc (take (Suc j) es)))"
  using assms
proof (induction es arbitrary: pre k m lsn)
  case Nil
  then show ?case by (auto simp: scan_zeros last_lsn_of_def intro!: exI [of _ 0])
next
  case (Cons e es)
  let ?B = "to_bytes crc e"
  have ok: "wal_entry_ok e" using Cons.prems by simp
  have step: "\<exists>j. j \<le> length (e # es) \<and>
    scan_tail_loop crc (pre @ ?B @ take k' (stream crc es) @ replicate m' 0) (length pre) lsn =
      (last_lsn_of lsn (take j (e # es)), length pre + length (stream crc (take j (e # es)))) \<and>
    (\<exists>rest. ?B @ take k' (stream crc es) @ replicate m' 0 = stream crc (take j (e # es)) @ rest) \<and>
    (j < length (e # es) \<longrightarrow> length ?B + k' < length (stream crc (take (Suc j) (e # es))))"
    if k': "k' \<le> length (stream crc es)" for k' m'
  proof -
    from Cons.IH [OF _ k', of "pre @ ?B" m' "we_lsn e"] Cons.prems(1) obtain j where j: "j \<le> length es"
      "scan_tail_loop crc ((pre @ ?B) @ take k' (stream crc es) @ replicate m' 0) (length (pre @ ?B)) (we_lsn e) =
        (last_lsn_of (we_lsn e) (take j es), length (pre @ ?B) + length (stream crc (take j es)))"
      "\<exists>rest. take k' (stream crc es) @ replicate m' 0 = stream crc (take j es) @ rest"
      "j < length es \<longrightarrow> k' < length (stream crc (take (Suc j) es))" by auto
    have "last_lsn_of (we_lsn e) (take j es) = last_lsn_of lsn (e # take j es)" by (auto simp: last_lsn_of_def)
    then show ?thesis using j scan_record [OF ok, of crc pre] by (intro exI [of _ "Suc j"]) auto
  qed
  show ?case
  proof (cases "length ?B \<le> k")
    case True
    have D: "take k (stream crc (e # es)) @ replicate m 0 = ?B @ take (k - length ?B) (stream crc es) @ replicate m 0"
      using True by simp
    have k: "length ?B + (k - length ?B) = k" using True by simp
    have "k - length ?B \<le> length (stream crc es)" using Cons.prems(2) by auto
    from step [OF this, of m, unfolded k] show ?thesis unfolding D .
  next
    case False
    let ?t = "take k ?B @ replicate m 0"
    have D: "take k (stream crc (e # es)) @ replicate m 0 = ?t" using False by simp
    show ?thesis
    proof (cases "scan_tail_loop crc (pre @ ?t) (length pre) lsn = (lsn, length pre)")
      case True
      with False D show ?thesis by (intro exI [of _ 0]) (auto simp: last_lsn_of_def)
    next
      case no_stop: False
      then obtain e' n where "from_bytes crc ?t = Inr (e', n)"
        by (subst (asm) scan_tail_loop.simps) (auto split: if_splits sum.splits)
      from torn_record [OF ok _ this] False
      have "take (length ?B) ?t = ?B" by auto
      then have t: "?t = ?B @ replicate (m - (length ?B - k)) 0" using False
        by (metis append_take_drop_id drop_all drop_append drop_replicate length_take less_imp_le_nat min.absorb2 not_le
          append_Nil length_to_bytes)
      from step [of 0 "m - (length ?B - k)"] obtain j where j: "j \<le> length (e # es)"
        "scan_tail_loop crc (pre @ ?t) (length pre) lsn =
          (last_lsn_of lsn (take j (e # es)), length pre + length (stream crc (take j (e # es))))"
        "\<exists>rest. ?t = stream crc (take j (e # es)) @ rest"
        "j < length (e # es) \<longrightarrow> length ?B < length (stream crc (take (Suc j) (e # es)))"
        using t by auto
      show ?thesis unfolding D by (rule exI [of _ j]) (use j False in auto)
    qed
  qed
qed

subsection \<open>Reading the records back\<close>

lemma record_slice:
  assumes "wal_entry_ok e"
  shows "sub_slice (pre @ to_bytes crc e @ rest) (length pre) 4 = u32_le (word_of_nat (serialized_len e))"
    "sub_slice (pre @ to_bytes crc e @ rest) (length pre) (serialized_len e) = to_bytes crc e"
    "unat (word_of_nat (serialized_len e) :: u32) = serialized_len e"
    "from_bytes crc (to_bytes crc e) = Inr (e, serialized_len e)"
  using assms from_bytes_to_bytes [OF assms, of crc "[]"] serialized_len_min [of e]
  by (simp_all add: sub_slice_def unat_word_of_nat32 wal_entry_ok_def to_bytes_len_field)

lemma forward_scan_stream:
  assumes "all_ok es"
  shows "forward_scan crc (pre @ stream crc es @ rest) from_lsn (length pre + length (stream crc es)) (length pre) =
    map Inr (filter (\<lambda>e. from_lsn \<le> we_lsn e) es)"
  using assms
proof (induction es arbitrary: pre)
  case Nil
  then show ?case by (simp add: forward_scan.simps)
next
  case (Cons e es)
  let ?B = "to_bytes crc e"
  have ok: "wal_entry_ok e" using Cons.prems by simp
  note r = record_slice(1,2) [OF ok, of pre crc "stream crc es @ rest"] record_slice(3) [OF ok] record_slice(4) [OF ok, of crc]
  have IH: "forward_scan crc (pre @ ?B @ stream crc es @ rest) from_lsn
      (length pre + serialized_len e + length (stream crc es)) (length pre + serialized_len e) =
      map Inr (filter (\<lambda>e. from_lsn \<le> we_lsn e) es)"
    using Cons.IH [of "pre @ ?B"] Cons.prems by simp
  show ?case
    using serialized_len_min [of e] IH
    by (subst forward_scan.simps) (auto simp: r MIN_ENTRY_LEN_def Let_def not_less add.assoc)
qed

lemma record_slice_end:
  assumes "wal_entry_ok e"
  shows "sub_slice (pre @ to_bytes crc e @ rest) (length pre + serialized_len e - 4) 4 =
    u32_le (word_of_nat (serialized_len e))"
proof -
  have "length (wal_head (word_of_nat (serialized_len e)) e) + 4 = serialized_len e - 4"
    using length_wal_head [of "word_of_nat (serialized_len e)" e] by simp
  then have "drop (serialized_len e - 4) (to_bytes crc e) = u32_le (word_of_nat (serialized_len e))"
    unfolding to_bytes_head by simp
  moreover have "length pre + serialized_len e - 4 = length pre + (serialized_len e - 4)"
    using serialized_len_min [of e] by simp
  ultimately show ?thesis by (simp add: sub_slice_def)
qed

lemma backward_scan_stream:
  assumes "all_ok es" "length pre = WAL_HEADER_SIZE"
  shows "backward_scan crc (pre @ stream crc es @ rest) (length pre + length (stream crc es)) = map Inr (rev es)"
  using assms(1)
proof (induction es arbitrary: rest rule: rev_induct)
  case Nil
  then show ?case using assms(2) by (simp add: backward_scan.simps)
next
  case (snoc e es)
  let ?B = "to_bytes crc e" and ?p = "pre @ stream crc es"
  have ok: "wal_entry_ok e" using snoc.prems by simp
  note r = record_slice(1,2) [OF ok, of ?p crc rest] record_slice(3) [OF ok] record_slice(4) [OF ok, of crc] and t = record_slice_end [OF ok, of ?p crc rest]
  have IH: "backward_scan crc (?p @ ?B @ rest) (length ?p) = map Inr (rev es)"
    using snoc.IH [of "?B @ rest"] snoc.prems by simp
  have "backward_scan crc (?p @ ?B @ rest) (length ?p + serialized_len e) = Inr e # map Inr (rev es)"
    using serialized_len_min [of e] assms(2) IH r t
    by (subst backward_scan.simps) (simp add: MIN_ENTRY_LEN_def WAL_HEADER_SIZE_def Let_def del: length_append append_assoc, simp)
  then show ?case by (simp add: add.assoc)
qed

lemma length_wal_header [simp]: "length (wal_header l) = 24"
  by (simp add: wal_header_def)

lemma wal_header_read [simp]: "read_and_verify_header (wal_header l @ rest) = Inr l"
  by (simp add: read_and_verify_header_def wal_header_def sub_slice_def WAL_HEADER_SIZE_def START_LSN_OFFSET_def)

lemma wal_header_verify [simp]: "verify_header (wal_header l @ rest) = Inr ()"
  by (simp add: verify_header_def wal_header_def sub_slice_def WAL_HEADER_SIZE_def)

subsection \<open>What the writer leaves on disk\<close>

text \<open>The writer has been given the records \<open>es\<close>, of whose bytes the first \<open>k\<close> have reached the file; the
  rest is in the buffer.\<close>

definition ws_log :: "(u8 list \<Rightarrow> u32) \<Rightarrow> u64 \<Rightarrow> wal_entry list \<Rightarrow> nat \<Rightarrow> 'a writer_state_scheme \<Rightarrow> bool" where
  "ws_log crc start es k w \<longleftrightarrow> all_ok es \<and> k \<le> length (stream crc es) \<and>
     (\<exists>m. ws_file w = wal_header start @ take k (stream crc es) @ replicate m 0) \<and>
     ws_cursor w = 24 + k \<and> ws_buf w = drop k (stream crc es) \<and>
     ws_logical_end w = 24 + length (stream crc es) \<and> ws_reserved_end w = length (ws_file w) \<and>
     ws_logical_end w \<le> ws_reserved_end w"

lemma round_up_ge: "0 < q \<Longrightarrow> v \<le> round_up v q"
proof -
  assume q: "0 < q"
  have "v \<le> (v + q - 1) div q * q" if "0 < v"
    using q that div_mult_mod_eq [of "v + q - 1" q] mod_less_divisor [OF q, of "v + q - 1"] by linarith
  then show ?thesis by (simp add: round_up_def)
qed

lemma ws_log_create: "ws_log crc 0 [] 0 wal_create"
  by (auto simp: ws_log_def wal_create_def Let_def file_write_def set_len_def WAL_HEADER_SIZE_def
    round_up_def PREALLOC_CHUNK_def)

lemma write_into_zeros:
  "length as = off \<Longrightarrow> length bs \<le> m \<Longrightarrow>
   file_write (as @ replicate m 0) off bs = as @ bs @ replicate (m - length bs) 0"
  by (simp add: file_write_def)

lemma ws_log_flush:
  assumes "ws_log crc start es k w"
  shows "ws_log crc start es (length (stream crc es)) (buf_flush w)"
    "ws_reserved_end (buf_flush w) = ws_reserved_end w"
proof -
  let ?S = "stream crc es"
  from assms obtain m where f: "ws_file w = (wal_header start @ take k ?S) @ replicate m 0"
    and k: "k \<le> length ?S" and r: "24 + length ?S \<le> 24 + k + m"
    by (auto simp: ws_log_def)
  have "file_write (ws_file w) (24 + k) (drop k ?S) =
      (wal_header start @ take k ?S) @ drop k ?S @ replicate (m - length (drop k ?S)) 0"
    unfolding f by (rule write_into_zeros) (use k r in auto)
  then have "file_write (ws_file w) (24 + k) (drop k ?S) = wal_header start @ ?S @ replicate (m - (length ?S - k)) 0"
    by (metis append_assoc append_take_drop_id length_drop)
  then show "ws_log crc start es (length ?S) (buf_flush w)"
    using assms k f unfolding ws_log_def by (auto simp: buf_flush_def)
  show "ws_reserved_end (buf_flush w) = ws_reserved_end w" by (simp add: buf_flush_def)
qed

lemma ws_log_ensure:
  assumes "ws_log crc start es k w"
  shows "\<exists>k' \<ge> k. ws_log crc start es k' (ensure_capacity req w) \<and> req \<le> ws_reserved_end (ensure_capacity req w)"
proof (cases "req \<le> ws_reserved_end w")
  case True
  with assms show ?thesis by (auto simp: ensure_capacity_def)
next
  case False
  let ?S = "stream crc es" and ?n = "round_up req PREALLOC_CHUNK"
  have n: "req \<le> ?n" by (rule round_up_ge) (simp add: PREALLOC_CHUNK_def)
  note fl = ws_log_flush [OF assms]
  from fl(1) obtain m where f: "ws_file (buf_flush w) = wal_header start @ ?S @ replicate m 0" by (auto simp: ws_log_def)
  have len: "length (ws_file (buf_flush w)) \<le> ?n" using fl n False by (auto simp: ws_log_def)
  then have "set_len (ws_file (buf_flush w)) ?n = wal_header start @ ?S @ replicate (m + (?n - length (ws_file (buf_flush w)))) 0"
    unfolding set_len_def by (simp add: f flip: replicate_add)
  moreover have "k \<le> length ?S" using assms by (simp add: ws_log_def)
  ultimately show ?thesis
    using False fl n len f unfolding ws_log_def by (intro exI [of _ "length ?S"]) (auto simp: ensure_capacity_def Let_def)
qed

lemma ws_log_put:
  assumes "ws_log crc start es k w" "all_ok new" "ws_logical_end w + length (stream crc new) \<le> ws_reserved_end w"
  shows "\<exists>k' \<ge> k. ws_log crc start (es @ new) k' (put_bytes (stream crc new) w) \<and>
    ws_reserved_end (put_bytes (stream crc new) w) = ws_reserved_end w"
proof -
  let ?S = "stream crc es" and ?N = "stream crc new"
  have buffered: "ws_log crc start (es @ new) j (v\<lparr>ws_buf := ws_buf v @ ?N, ws_logical_end := ws_logical_end v + length ?N\<rparr>)"
    if "ws_log crc start es j v" "ws_reserved_end v = ws_reserved_end w" for j v
    using that assms unfolding ws_log_def by auto
  have direct: "ws_log crc start (es @ new) (length (?S @ ?N))
      (v\<lparr>ws_file := file_write (ws_file v) (ws_cursor v) ?N, ws_cursor := ws_cursor v + length ?N,
         ws_logical_end := ws_logical_end v + length ?N\<rparr>)"
    if v: "ws_log crc start es (length ?S) v" "ws_reserved_end v = ws_reserved_end w" for v
  proof -
    from v obtain m where f: "ws_file v = (wal_header start @ ?S) @ replicate m 0" by (auto simp: ws_log_def)
    have r: "24 + length ?S + length ?N \<le> length (ws_file v)" using v assms(1,3) by (simp add: ws_log_def)
    have "file_write (ws_file v) (24 + length ?S) ?N = (wal_header start @ ?S) @ ?N @ replicate (m - length ?N) 0"
      unfolding f by (rule write_into_zeros) (use r f in auto)
    then show ?thesis using v assms(2) r unfolding ws_log_def by (auto simp: f)
  qed
  show ?thesis
  proof (cases "length ?N < BUF_CAPACITY - length (ws_buf w)")
    case True
    with buffered [OF assms(1)] show ?thesis by (auto simp: put_bytes_def buf_write_all_def Let_def)
  next
    case small: False
    show ?thesis
    proof (cases "BUF_CAPACITY \<le> length ?N")
      case True
      have empty: "ws_log crc start es (length ?S) (if BUF_CAPACITY - length (ws_buf w) < length ?N then buf_flush w else w)"
        (is "ws_log crc start es _ ?v")
      proof (cases "BUF_CAPACITY - length (ws_buf w) < length ?N")
        case True
        then show ?thesis using ws_log_flush(1) [OF assms(1)] by simp
      next
        case False
        with \<open>BUF_CAPACITY \<le> length ?N\<close> have "length (ws_buf w) = 0" unfolding BUF_CAPACITY_def by linarith
        with assms(1) have "k = length ?S" by (simp add: ws_log_def)
        with False assms(1) show ?thesis by simp
      qed
      have "ws_reserved_end ?v = ws_reserved_end w" by (simp add: buf_flush_def)
      from direct [OF empty this] True small assms(1) show ?thesis
        by (intro exI [of _ "length (?S @ ?N)"])
          (auto simp: put_bytes_def buf_write_all_def Let_def ws_log_def buf_flush_def)
    next
      case False
      show ?thesis
      proof (cases "BUF_CAPACITY - length (ws_buf w) < length ?N")
        case True
        from buffered [OF ws_log_flush [OF assms(1)]] True small False assms(1) show ?thesis
          by (intro exI [of _ "length ?S"]) (auto simp: put_bytes_def buf_write_all_def Let_def ws_log_def buf_flush_def)
      next
        case no_flush: False
        from buffered [OF assms(1) refl] no_flush small False show ?thesis
          by (intro exI [of _ k]) (auto simp: put_bytes_def buf_write_all_def Let_def)
      qed
    qed
  qed
qed

lemma ws_log_append:
  assumes "ws_log crc start es k w" "all_ok new"
  shows "\<exists>k' \<ge> k. ws_log crc start (es @ new) k' (append_bytes (stream crc new) w)"
proof -
  define v where "v = ensure_capacity (ws_logical_end w + length (stream crc new)) w"
  from ws_log_ensure [OF assms(1), of "ws_logical_end w + length (stream crc new)"] obtain j where j: "k \<le> j"
    "ws_log crc start es j v" "ws_logical_end w + length (stream crc new) \<le> ws_reserved_end v"
    by (auto simp: v_def)
  have "ws_logical_end v = ws_logical_end w" using j(2) assms(1) by (simp add: ws_log_def)
  with j(3) have "ws_logical_end v + length (stream crc new) \<le> ws_reserved_end v" by simp
  from ws_log_put [OF j(2) assms(2) this] j(1) show ?thesis
    unfolding append_bytes_def v_def [symmetric] by (meson order_trans)
qed

lemma scan_valid_tail_loop:
  "scan_valid_tail crc (wal_header start @ bs) =
    (case scan_tail_loop crc bs 0 0 of
       (lsn, pos) \<Rightarrow> \<lparr>last_lsn = lsn, tail_end = 24 + pos, tail_reserved = 24 + length bs\<rparr>)"
  by (cases "bs = []") (simp_all add: scan_valid_tail_def WAL_HEADER_SIZE_def Let_def scan_tail_loop.simps)

text \<open>What is read from a file that holds the first \<open>k\<close> bytes of a sequence of records: a prefix of the
  records, with every record all of whose bytes are there.\<close>

lemma torn_log:
  assumes ok: "all_ok es" and k: "k \<le> length (stream crc es)"
    and f: "f = wal_header start @ take k (stream crc es) @ replicate m 0"
  shows "\<exists>j \<le> length es. read_forward crc f from_lsn = Inr (map Inr (filter (\<lambda>e. from_lsn \<le> we_lsn e) (take j es))) \<and>
    read_backward crc f = Inr (map Inr (rev (take j es))) \<and>
    last_lsn (scan_valid_tail crc f) = last_lsn_of 0 (take j es) \<and>
    (\<forall>i \<le> length es. length (stream crc (take i es)) \<le> k \<longrightarrow> i \<le> j)"
proof -
  from scan_tail_prefix [OF ok k, of "[]" m 0, unfolded append_Nil list.size(3) add_0] obtain j rest where j: "j \<le> length es"
    "scan_tail_loop crc (take k (stream crc es) @ replicate m 0) 0 0 =
      (last_lsn_of 0 (take j es), length (stream crc (take j es)))"
    "take k (stream crc es) @ replicate m 0 = stream crc (take j es) @ rest"
    "j < length es \<longrightarrow> k < length (stream crc (take (Suc j) es))" by blast
  have ok': "all_ok (take j es)" using ok by (auto dest: in_set_takeD)
  have tail: "tail_end (scan_valid_tail crc f) = 24 + length (stream crc (take j es))"
    "last_lsn (scan_valid_tail crc f) = last_lsn_of 0 (take j es)"
    using j(2) by (simp_all add: f scan_valid_tail_loop)
  have f': "f = wal_header start @ stream crc (take j es) @ rest" by (simp add: f j(3))
  have "read_forward crc f from_lsn = Inr (map Inr (filter (\<lambda>e. from_lsn \<le> we_lsn e) (take j es)))"
    using forward_scan_stream [OF ok', of crc "wal_header start" rest from_lsn] tail(1)
    by (simp add: read_forward_def f' WAL_HEADER_SIZE_def)
  moreover have "read_backward crc f = Inr (map Inr (rev (take j es)))"
    using backward_scan_stream [OF ok', of "wal_header start" crc rest] tail(1)
    by (simp add: read_backward_def f' WAL_HEADER_SIZE_def)
  moreover have "i \<le> j" if "i \<le> length es" "length (stream crc (take i es)) \<le> k" for i
  proof (rule ccontr)
    assume "\<not> i \<le> j"
    then have "take (Suc j) es = take (Suc j) (take i es)" by simp
    then have "length (stream crc (take (Suc j) es)) \<le> length (stream crc (take i es))"
      using append_take_drop_id [of "Suc j" "take i es"] by (metis concat_append length_append le_add1 map_append)
    with j(4) \<open>\<not> i \<le> j\<close> that show False by simp
  qed
  ultimately show ?thesis using j(1) tail(2) by blast
qed

lemma flushed_log:
  assumes "ws_log crc start es (length (stream crc es)) w"
  shows "read_forward crc (ws_file w) from_lsn = Inr (map Inr (filter (\<lambda>e. from_lsn \<le> we_lsn e) es))"
    "last_lsn (scan_valid_tail crc (ws_file w)) = last_lsn_of 0 es"
    "read_and_verify_header (ws_file w) = Inr start"
proof -
  from assms obtain m where f: "ws_file w = wal_header start @ take (length (stream crc es)) (stream crc es) @ replicate m 0"
    and ok: "all_ok es" by (auto simp: ws_log_def)
  from torn_log [OF ok order_refl f, of from_lsn]
  show "read_forward crc (ws_file w) from_lsn = Inr (map Inr (filter (\<lambda>e. from_lsn \<le> we_lsn e) es))"
    "last_lsn (scan_valid_tail crc (ws_file w)) = last_lsn_of 0 es" by fastforce+
  show "read_and_verify_header (ws_file w) = Inr start" by (simp add: f)
qed

text \<open>C5: A crash may cut the log off at any byte. Whatever prefix of the records' bytes reached the
  zero-filled file, the readers return a prefix of the records, forwards and backwards, which
  contains every record that was written completely; a record that was cut off is never
  returned in part, whatever the checksum function is.\<close>

theorem torn_log_prefix:
  assumes "all_ok es" "k \<le> length (stream crc es)"
    "f = wal_header start @ take k (stream crc es) @ replicate m 0"
  shows "\<exists>j \<le> length es. read_forward crc f 0 = Inr (map Inr (take j es)) \<and>
    read_backward crc f = Inr (map Inr (rev (take j es))) \<and>
    (\<forall>i \<le> length es. length (stream crc (take i es)) \<le> k \<longrightarrow> i \<le> j)"
  using torn_log [OF assms, of 0] by auto

theorem torn_log_prefix_witness:
  "\<exists>j \<le> 2. 1 \<le> j \<and> read_forward (\<lambda>_. 7) (wal_header 0 @
      take 50 (stream (\<lambda>_. 7) [control_entry 1 9 Begin, control_entry 2 9 Commit]) @ replicate 100 0) 0 =
    Inr (map Inr (take j [control_entry 1 9 Begin, control_entry 2 9 Commit]))"
proof -
  let ?es = "[control_entry 1 9 Begin, control_entry 2 9 Commit]"
  have "all_ok ?es" "50 \<le> length (stream (\<lambda>_. 7) ?es)" by simp_all
  from torn_log_prefix [OF this refl, of 0 100] obtain j where j: "j \<le> length ?es"
    "read_forward (\<lambda>_. 7) (wal_header 0 @ take 50 (stream (\<lambda>_. 7) ?es) @ replicate 100 0) 0 = Inr (map Inr (take j ?es))"
    "\<forall>i \<le> length ?es. length (stream (\<lambda>_. 7) (take i ?es)) \<le> 50 \<longrightarrow> i \<le> j" by blast
  from j(3) have "1 \<le> j" by (auto dest: spec [of _ 1])
  with j(1,2) show ?thesis by (intro exI [of _ j]) simp
qed

end
