(* ===== verification/Wal_Concurrent.thy ===== *)
theory Wal_Concurrent
  imports Wal_Crash "HOL-Library.Multiset"
begin

text \<open>
  \<open>axiomdb-wal/src/concurrent_writer.rs\<close>: the log writer shared by all connections. Sequence numbers
  are reserved by an atomic counter, serialised records wait in a queue under one lock, and
  whoever flushes drains the queue, sorts it and writes it under a second lock. The steps of
  the threads are the critical sections of the source.
\<close>

subsection \<open>The writer\<close>

record concurrent_wal =
  cw_next_lsn :: u64
  cw_flushed_lsn :: u64
  cw_queue :: "(u64 \<times> u8 list) list"
  cw_total_bytes :: nat
  cw_writer :: writer_state

definition queue_push :: "u64 \<Rightarrow> u8 list \<Rightarrow> concurrent_wal \<Rightarrow> concurrent_wal" where
  "queue_push base_lsn bs c =
     c\<lparr>cw_total_bytes := cw_total_bytes c + length bs, cw_queue := cw_queue c @ [(base_lsn, bs)]\<rparr>"

text \<open>The source sorts with \<open>sort_unstable_by_key\<close>. The numbers in the queue come from separate reservations
  and differ, so that the order of equal keys does not matter.\<close>

definition drain_sorted :: "concurrent_wal \<Rightarrow> concurrent_wal \<times> (u64 \<times> u8 list) list" where
  "drain_sorted c = (c\<lparr>cw_queue := [], cw_total_bytes := 0\<rparr>, sort_key fst (cw_queue c))"

definition write_entries :: "(u64 \<times> u8 list) list \<Rightarrow> writer_state \<Rightarrow> writer_state" where
  "write_entries entries w =
     (if entries = [] then w
      else let total_bytes = sum_list (map (\<lambda>(_, b). length b) entries);
               w = ensure_capacity (ws_logical_end w + total_bytes) w
           in fold (\<lambda>(_, bs). put_bytes bs) entries w)"

definition cw_create :: concurrent_wal where
  "cw_create = \<lparr>cw_next_lsn = 1, cw_flushed_lsn = 0, cw_queue = [], cw_total_bytes = 0,
     cw_writer = writer_state.truncate wal_create\<rparr>"

definition cw_open :: "(u8 list \<Rightarrow> u32) \<Rightarrow> u8 list \<Rightarrow> db_error + concurrent_wal" where
  "cw_open crc f =
     ebind (read_and_verify_header f) (\<lambda>start_lsn.
       let tail = scan_valid_tail crc f in
       Inr \<lparr>cw_next_lsn = max (last_lsn tail) start_lsn + 1, cw_flushed_lsn = last_lsn tail,
            cw_queue = [], cw_total_bytes = 0,
            cw_writer = \<lparr>ws_file = f, ws_cursor = tail_end tail, ws_buf = [],
              ws_logical_end = tail_end tail, ws_reserved_end = tail_reserved tail\<rparr>\<rparr>)"

definition cw_reserve_lsns :: "nat \<Rightarrow> concurrent_wal \<Rightarrow> concurrent_wal \<times> u64" where
  "cw_reserve_lsns n c = (c\<lparr>cw_next_lsn := cw_next_lsn c + word_of_nat n\<rparr>, cw_next_lsn c)"

definition cw_current_lsn :: "concurrent_wal \<Rightarrow> u64" where
  "cw_current_lsn c = (if cw_next_lsn c = 0 then 0 else cw_next_lsn c - 1)"

definition cw_append :: "(u8 list \<Rightarrow> u32) \<Rightarrow> wal_entry \<Rightarrow> concurrent_wal \<Rightarrow> concurrent_wal \<times> wal_entry" where
  "cw_append crc entry c =
     (case cw_reserve_lsns 1 c of
        (c, lsn) \<Rightarrow> let entry = entry\<lparr>we_lsn := lsn\<rparr> in (queue_push lsn (to_bytes crc entry) c, entry))"

definition cw_write_batch :: "u64 \<Rightarrow> u8 list \<Rightarrow> concurrent_wal \<Rightarrow> concurrent_wal" where
  "cw_write_batch base_lsn batch c = (if batch = [] then c else queue_push base_lsn batch c)"

text \<open>The part of a flush after the queue has been drained: write, flush, and raise the watermark to
  the base number of the last batch. \<open>flush_and_sync\<close> drains while it holds the writer lock;
  \<open>flush_no_sync\<close> drains first and takes the writer lock afterwards.\<close>

definition cw_write_drained :: "(u64 \<times> u8 list) list \<Rightarrow> concurrent_wal \<Rightarrow> concurrent_wal" where
  "cw_write_drained entries c =
     (let c = c\<lparr>cw_writer := buf_flush (write_entries entries (cw_writer c))\<rparr> in
      if entries = [] then c
      else c\<lparr>cw_flushed_lsn := max (cw_flushed_lsn c) (fst (last entries))\<rparr>)"

definition flush_and_sync :: "concurrent_wal \<Rightarrow> concurrent_wal" where
  "flush_and_sync c = (case drain_sorted c of (c, entries) \<Rightarrow> cw_write_drained entries c)"

subsection \<open>Threads\<close>

text \<open>A thread may have reserved a run of sequence numbers it has not yet submitted, or have drained
  the queue in \<open>flush_no_sync\<close> without having written it. \<open>submitted\<close> records the batches in the
  order they entered the queue.\<close>

record wal_sys =
  sys_wal :: concurrent_wal
  sys_reserved :: "nat \<Rightarrow> (u64 \<times> nat) option"
  sys_drained :: "(nat \<times> (u64 \<times> u8 list) list) list"
  sys_submitted :: "(u64 \<times> wal_entry list) list"

definition sys_init :: wal_sys where
  "sys_init = \<lparr>sys_wal = cw_create, sys_reserved = (\<lambda>_. None), sys_drained = [], sys_submitted = []\<rparr>"

inductive wal_step :: "(u8 list \<Rightarrow> u32) \<Rightarrow> wal_sys \<Rightarrow> wal_sys \<Rightarrow> bool" for crc where
  step_reserve: "sys_reserved s t = None \<Longrightarrow> cw_reserve_lsns n (sys_wal s) = (c, base) \<Longrightarrow>
    wal_step crc s (s\<lparr>sys_wal := c, sys_reserved := (sys_reserved s)(t \<mapsto> (base, n))\<rparr>)"
| step_submit: "sys_reserved s t = Some (base, n) \<Longrightarrow> length es = n \<Longrightarrow> es \<noteq> [] \<Longrightarrow>
    \<forall>e \<in> set es. wal_entry_ok e \<Longrightarrow> \<forall>i < n. we_lsn (es ! i) = base + word_of_nat i \<Longrightarrow>
    wal_step crc s (s\<lparr>sys_wal := cw_write_batch base (stream crc es) (sys_wal s),
      sys_reserved := (sys_reserved s)(t := None), sys_submitted := sys_submitted s @ [(base, es)]\<rparr>)"
| step_sync: "wal_step crc s (s\<lparr>sys_wal := flush_and_sync (sys_wal s)\<rparr>)"
| step_drain: "drain_sorted (sys_wal s) = (c, entries) \<Longrightarrow>
    wal_step crc s (s\<lparr>sys_wal := c, sys_drained := sys_drained s @ [(t, entries)]\<rparr>)"
| step_write: "sys_drained s = xs @ (t, entries) # ys \<Longrightarrow>
    wal_step crc s (s\<lparr>sys_wal := cw_write_drained entries (sys_wal s), sys_drained := xs @ ys\<rparr>)"

inductive wal_reachable :: "(u8 list \<Rightarrow> u32) \<Rightarrow> wal_sys \<Rightarrow> bool" for crc where
  reach_init: "wal_reachable crc sys_init"
| reach_step: "wal_reachable crc s \<Longrightarrow> wal_step crc s s' \<Longrightarrow> wal_reachable crc s'"

subsection \<open>Writing the drained batches\<close>

definition encode :: "(u8 list \<Rightarrow> u32) \<Rightarrow> u64 \<times> wal_entry list \<Rightarrow> u64 \<times> u8 list" where
  "encode crc b = (fst b, stream crc (snd b))"

abbreviation records :: "(u64 \<times> wal_entry list) list \<Rightarrow> wal_entry list" where
  "records bs \<equiv> concat (map snd bs)"

lemma insort_key_map: "insort_key k (f x) (map f xs) = map f (insort_key (\<lambda>y. k (f y)) x xs)"
  by (induction xs) auto

lemma sort_key_map: "sort_key k (map f xs) = map f (sort_key (\<lambda>y. k (f y)) xs)"
  by (induction xs) (simp_all add: insort_key_map)

lemma sort_encoded: "sort_key fst (map (encode crc) bs) = map (encode crc) (sort_key fst bs)"
  by (simp add: sort_key_map encode_def)

lemma ws_log_truncate: "ws_log crc start es k (writer_state.truncate w) = ws_log crc start es k w"
  by (simp add: ws_log_def writer_state.defs)

lemma ws_log_put_all:
  assumes "ws_log crc start es k w" "all_ok (records bs)"
    "ws_logical_end w + length (stream crc (records bs)) \<le> ws_reserved_end w"
  shows "\<exists>k'. ws_log crc start (es @ records bs) k' (fold (\<lambda>(_, b). put_bytes b) (map (encode crc) bs) w)"
  using assms
proof (induction bs arbitrary: es k w)
  case (Cons b bs)
  let ?N = "stream crc (snd b)"
  have "ws_logical_end w + length ?N \<le> ws_reserved_end w" using Cons.prems(3) by simp
  from ws_log_put [OF Cons.prems(1) _ this] Cons.prems(2) obtain k' where k':
    "ws_log crc start (es @ snd b) k' (put_bytes ?N w)" "ws_reserved_end (put_bytes ?N w) = ws_reserved_end w" by auto
  moreover have "ws_logical_end (put_bytes ?N w) = ws_logical_end w + length ?N"
    using k'(1) Cons.prems(1) by (simp add: ws_log_def)
  ultimately show ?case using Cons.IH [OF k'(1)] Cons.prems(2,3) by (simp add: encode_def)
qed auto

lemma write_drained_log:
  assumes "ws_log crc start es k (cw_writer c)" "all_ok (records bs)"
  shows "ws_log crc start (es @ records bs) (length (stream crc (es @ records bs)))
    (cw_writer (cw_write_drained (map (encode crc) bs) c))"
proof -
  have "\<exists>k'. ws_log crc start (es @ records bs) k' (write_entries (map (encode crc) bs) (cw_writer c))"
  proof (cases "bs = []")
    case False
    define w where "w = ensure_capacity (ws_logical_end (cw_writer c) + length (stream crc (records bs))) (cw_writer c)"
    have len: "sum_list (map (\<lambda>(_, b). length b) (map (encode crc) bs)) = length (stream crc (records bs))"
      by (induction bs) (auto simp: encode_def)
    from ws_log_ensure [OF assms(1), of "ws_logical_end (cw_writer c) + length (stream crc (records bs))"]
    obtain j where j: "ws_log crc start es j w"
      "ws_logical_end (cw_writer c) + length (stream crc (records bs)) \<le> ws_reserved_end w" by (auto simp: w_def)
    have "ws_logical_end w = ws_logical_end (cw_writer c)" using j(1) assms(1) by (simp add: ws_log_def)
    with j(2) have "ws_logical_end w + length (stream crc (records bs)) \<le> ws_reserved_end w" by simp
    from ws_log_put_all [OF j(1) assms(2) this] False show ?thesis
      unfolding write_entries_def Let_def len by (simp add: w_def)
  qed (use assms(1) in \<open>auto simp: write_entries_def\<close>)
  then obtain k' where "ws_log crc start (es @ records bs) k' (write_entries (map (encode crc) bs) (cw_writer c))" by blast
  from ws_log_flush(1) [OF this] show ?thesis by (auto simp: cw_write_drained_def Let_def)
qed

lemma drained_queue [simp]:
  "cw_queue (cw_write_drained entries c) = cw_queue c" "cw_next_lsn (cw_write_drained entries c) = cw_next_lsn c"
  by (simp_all add: cw_write_drained_def Let_def)

subsection \<open>Nothing is lost or torn\<close>

text \<open>The batches written so far, those in the queue and those drained but not yet written make up all
  that was submitted; the file holds exactly the records of the written ones.\<close>

definition sys_inv ::
  "(u8 list \<Rightarrow> u32) \<Rightarrow> wal_sys \<Rightarrow> (u64 \<times> wal_entry list) list \<Rightarrow> (u64 \<times> wal_entry list) list \<Rightarrow>
   (u64 \<times> wal_entry list) list list \<Rightarrow> bool" where
  "sys_inv crc s written queued drained \<longleftrightarrow>
     ws_log crc 0 (records written) (length (stream crc (records written))) (cw_writer (sys_wal s)) \<and>
     cw_queue (sys_wal s) = map (encode crc) queued \<and>
     map snd (sys_drained s) = map (map (encode crc)) drained \<and>
     all_ok (records queued) \<and> all_ok (records (concat drained)) \<and>
     mset (sys_submitted s) = mset written + mset queued + mset (concat drained)"

lemma sys_inv_init: "sys_inv crc sys_init [] [] []"
  using ws_log_create [of crc] ws_log_truncate [of crc 0 "[]" 0 wal_create]
  by (simp add: sys_inv_def sys_init_def cw_create_def)

lemma stream_nonempty: "es \<noteq> [] \<Longrightarrow> stream crc es \<noteq> []"
proof -
  have "to_bytes crc e \<noteq> []" for e
    using serialized_len_min [of e] length_to_bytes [of crc e] by (metis list.size(3) not_numeral_le_zero)
  then show "es \<noteq> [] \<Longrightarrow> ?thesis" by (cases es) auto
qed

lemma sys_inv_step:
  assumes "sys_inv crc s written queued drained" "wal_step crc s s'"
  shows "\<exists>written queued drained. sys_inv crc s' written queued drained"
  using assms(2)
proof cases
  case (step_reserve t n c base)
  with assms(1) have "sys_inv crc s' written queued drained" by (auto simp: sys_inv_def cw_reserve_lsns_def)
  then show ?thesis by blast
next
  case (step_submit t base n es)
  have "sys_inv crc s' written (queued @ [(base, es)]) drained"
    using assms(1) step_submit stream_nonempty [of es crc]
    by (auto simp: sys_inv_def cw_write_batch_def queue_push_def encode_def)
  then show ?thesis by blast
next
  case step_sync
  have "sys_inv crc s' (written @ sort_key fst queued) [] drained"
    using assms(1) write_drained_log [of crc 0 "records written" _ "sys_wal s\<lparr>cw_queue := [], cw_total_bytes := 0\<rparr>" "sort_key fst queued"]
    by (auto simp: sys_inv_def step_sync flush_and_sync_def drain_sorted_def sort_encoded)
  then show ?thesis by blast
next
  case (step_drain c entries t)
  have "sys_inv crc s' written [] (drained @ [sort_key fst queued])"
    using assms(1) step_drain by (auto simp: sys_inv_def drain_sorted_def sort_encoded)
  then show ?thesis by blast
next
  case (step_write xs t entries ys)
  from assms(1) step_write(2) obtain dx d dy where d: "drained = dx @ d # dy" "entries = map (encode crc) d"
    "map snd xs = map (map (encode crc)) dx" "map snd ys = map (map (encode crc)) dy"
    unfolding sys_inv_def by (auto simp: map_eq_append_conv append_eq_map_conv map_eq_Cons_conv Cons_eq_map_conv)
  have ok: "all_ok (records d)" "all_ok (records (concat (dx @ dy)))"
    using assms(1) unfolding sys_inv_def d(1) by (simp_all add: ball_Un)
  have log: "ws_log crc 0 (records written) (length (stream crc (records written))) (cw_writer (sys_wal s))"
    using assms(1) by (simp add: sys_inv_def)
  have "sys_inv crc s' (written @ d) queued (dx @ dy)"
    using assms(1) write_drained_log [OF log ok(1)] step_write d ok(2) by (simp add: sys_inv_def)
  then show ?thesis by blast
qed

lemma sys_inv_reachable: "wal_reachable crc s \<Longrightarrow> \<exists>written queued drained. sys_inv crc s written queued drained"
  by (induction rule: wal_reachable.induct) (use sys_inv_init sys_inv_step in blast)+

abbreviation log_file :: "wal_sys \<Rightarrow> u8 list" where
  "log_file s \<equiv> ws_file (cw_writer (sys_wal s))"

text \<open>C10: However the threads interleave their reservations, submissions and flushes, the log file
  holds whole records only, and every submitted batch is in exactly one place: in the file, in
  the queue, or in the hands of a thread that drained the queue and has not written it yet.\<close>

theorem wal_conserves:
  assumes "wal_reachable crc s"
  shows "\<exists>written pending. read_forward crc (log_file s) 0 = Inr (map Inr (records written)) \<and>
    mset (sys_submitted s) = mset written + mset pending \<and>
    mset (map (encode crc) pending) = mset (cw_queue (sys_wal s)) + mset (concat (map snd (sys_drained s)))"
proof -
  from sys_inv_reachable [OF assms] obtain written queued drained where i: "sys_inv crc s written queued drained" by blast
  have "mset (map (encode crc) (queued @ concat drained)) =
      mset (cw_queue (sys_wal s)) + mset (concat (map snd (sys_drained s)))"
    using i by (simp add: sys_inv_def map_concat)
  moreover have "read_forward crc (log_file s) 0 = Inr (map Inr (records written))"
    using i flushed_log(1) [of crc 0 "records written" "cw_writer (sys_wal s)" 0] by (simp add: sys_inv_def)
  moreover have "mset (sys_submitted s) = mset written + mset (queued @ concat drained)"
    using i by (simp add: sys_inv_def)
  ultimately show ?thesis by blast
qed

text \<open>C15: Group commit: one \<open>flush_and_sync\<close> makes the records of all connections that have submitted
  them part of the file, provided that no other thread is between the two steps of
  \<open>flush_no_sync\<close>.\<close>

theorem sync_covers_all:
  assumes "wal_reachable crc s" "sys_drained s = []"
  shows "\<exists>written. mset written = mset (sys_submitted s) \<and>
    read_forward crc (ws_file (cw_writer (flush_and_sync (sys_wal s)))) 0 = Inr (map Inr (records written))"
proof -
  from sys_inv_reachable [OF assms(1)] obtain written queued drained where i: "sys_inv crc s written queued drained" by blast
  let ?c = "sys_wal s\<lparr>cw_queue := [], cw_total_bytes := 0\<rparr>"
  from i have log: "ws_log crc 0 (records written) (length (stream crc (records written))) (cw_writer ?c)"
    and ok: "all_ok (records (sort_key fst queued))" by (auto simp: sys_inv_def)
  have d: "drained = []" using i assms(2) by (simp add: sys_inv_def)
  from flushed_log(1) [OF write_drained_log [OF log ok], of 0] i
  have "read_forward crc (ws_file (cw_writer (flush_and_sync (sys_wal s)))) 0 =
      Inr (map Inr (records (written @ sort_key fst queued)))"
    by (simp add: flush_and_sync_def drain_sorted_def sys_inv_def sort_encoded)
  moreover have "mset (written @ sort_key fst queued) = mset (sys_submitted s)"
    using i d by (simp add: sys_inv_def)
  ultimately show ?thesis by blast
qed

subsection \<open>A commit record before its begin record\<close>

text \<open>Transaction 7 logs Begin and Insert; another connection drains the queue in \<open>flush_no_sync\<close>;
  transaction 7 logs Commit and syncs; then the other connection writes what it drained.\<close>

definition rec_insert :: "u64 \<Rightarrow> u64 \<Rightarrow> wal_entry" where
  "rec_insert lsn txn = (control_entry lsn txn Insert)\<lparr>we_new_value := u64_le 5 @ u16_le 0\<rparr>"

lemma rec_insert_ok [simp]: "wal_entry_ok (rec_insert l x)" "we_lsn (rec_insert l x) = l"
  by (simp_all add: rec_insert_def control_entry_def wal_entry_ok_def serialized_len_def MIN_ENTRY_LEN_def)

lemma submit_one:
  assumes "wal_reachable crc s" "sys_reserved s = (\<lambda>_. None)" "wal_entry_ok e" "we_lsn e = cw_next_lsn (sys_wal s)"
  shows "\<exists>s'. wal_reachable crc s' \<and> sys_reserved s' = (\<lambda>_. None) \<and> sys_drained s' = sys_drained s \<and>
    cw_next_lsn (sys_wal s') = cw_next_lsn (sys_wal s) + 1 \<and> cw_writer (sys_wal s') = cw_writer (sys_wal s) \<and>
    cw_queue (sys_wal s') = cw_queue (sys_wal s) @ [encode crc (we_lsn e, [e])]"
proof -
  let ?base = "cw_next_lsn (sys_wal s)"
  let ?c = "sys_wal s\<lparr>cw_next_lsn := ?base + word_of_nat 1\<rparr>"
  let ?s1 = "s\<lparr>sys_wal := ?c, sys_reserved := (sys_reserved s)(0 \<mapsto> (?base, 1))\<rparr>"
  have "wal_step crc s ?s1" by (rule step_reserve) (simp_all add: assms(2) cw_reserve_lsns_def)
  with assms(1) have r1: "wal_reachable crc ?s1" by (rule reach_step)
  let ?s2 = "?s1\<lparr>sys_wal := cw_write_batch ?base (stream crc [e]) (sys_wal ?s1),
      sys_reserved := (sys_reserved ?s1)(0 := None), sys_submitted := sys_submitted ?s1 @ [(?base, [e])]\<rparr>"
  have "wal_step crc ?s1 ?s2" by (rule step_submit) (use assms(3,4) in auto)
  with r1 have "wal_reachable crc ?s2" by (rule reach_step)
  moreover have "stream crc [e] \<noteq> []" by (rule stream_nonempty) simp
  ultimately show ?thesis
    using assms(2,4) by (intro exI [of _ ?s2]) (simp add: cw_write_batch_def queue_push_def encode_def)
qed

lemma commit_before_begin:
  "\<exists>s. wal_reachable crc s \<and>
    ws_log crc 0 [control_entry 3 7 Commit, control_entry 1 7 Begin, rec_insert 2 7]
      (length (stream crc [control_entry 3 7 Commit, control_entry 1 7 Begin, rec_insert 2 7])) (cw_writer (sys_wal s)) \<and>
    cw_queue (sys_wal s) = [] \<and> sys_drained s = []"
proof -
  let ?b = "control_entry 1 7 Begin" and ?i = "rec_insert 2 7" and ?c = "control_entry 3 7 Commit"
  have w0: "ws_log crc 0 [] 0 (cw_writer (sys_wal sys_init))"
    using ws_log_create [of crc] ws_log_truncate [of crc 0 "[]" 0 wal_create] by (simp add: sys_init_def cw_create_def)
  have n0: "cw_next_lsn (sys_wal sys_init) = 1" "cw_queue (sys_wal sys_init) = []" "sys_drained sys_init = []"
    "sys_reserved sys_init = (\<lambda>_. None)" by (simp_all add: sys_init_def cw_create_def)
  from submit_one [OF reach_init n0(4), of ?b] n0 obtain s1 where s1: "wal_reachable crc s1"
    "sys_reserved s1 = (\<lambda>_. None)" "sys_drained s1 = []" "cw_next_lsn (sys_wal s1) = 2"
    "cw_writer (sys_wal s1) = cw_writer (sys_wal sys_init)" "cw_queue (sys_wal s1) = map (encode crc) [(1, [?b])]" by auto
  from submit_one [OF s1(1,2), of ?i] s1 obtain s2 where s2: "wal_reachable crc s2"
    "sys_reserved s2 = (\<lambda>_. None)" "sys_drained s2 = []" "cw_next_lsn (sys_wal s2) = 3"
    "cw_writer (sys_wal s2) = cw_writer (sys_wal sys_init)"
    "cw_queue (sys_wal s2) = map (encode crc) [(1, [?b]), (2, [?i])]" by auto
  define s3 where "s3 = s2\<lparr>sys_wal := sys_wal s2\<lparr>cw_queue := [], cw_total_bytes := 0\<rparr>,
    sys_drained := [(1, map (encode crc) [(1, [?b]), (2, [?i])])]\<rparr>"
  have "drain_sorted (sys_wal s2) =
      (sys_wal s2\<lparr>cw_queue := [], cw_total_bytes := 0\<rparr>, map (encode crc) [(1, [?b]), (2, [?i])])"
    by (simp add: drain_sorted_def s2(6) encode_def)
  from step_drain [of s2, OF this, of crc 1] s2(3) have "wal_step crc s2 s3" by (simp add: s3_def)
  with s2(1) have r3: "wal_reachable crc s3" by (rule reach_step)
  have "sys_reserved s3 = (\<lambda>_. None)" "we_lsn ?c = cw_next_lsn (sys_wal s3)" using s2 by (simp_all add: s3_def)
  from submit_one [OF r3 this(1) _ this(2)] s2(5) obtain s4 where s4: "wal_reachable crc s4"
    "sys_drained s4 = [(1, map (encode crc) [(1, [?b]), (2, [?i])])]"
    "cw_writer (sys_wal s4) = cw_writer (sys_wal sys_init)" "cw_queue (sys_wal s4) = map (encode crc) [(3, [?c])]"
    by (auto simp: s3_def)
  define s5 where "s5 = s4\<lparr>sys_wal := flush_and_sync (sys_wal s4)\<rparr>"
  have r5: "wal_reachable crc s5" unfolding s5_def by (rule reach_step [OF s4(1) step_sync])
  have l5: "ws_log crc 0 [?c] (length (stream crc [?c])) (cw_writer (sys_wal s5))"
    using write_drained_log [of crc 0 "[]" 0 "sys_wal s4\<lparr>cw_queue := [], cw_total_bytes := 0\<rparr>" "[(3, [?c])]"] w0 s4(3,4)
    by (simp add: s5_def flush_and_sync_def drain_sorted_def)
  define s6 where "s6 = s5\<lparr>sys_wal := cw_write_drained (map (encode crc) [(1, [?b]), (2, [?i])]) (sys_wal s5), sys_drained := []\<rparr>"
  have "wal_step crc s5 s6" using step_write [of s5 "[]" 1 _ "[]" crc] s4(2) by (simp add: s5_def s6_def)
  with r5 have "wal_reachable crc s6" by (rule reach_step)
  moreover have "ws_log crc 0 [?c, ?b, ?i] (length (stream crc [?c, ?b, ?i])) (cw_writer (sys_wal s6))"
    using write_drained_log [OF l5, of "[(1, [?b]), (2, [?i])]"] by (simp add: s6_def)
  moreover have "cw_queue (sys_wal s6) = []" "sys_drained s6 = []"
    using s4(4) by (simp_all add: s6_def s5_def flush_and_sync_def drain_sorted_def)
  ultimately show ?thesis by blast
qed

text \<open>C29: Sorting before writing does not keep the file in the order of the sequence numbers, because
  \<open>flush_no_sync\<close> releases the queue before it takes the writer lock: a run of the system writes
  the Commit record of a transaction before its Begin and Insert records. Reopening that log
  hands out the sequence number 3 a second time.\<close>

theorem log_out_of_order:
  "\<exists>s c. wal_reachable crc s \<and>
    read_forward crc (log_file s) 0 = Inr (map Inr [control_entry 3 7 Commit, control_entry 1 7 Begin, rec_insert 2 7]) \<and>
    cw_open crc (log_file s) = Inr c \<and> cw_next_lsn c = 3"
proof -
  from commit_before_begin [of crc] obtain s where s: "wal_reachable crc s"
    "ws_log crc 0 [control_entry 3 7 Commit, control_entry 1 7 Begin, rec_insert 2 7]
      (length (stream crc [control_entry 3 7 Commit, control_entry 1 7 Begin, rec_insert 2 7])) (cw_writer (sys_wal s))"
    by blast
  note f = flushed_log(1) [OF s(2), of 0] flushed_log(2) [OF s(2)] flushed_log(3) [OF s(2)]
  have "cw_open crc (log_file s) = Inr c \<Longrightarrow> cw_next_lsn c = 3" for c
    using f(2) by (auto simp: cw_open_def f(3) last_lsn_of_def Let_def)
  moreover obtain c where "cw_open crc (log_file s) = Inr c" by (simp add: cw_open_def f(3) Let_def)
  ultimately show ?thesis using s(1) f(1) by (intro exI [of _ s] exI [of _ c]) simp
qed

theorem wal_conserves_witness:
  "\<exists>s written pending. wal_reachable (\<lambda>_. 7) s \<and>
    read_forward (\<lambda>_. 7) (log_file s) 0 = Inr (map Inr (records written)) \<and>
    mset (sys_submitted s) = mset written + mset pending"
  using commit_before_begin [of "\<lambda>_. 7"] wal_conserves by blast

theorem sync_covers_all_witness:
  "\<exists>s written. wal_reachable (\<lambda>_. 7) s \<and> mset written = mset (sys_submitted s) \<and>
    read_forward (\<lambda>_. 7) (ws_file (cw_writer (flush_and_sync (sys_wal s)))) 0 = Inr (map Inr (records written))"
  using commit_before_begin [of "\<lambda>_. 7"] sync_covers_all by blast

end
