(* ===== verification/Storage.thy ===== *)
theory Storage
  imports Free_List Page_Layout
begin

text \<open>
  \<open>axiomdb-storage/src/memory.rs\<close> and the defaults of \<open>engine.rs\<close>: the in-memory storage engine, a flat
  array of pages, a flag per page and the free-page bitmap. The per-page latches serialise
  the writers of a page and are not part of the state. \<open>page_store\<close> states what the clients of
  the storage trait rely on.
\<close>

subsection \<open>The engine\<close>

record mem_storage =
  ms_pages :: "page list"
  ms_allocated :: "bool list"
  ms_freelist :: free_list

definition mem_new :: "checksum \<Rightarrow> mem_storage option" where
  "mem_new crc =
     (case fl_new 64 [0, 1] of
        None \<Rightarrow> None
      | Some fl \<Rightarrow> Some \<lparr>ms_pages = (replicate 64 (page_new crc Free 0))[0 := page_new crc Meta 0],
          ms_allocated = (replicate 64 False)[0 := True], ms_freelist = fl\<rparr>)"

definition mem_read_page :: "mem_storage \<Rightarrow> page_id \<Rightarrow> db_error + page" where
  "mem_read_page st pid =
     (let idx = unat pid in
      if length (ms_pages st) \<le> idx \<or> \<not> ms_allocated st ! idx then Inl (PageNotFound pid)
      else Inr (ms_pages st ! idx))"

definition mem_write_page :: "checksum \<Rightarrow> page_id \<Rightarrow> page \<Rightarrow> mem_storage \<Rightarrow> db_error + mem_storage" where
  "mem_write_page crc pid p st =
     ebind (verify_checksum crc p) (\<lambda>_.
       let idx = unat pid in
       if length (ms_pages st) \<le> idx then Inl (PageNotFound pid)
       else Inr (st\<lparr>ms_pages := (ms_pages st)[idx := p], ms_allocated := (ms_allocated st)[idx := True]\<rparr>))"

definition grow_arrays :: "checksum \<Rightarrow> nat \<Rightarrow> mem_storage \<Rightarrow> mem_storage" where
  "grow_arrays crc new_len st =
     (if length (ms_pages st) < new_len
      then st\<lparr>ms_pages := ms_pages st @ replicate (new_len - length (ms_pages st)) (page_new crc Free 0),
              ms_allocated := take new_len (ms_allocated st) @ replicate (new_len - length (ms_allocated st)) False\<rparr>
      else st)"

definition mem_ensure_capacity :: "checksum \<Rightarrow> nat \<Rightarrow> mem_storage \<Rightarrow> mem_storage" where
  "mem_ensure_capacity crc idx st =
     (if length (ms_pages st) \<le> idx then grow_arrays crc (idx + 1) st else st)"

definition init_page :: "checksum \<Rightarrow> page_type \<Rightarrow> nat \<Rightarrow> mem_storage \<Rightarrow> mem_storage" where
  "init_page crc ty idx st =
     st\<lparr>ms_pages := (ms_pages st)[idx := page_new crc ty (word_of_nat idx)],
        ms_allocated := (ms_allocated st)[idx := True]\<rparr>"

definition mem_alloc_page :: "checksum \<Rightarrow> page_type \<Rightarrow> mem_storage \<Rightarrow> mem_storage \<times> (db_error + page_id)" where
  "mem_alloc_page crc ty st =
     (case fl_alloc (ms_freelist st) of
        (fl, Some idx) \<Rightarrow>
          (init_page crc ty idx (mem_ensure_capacity crc idx (st\<lparr>ms_freelist := fl\<rparr>)), Inr (word_of_nat idx))
      | (fl, None) \<Rightarrow>
          (let new_total = fl_total_pages fl + 64 in
           case fl_grow fl new_total of
             None \<Rightarrow> (st\<lparr>ms_freelist := fl\<rparr>, Inl Panic)
           | Some fl2 \<Rightarrow>
               (case fl_alloc fl2 of
                  (fl3, Some idx) \<Rightarrow>
                    (init_page crc ty idx (grow_arrays crc new_total (st\<lparr>ms_freelist := fl3\<rparr>)), Inr (word_of_nat idx))
                | (fl3, None) \<Rightarrow>
                    (grow_arrays crc new_total (st\<lparr>ms_freelist := fl3\<rparr>),
                     Inl (OtherError ''freelist empty after grow'')))))"

definition mem_free_page :: "page_id \<Rightarrow> mem_storage \<Rightarrow> mem_storage \<times> (db_error + unit)" where
  "mem_free_page pid st =
     (if pid = 0 \<or> pid = 1 then (st, Inl (OtherError ''cannot free reserved page''))
      else
        let idx = unat pid;
            st = (if idx < length (ms_allocated st) then st\<lparr>ms_allocated := (ms_allocated st)[idx := False]\<rparr> else st)
        in case fl_free (ms_freelist st) idx of
             Inl e \<Rightarrow> (st, Inl e)
           | Inr fl \<Rightarrow> (st\<lparr>ms_freelist := fl\<rparr>, Inr ()))"

definition mem_page_count :: "mem_storage \<Rightarrow> u64" where
  "mem_page_count st = word_of_nat (fl_total_pages (ms_freelist st))"

subsection \<open>Batches: the defaults of the storage trait\<close>

primrec alloc_page_batch ::
  "checksum \<Rightarrow> nat \<Rightarrow> page_type \<Rightarrow> mem_storage \<Rightarrow> mem_storage \<times> (db_error + page_id list)" where
  "alloc_page_batch crc 0 ty st = (st, Inr [])"
| "alloc_page_batch crc (Suc n) ty st =
     (case mem_alloc_page crc ty st of
        (st, Inl e) \<Rightarrow> (st, Inl e)
      | (st, Inr pid) \<Rightarrow>
          (case alloc_page_batch crc n ty st of
             (st, Inl e) \<Rightarrow> (st, Inl e)
           | (st, Inr ids) \<Rightarrow> (st, Inr (pid # ids))))"

primrec free_page_batch :: "page_id list \<Rightarrow> mem_storage \<Rightarrow> mem_storage \<times> (db_error + unit)" where
  "free_page_batch [] st = (st, Inr ())"
| "free_page_batch (pid # ids) st =
     (case mem_free_page pid st of
        (st, Inl e) \<Rightarrow> (st, Inl e)
      | (st, Inr _) \<Rightarrow> free_page_batch ids st)"

definition recycle_page :: "page_id \<Rightarrow> mem_storage \<Rightarrow> mem_storage \<times> (db_error + unit)" where
  "recycle_page pid st = mem_free_page pid st"

subsection \<open>Well-formed storage\<close>

text \<open>The arrays and the bitmap have the same size, the two reserved pages are never free and every
  stored page has a valid checksum.\<close>

definition mem_wf :: "checksum \<Rightarrow> mem_storage \<Rightarrow> bool" where
  "mem_wf crc st \<longleftrightarrow>
     fl_wf (ms_freelist st) \<and> length (ms_pages st) = fl_total_pages (ms_freelist st) \<and>
     length (ms_allocated st) = fl_total_pages (ms_freelist st) \<and>
     2 \<le> fl_total_pages (ms_freelist st) \<and> 0 \<notin> free_set (ms_freelist st) \<and> 1 \<notin> free_set (ms_freelist st) \<and>
     (\<forall>p \<in> set (ms_pages st). verify_checksum crc p = Inr ())"

text \<open>A page that the bitmap counts as used.\<close>

definition in_use :: "mem_storage \<Rightarrow> page_id \<Rightarrow> bool" where
  "in_use st pid \<longleftrightarrow> unat pid < fl_total_pages (ms_freelist st) \<and> unat pid \<notin> free_set (ms_freelist st)"

lemma mem_wfD:
  assumes "mem_wf crc st"
  shows "fl_wf (ms_freelist st)" "length (ms_pages st) = fl_total_pages (ms_freelist st)"
    "length (ms_allocated st) = fl_total_pages (ms_freelist st)" "2 \<le> fl_total_pages (ms_freelist st)"
    "0 \<notin> free_set (ms_freelist st)" "1 \<notin> free_set (ms_freelist st)"
    "fl_total_pages (ms_freelist st) < 2 ^ 64"
    "\<And>i. i < length (ms_pages st) \<Longrightarrow> verify_checksum crc (ms_pages st ! i) = Inr ()"
  using assms by (auto simp: mem_wf_def fl_wf_def BITMAP_CAPACITY_def BITMAP_BODY_BYTES_def)

lemma unat_page_index: "n < 2 ^ 64 \<Longrightarrow> unat (word_of_nat n :: u64) = n"
  by (simp add: unat_of_nat take_bit_eq_mod)

lemma fl_new_total: "fl_new n reserved = Some fl \<Longrightarrow> fl_total_pages fl = n"
  by (auto simp: fl_new_def Let_def fold_mark_used_total split: if_splits)

lemma set_replicate_update: "set ((replicate n a)[i := b]) \<subseteq> {a, b}"
  using set_update_subset_insert [of "replicate n a" i b] by auto

lemma mem_new_wf: "\<exists>st. mem_new crc = Some st \<and> mem_wf crc st"
proof -
  have "fl_new 64 [0, 1] \<noteq> None"
    unfolding fl_new_def Let_def by (simp only: BITMAP_CAPACITY_def BITMAP_BODY_BYTES_def) simp
  then obtain fl where fl: "fl_new 64 [0, 1] = Some fl" by blast
  note f = fl_new_wf [OF fl] fl_new_total [OF fl]
  define st where "st = \<lparr>ms_pages = (replicate 64 (page_new crc Free 0))[0 := page_new crc Meta 0],
    ms_allocated = (replicate 64 False)[0 := True], ms_freelist = fl\<rparr>"
  have "verify_checksum crc p = Inr ()" if "p \<in> set (ms_pages st)" for p
    using that set_replicate_update [of 64 "page_new crc Free 0" 0 "page_new crc Meta 0"]
    unfolding st_def mem_storage.simps by (blast intro: page_new_verify)
  moreover have "length (ms_pages st) = 64" "length (ms_allocated st) = 64" "ms_freelist st = fl"
    unfolding st_def mem_storage.simps by (simp_all only: length_list_update length_replicate)
  ultimately have "mem_wf crc st" using f by (simp add: mem_wf_def)
  moreover have "mem_new crc = Some st" unfolding mem_new_def fl st_def by (simp only: option.case)
  ultimately show ?thesis by blast
qed

lemma mem_write_read:
  assumes "mem_write_page crc pid p st = Inr st'" "length (ms_allocated st) = length (ms_pages st)"
  shows "mem_read_page st' q = (if q = pid then Inr p else mem_read_page st q)"
  using assms by (auto simp: mem_write_page_def mem_read_page_def Let_def ebind_Inr_iff nth_list_update word_unat_eq_iff split: if_splits)

lemma mem_write_wf:
  assumes "mem_wf crc st" "mem_write_page crc pid p st = Inr st'"
  shows "mem_wf crc st'" "in_use st' q = in_use st q"
  using assms set_update_subset_insert [of "ms_pages st" "unat pid" p]
  by (auto simp: mem_write_page_def mem_wf_def in_use_def Let_def ebind_Inr_iff split: if_splits)

lemma mem_write_ok:
  assumes "mem_wf crc st" "mem_read_page st pid = Inr q" "verify_checksum crc p = Inr ()"
  shows "\<exists>st'. mem_write_page crc pid p st = Inr st'"
  using assms by (auto simp: mem_write_page_def mem_read_page_def Let_def split: if_splits)


lemma mem_write_in_use:
  assumes "mem_wf crc st" "in_use st pid" "verify_checksum crc p = Inr ()"
  shows "\<exists>st'. mem_write_page crc pid p st = Inr st'"
  using assms mem_wfD(2) [OF assms(1)] by (auto simp: mem_write_page_def in_use_def Let_def)

text \<open>Allocation hands out an unused page, initialised, and changes no other page.\<close>

lemma read_freelist [simp]: "mem_read_page (st\<lparr>ms_freelist := fl\<rparr>) q = mem_read_page st q"
  by (simp add: mem_read_page_def Let_def)

lemma init_page_wf:
  assumes "mem_wf crc st" "idx < fl_total_pages (ms_freelist st)"
  shows "mem_wf crc (init_page crc ty idx st)"
  using assms set_update_subset_insert [of "ms_pages st" idx "page_new crc ty (word_of_nat idx)"]
  by (auto simp: init_page_def mem_wf_def page_new_verify)

lemma init_page_read:
  assumes "mem_wf crc st" "idx < fl_total_pages (ms_freelist st)"
  shows "mem_read_page (init_page crc ty idx st) q =
    (if q = word_of_nat idx then Inr (page_new crc ty (word_of_nat idx)) else mem_read_page st q)"
proof -
  note w = mem_wfD [OF assms(1)]
  have u: "unat (word_of_nat idx :: u64) = idx" using assms(2) w(7) by (intro unat_page_index) simp
  then have "unat q = idx \<longleftrightarrow> q = word_of_nat idx" by (metis word_unat_eq_iff)
  with assms(2) w(2,3) u show ?thesis by (auto simp: init_page_def mem_read_page_def Let_def nth_list_update)
qed

lemma mark_used_storage:
  assumes "mem_wf crc st" "fl_alloc (ms_freelist st) = (fl, Some idx)"
  shows "mem_wf crc (st\<lparr>ms_freelist := fl\<rparr>)" "idx < fl_total_pages (ms_freelist st)" "idx \<in> free_set (ms_freelist st)"
    "free_set fl = free_set (ms_freelist st) - {idx}" "fl_total_pages fl = fl_total_pages (ms_freelist st)"
  using freelist.alloc_some [OF mem_wfD(1) [OF assms(1)] assms(2)] assms(1)
    freelist.frees_bound [OF mem_wfD(1) [OF assms(1)]]
  by (auto simp: mem_wf_def)

lemma grow_arrays_read:
  assumes "mem_wf crc st"
  shows "mem_read_page (grow_arrays crc n (st\<lparr>ms_freelist := fl\<rparr>)) q = mem_read_page st q"
  using mem_wfD(2,3) [OF assms] by (auto simp: grow_arrays_def mem_read_page_def Let_def nth_append)

lemma grow_storage:
  assumes "mem_wf crc st" "fl_grow (ms_freelist st) n = Some fl"
  shows "mem_wf crc (grow_arrays crc n (st\<lparr>ms_freelist := fl\<rparr>))"
proof -
  note g = fl_grow_wf [OF mem_wfD(1) [OF assms(1)] assms(2)]
  have "fl_total_pages (ms_freelist st) < n" using assms(2) by (simp add: fl_grow_def split: if_splits)
  then show ?thesis
    using g assms(1) by (auto simp: mem_wf_def grow_arrays_def page_new_verify)
qed

lemma alloc_from_bitmap:
  assumes "mem_wf crc st" "fl_alloc (ms_freelist st) = (fl, Some idx)"
    "st' = init_page crc ty idx (st\<lparr>ms_freelist := fl\<rparr>)" "pid = word_of_nat idx"
  shows "mem_wf crc st'" "unat pid = idx" "idx \<in> free_set (ms_freelist st)" "pid \<noteq> 0"
    "in_use st' q \<longleftrightarrow> q = pid \<or> in_use st q"
    "mem_read_page st' q = (if q = pid then Inr (page_new crc ty pid) else mem_read_page st q)"
proof -
  note w = mem_wfD [OF assms(1)]
  note m = mark_used_storage [OF assms(1,2)]
  show u: "unat pid = idx" using m(2) w(7) unfolding assms(4) by (intro unat_page_index) simp
  show "idx \<in> free_set (ms_freelist st)" by (rule m(3))
  show "pid \<noteq> 0" using u m(3) w(5) by (metis unat_0)
  have eq: "unat r = idx \<longleftrightarrow> r = pid" for r using u by (metis word_unat_eq_iff)
  show "mem_wf crc st'" using init_page_wf [OF m(1), of idx] m(2,5) assms(3) by simp
  show "in_use st' q \<longleftrightarrow> q = pid \<or> in_use st q"
    using m(2,4,5) eq [of q] by (auto simp: assms(3) in_use_def init_page_def)
  show "mem_read_page st' q = (if q = pid then Inr (page_new crc ty pid) else mem_read_page st q)"
    using init_page_read [OF m(1), of idx ty q] m(2,5) assms(3,4) by simp
qed

lemma mem_alloc_spec:
  assumes "mem_wf crc st" "mem_alloc_page crc ty st = (st', r)"
  shows "case r of
      Inl e \<Rightarrow> e = Panic \<and> st' = st \<and> free_set (ms_freelist st) = {} \<and> BITMAP_CAPACITY < fl_total_pages (ms_freelist st) + 64
    | Inr pid \<Rightarrow> mem_wf crc st' \<and> \<not> in_use st pid \<and> (\<forall>q. in_use st' q \<longleftrightarrow> q = pid \<or> in_use st q) \<and> pid \<noteq> 0 \<and>
        (\<forall>q. mem_read_page st' q = (if q = pid then Inr (page_new crc ty pid) else mem_read_page st q))"
proof -
  note w = mem_wfD [OF assms(1)]
  obtain fl a where fl: "fl_alloc (ms_freelist st) = (fl, a)" by fastforce
  show ?thesis
  proof (cases a)
    case (Some idx)
    have "idx < length (ms_pages st)" using mark_used_storage(2) [OF assms(1) fl [unfolded Some]] w(2) by simp
    then have st': "st' = init_page crc ty idx (st\<lparr>ms_freelist := fl\<rparr>)" "r = Inr (word_of_nat idx)"
      using assms(2) fl Some by (auto simp: mem_alloc_page_def mem_ensure_capacity_def)
    note al = alloc_from_bitmap [OF assms(1) fl [unfolded Some] st'(1) refl]
    show ?thesis using al st'(2) by (auto simp: in_use_def)
  next
    case None
    let ?n = "fl_total_pages (ms_freelist st) + 64"
    have e: "fl = ms_freelist st" "free_set (ms_freelist st) = {}"
      using freelist.alloc_none [OF w(1) fl [unfolded None]] by auto
    show ?thesis
    proof (cases "fl_grow (ms_freelist st) ?n")
      case none: None
      then have "BITMAP_CAPACITY < ?n" by (auto simp: fl_grow_def Let_def split: if_splits)
      with none e None fl assms(2) show ?thesis by (auto simp: mem_alloc_page_def Let_def)
    next
      case (Some fl2)
      let ?st2 = "grow_arrays crc ?n (st\<lparr>ms_freelist := fl2\<rparr>)"
      note g = fl_grow_wf [OF w(1) Some]
      have wf2: "mem_wf crc ?st2" by (rule grow_storage [OF assms(1) Some])
      have fl2: "ms_freelist ?st2 = fl2" by (simp add: grow_arrays_def)
      obtain fl3 b where fl3: "fl_alloc fl2 = (fl3, b)" by fastforce
      from freelist.alloc_none [OF g(1), of fl3] fl3 g(2) obtain idx where b: "b = Some idx" by (cases b) auto
      have "grow_arrays crc ?n (st\<lparr>ms_freelist := fl3\<rparr>) = ?st2\<lparr>ms_freelist := fl3\<rparr>" by (simp add: grow_arrays_def)
      then have st': "st' = init_page crc ty idx (?st2\<lparr>ms_freelist := fl3\<rparr>)" "r = Inr (word_of_nat idx)"
        using assms(2) fl None e Some fl3 b by (auto simp: mem_alloc_page_def Let_def)
      note al = alloc_from_bitmap [OF wf2 _ st'(1) refl, unfolded fl2, OF fl3 [unfolded b]]
      have "in_use ?st2 q \<longleftrightarrow> in_use st q" for q
        using g(2,3) e(2) by (auto simp: in_use_def fl2)
      moreover have "mem_read_page ?st2 q = mem_read_page st q" for q by (rule grow_arrays_read [OF assms(1)])
      moreover have "\<not> in_use st (word_of_nat idx)" using al(2,3) g(2) e(2) by (simp add: in_use_def)
      ultimately show ?thesis using al(1,4,5,6) st'(2) by simp
    qed
  qed
qed

lemma mem_free_spec:
  assumes "mem_wf crc st" "mem_free_page pid st = (st', Inr ())"
  shows "mem_wf crc st'" "in_use st pid" "in_use st' q \<longleftrightarrow> in_use st q \<and> q \<noteq> pid"
    "mem_read_page st' q = (if q = pid then Inl (PageNotFound pid) else mem_read_page st q)"
proof -
  note w = mem_wfD [OF assms(1)]
  let ?st = "st\<lparr>ms_allocated := (ms_allocated st)[unat pid := False]\<rparr>"
  obtain fl where fl: "fl_free (ms_freelist st) (unat pid) = Inr fl" "pid \<noteq> 0" "pid \<noteq> 1"
    and st': "st' = (if unat pid < length (ms_allocated st) then ?st\<lparr>ms_freelist := fl\<rparr> else st\<lparr>ms_freelist := fl\<rparr>)"
    using assms(2) by (auto simp: mem_free_page_def Let_def split: if_splits sum.splits)
  note f = fl_free_Inr [OF w(1) fl(1)]
  have st': "st' = ?st\<lparr>ms_freelist := fl\<rparr>" using st' f(3) w(3) by simp
  have "unat pid \<noteq> 0" "unat pid \<noteq> 1" using fl(2,3) by (auto simp: word_unat_eq_iff)
  then show "mem_wf crc st'" using assms(1) f by (auto simp: st' mem_wf_def)
  show "in_use st pid" using f(3,4) by (simp add: in_use_def)
  have eq: "unat q = unat pid \<longleftrightarrow> q = pid" by (simp add: word_unat_eq_iff)
  show "in_use st' q \<longleftrightarrow> in_use st q \<and> q \<noteq> pid" using f(2,5) eq by (auto simp: st' in_use_def)
  show "mem_read_page st' q = (if q = pid then Inl (PageNotFound pid) else mem_read_page st q)"
    using eq f(3) w(2,3) by (auto simp: st' mem_read_page_def Let_def nth_list_update)
qed

subsection \<open>What the clients of the storage rely on\<close>

locale page_store =
  fixes rd :: "'s \<Rightarrow> page_id \<Rightarrow> db_error + page"
    and wr :: "page_id \<Rightarrow> page \<Rightarrow> 's \<Rightarrow> db_error + 's"
    and al :: "'s \<Rightarrow> 's \<times> (db_error + page_id)"
    and inv :: "'s \<Rightarrow> bool" and used :: "'s \<Rightarrow> page_id \<Rightarrow> bool" and fresh :: "page_id \<Rightarrow> page" and sealed :: "page \<Rightarrow> bool"
  assumes write_read: "inv s \<Longrightarrow> wr i p s = Inr s' \<Longrightarrow> rd s' j = (if j = i then Inr p else rd s j)"
    and write_inv: "inv s \<Longrightarrow> wr i p s = Inr s' \<Longrightarrow> inv s'"
    and write_used: "inv s \<Longrightarrow> wr i p s = Inr s' \<Longrightarrow> used s' j = used s j"
    and write_ok: "inv s \<Longrightarrow> rd s i = Inr q \<Longrightarrow> sealed p \<Longrightarrow> \<exists>s'. wr i p s = Inr s'"
    and read_sealed: "inv s \<Longrightarrow> rd s i = Inr p \<Longrightarrow> sealed p"
    and alloc_inv: "inv s \<Longrightarrow> al s = (s', Inr i) \<Longrightarrow> inv s'"
    and alloc_fresh: "inv s \<Longrightarrow> al s = (s', Inr i) \<Longrightarrow> \<not> used s i \<and> i \<noteq> 0 \<and> sealed (fresh i)"
    and alloc_used: "inv s \<Longrightarrow> al s = (s', Inr i) \<Longrightarrow> used s' j \<longleftrightarrow> j = i \<or> used s j"
    and alloc_read: "inv s \<Longrightarrow> al s = (s', Inr i) \<Longrightarrow> rd s' j = (if j = i then Inr (fresh i) else rd s j)"
begin

text \<open>Writing back a page that was read.\<close>

lemma rewrite_page:
  assumes "inv s" "rd s i = Inr q" "sealed p"
  shows "\<exists>s'. wr i p s = Inr s' \<and> inv s' \<and> (\<forall>j. used s' j = used s j) \<and>
    (\<forall>j. rd s' j = (if j = i then Inr p else rd s j))"
  using write_ok [OF assms] write_inv [OF assms(1)] write_used [OF assms(1)] write_read [OF assms(1)] by blast

text \<open>Allocating a page, filling it, and linking it from a page that was in use before.\<close>

lemma alloc_and_link:
  assumes "inv s" "al s = (s1, Inr i)" "sealed p" "used s k" "rd s k = Inr q0" "sealed q"
  shows "\<exists>s2 s3. wr i p s1 = Inr s2 \<and> rd s2 k = Inr q0 \<and> wr k q s2 = Inr s3 \<and> inv s3 \<and> i \<noteq> k \<and>
    (\<forall>j. used s3 j \<longleftrightarrow> j = i \<or> used s j) \<and>
    (\<forall>j. rd s3 j = (if j = k then Inr q else if j = i then Inr p else rd s j))"
proof -
  have ik: "i \<noteq> k" using alloc_fresh [OF assms(1,2)] assms(4) by blast
  note a = alloc_inv [OF assms(1,2)] alloc_used [OF assms(1,2)] alloc_read [OF assms(1,2)]
  from rewrite_page [OF a(1) _ assms(3), of i] a(3) obtain s2 where s2: "wr i p s1 = Inr s2" "inv s2"
    "\<And>j. used s2 j = used s1 j" "\<And>j. rd s2 j = (if j = i then Inr p else rd s1 j)" by auto
  have k: "rd s2 k = Inr q0" using s2(4) a(3) ik assms(5) by auto
  from rewrite_page [OF s2(2) k assms(6)] obtain s3 where "wr k q s2 = Inr s3" "inv s3"
    "\<And>j. used s3 j = used s2 j" "\<And>j. rd s3 j = (if j = k then Inr q else rd s2 j)" by auto
  with s2 k ik a show ?thesis by (intro exI [of _ s2] exI [of _ s3]) auto
qed

end

interpretation mem: page_store mem_read_page "mem_write_page crc" "mem_alloc_page crc ty"
  "mem_wf crc" in_use "page_new crc ty" "\<lambda>p. verify_checksum crc p = Inr ()"
  for crc ty
proof
  fix st st' p and i j :: page_id
  assume wf: "mem_wf crc st"
  show "mem_write_page crc i p st = Inr st' \<Longrightarrow> mem_read_page st' j = (if j = i then Inr p else mem_read_page st j)"
    using mem_write_read mem_wfD(2,3) [OF wf] by simp
  show "mem_write_page crc i p st = Inr st' \<Longrightarrow> mem_wf crc st'" by (rule mem_write_wf(1) [OF wf])
  show "mem_write_page crc i p st = Inr st' \<Longrightarrow> in_use st' j = in_use st j" by (rule mem_write_wf(2) [OF wf])
  show "mem_read_page st i = Inr q \<Longrightarrow> verify_checksum crc p = Inr () \<Longrightarrow> \<exists>s'. mem_write_page crc i p st = Inr s'" for q
    by (rule mem_write_ok [OF wf])
  show "mem_read_page st i = Inr p \<Longrightarrow> verify_checksum crc p = Inr ()"
    using mem_wfD(8) [OF wf, of "unat i"] by (auto simp: mem_read_page_def Let_def split: if_splits)
  assume "mem_alloc_page crc ty st = (st', Inr i)"
  note al = mem_alloc_spec [OF wf this, simplified]
  show "mem_wf crc st'" "\<not> in_use st i \<and> i \<noteq> 0 \<and> verify_checksum crc (page_new crc ty i) = Inr ()"
    "in_use st' j \<longleftrightarrow> j = i \<or> in_use st j"
    "mem_read_page st' j = (if j = i then Inr (page_new crc ty i) else mem_read_page st j)"
    using al by (simp_all add: page_new_verify)
qed

subsection \<open>The engine as a map\<close>

definition page_map :: "mem_storage \<Rightarrow> page_id \<rightharpoonup> page" where
  "page_map st pid = (case mem_read_page st pid of Inr p \<Rightarrow> Some p | Inl _ \<Rightarrow> None)"

text \<open>C7: The engine refines a map from page numbers to pages. Writing a page updates the map at its
  number; allocating adds a fresh page under a number that was not in use and that is not 0;
  freeing removes a page that was in use. All three keep the storage well formed, whose every
  readable page has a valid checksum, and write refuses a page without one.\<close>

theorem storage_refines_map:
  assumes "mem_wf crc st"
  shows "(mem_write_page crc pid p st = Inr st' \<longrightarrow>
      mem_wf crc st' \<and> page_map st' = (page_map st)(pid \<mapsto> p) \<and> verify_checksum crc p = Inr ()) \<and>
    (mem_alloc_page crc ty st = (st', Inr pid) \<longrightarrow>
      mem_wf crc st' \<and> \<not> in_use st pid \<and> in_use st' pid \<and> pid \<noteq> 0 \<and> page_map st' = (page_map st)(pid \<mapsto> page_new crc ty pid)) \<and>
    (mem_free_page pid st = (st', Inr ()) \<longrightarrow>
      mem_wf crc st' \<and> in_use st pid \<and> \<not> in_use st' pid \<and> page_map st' = (page_map st)(pid := None)) \<and>
    (page_map st pid = Some p \<longrightarrow> verify_checksum crc p = Inr ())"
proof (intro conjI impI)
  assume w: "mem_write_page crc pid p st = Inr st'"
  show "mem_wf crc st'" by (rule mem_write_wf(1) [OF assms w])
  show "page_map st' = (page_map st)(pid \<mapsto> p)" using mem.write_read [OF assms w] by (auto simp: page_map_def)
  show "verify_checksum crc p = Inr ()" using w by (auto simp: mem_write_page_def ebind_Inr_iff)
next
  assume a: "mem_alloc_page crc ty st = (st', Inr pid)"
  show "mem_wf crc st'" by (rule mem.alloc_inv [OF assms a])
  show "\<not> in_use st pid" "pid \<noteq> 0" using mem.alloc_fresh [OF assms a] by auto
  show "in_use st' pid" using mem.alloc_used [OF assms a] by simp
  show "page_map st' = (page_map st)(pid \<mapsto> page_new crc ty pid)"
    using mem.alloc_read [OF assms a] by (auto simp: page_map_def)
next
  assume f: "mem_free_page pid st = (st', Inr ())"
  show "mem_wf crc st'" "in_use st pid" "\<not> in_use st' pid" using mem_free_spec(1-3) [OF assms f] by simp_all
  show "page_map st' = (page_map st)(pid := None)" using mem_free_spec(4) [OF assms f] by (auto simp: page_map_def)
next
  show "page_map st pid = Some p \<Longrightarrow> verify_checksum crc p = Inr ()"
    using mem.read_sealed [OF assms] by (auto simp: page_map_def split: sum.splits)
qed

lemma mem_alloc_room:
  assumes "mem_wf crc st" "fl_total_pages (ms_freelist st) + 64 \<le> BITMAP_CAPACITY"
  shows "\<exists>st' pid. mem_alloc_page crc ty st = (st', Inr pid)"
  using mem_alloc_spec [OF assms(1), of ty "fst (mem_alloc_page crc ty st)" "snd (mem_alloc_page crc ty st)"] assms(2)
  by (cases "mem_alloc_page crc ty st"; cases "snd (mem_alloc_page crc ty st)") auto

lemma mem_new_alloc:
  "\<exists>st st' pid. mem_new crc = Some st \<and> mem_wf crc st \<and> mem_alloc_page crc ty st = (st', Inr pid)"
proof -
  obtain st where st: "mem_new crc = Some st" "mem_wf crc st" using mem_new_wf by blast
  have "fl_total_pages (ms_freelist st) = 64"
    using st(1) fl_new_total [of 64 "[0, 1]"] unfolding mem_new_def by (auto split: option.splits)
  with st mem_alloc_room [OF st(2)] show ?thesis by (auto simp: BITMAP_CAPACITY_def BITMAP_BODY_BYTES_def)
qed

theorem storage_refines_map_witness:
  "\<exists>st st' pid. mem_new (\<lambda>_. 0) = Some st \<and> mem_alloc_page (\<lambda>_. 0) Data st = (st', Inr pid) \<and>
     page_map st' = (page_map st)(pid \<mapsto> page_new (\<lambda>_. 0) Data pid)"
  using mem_new_alloc [of "\<lambda>_. 0" Data] storage_refines_map by blast

end
