(* ===== verification/Page_Batch.thy ===== *)
theory Page_Batch
  imports Storage
begin

text \<open>
  \<open>axiomdb-storage/src/local_page_batch.rs\<close>: the page numbers a transaction has taken from the global
  allocator ahead of use. The number of threads waiting for the allocator, which sets the size
  of the next refill, is an argument.
\<close>

subsection \<open>The batch\<close>

definition BATCH_ALLOC_SIZE :: nat where "BATCH_ALLOC_SIZE = 64"
definition MAX_BATCH_SIZE :: nat where "MAX_BATCH_SIZE = 256"

record local_page_batch =
  lb_available :: "page_id list"
  lb_current_type :: "page_type option"
  lb_freed :: "page_id list"
  lb_last_refill_size :: nat

definition lb_new :: local_page_batch where
  "lb_new = \<lparr>lb_available = [], lb_current_type = None, lb_freed = [], lb_last_refill_size = BATCH_ALLOC_SIZE\<rparr>"

definition refill_size :: "nat \<Rightarrow> local_page_batch \<Rightarrow> nat" where
  "refill_size waiters b = min MAX_BATCH_SIZE (max BATCH_ALLOC_SIZE (lb_last_refill_size b * (waiters + 1)))"

text \<open>A batch of another page type is handed back first.\<close>

definition drain_other_type ::
  "page_type \<Rightarrow> local_page_batch \<Rightarrow> mem_storage \<Rightarrow> local_page_batch \<times> mem_storage \<times> (db_error + unit)" where
  "drain_other_type ty b st =
     (if lb_current_type b = Some ty then (b, st, Inr ())
      else case (if lb_available b = [] then (st, Inr ()) else free_page_batch (lb_available b) st) of
             (st, Inl e) \<Rightarrow> (b\<lparr>lb_available := []\<rparr>, st, Inl e)
           | (st, Inr _) \<Rightarrow>
               (b\<lparr>lb_available := [], lb_current_type := Some ty, lb_last_refill_size := BATCH_ALLOC_SIZE\<rparr>, st, Inr ()))"

definition pop_or_refill ::
  "checksum \<Rightarrow> nat \<Rightarrow> page_type \<Rightarrow> local_page_batch \<Rightarrow> mem_storage \<Rightarrow>
   local_page_batch \<times> mem_storage \<times> (db_error + page_id)" where
  "pop_or_refill crc waiters ty b0 st0 =
     (case drain_other_type ty b0 st0 of
        (b, st, Inl e) \<Rightarrow> (b, st, Inl e)
      | (b, st, Inr _) \<Rightarrow>
          (case lb_available b of
             pid # rest \<Rightarrow> (b\<lparr>lb_available := rest\<rparr>, st, Inr pid)
           | [] \<Rightarrow>
               (let n = refill_size waiters b in
                case alloc_page_batch crc n ty st of
                  (st, Inl e) \<Rightarrow> (b, st, Inl e)
                | (st, Inr []) \<Rightarrow> (b, st, Inl StorageFull)
                | (st, Inr (pid # rest)) \<Rightarrow>
                    (b\<lparr>lb_available := rest, lb_last_refill_size := n\<rparr>, st, Inr pid))))"

definition batch_alloc_page ::
  "checksum \<Rightarrow> nat \<Rightarrow> page_type \<Rightarrow> local_page_batch option \<Rightarrow> mem_storage \<Rightarrow>
   local_page_batch option \<times> mem_storage \<times> (db_error + page_id)" where
  "batch_alloc_page crc waiters ty batch st =
     (case batch of
        Some b \<Rightarrow> (case pop_or_refill crc waiters ty b st of (b, st, r) \<Rightarrow> (Some b, st, r))
      | None \<Rightarrow> (case mem_alloc_page crc ty st of (st, r) \<Rightarrow> (None, st, r)))"

definition push_freed :: "page_id \<Rightarrow> local_page_batch \<Rightarrow> local_page_batch" where
  "push_freed pid b = b\<lparr>lb_freed := lb_freed b @ [pid]\<rparr>"

definition take_for_commit :: "local_page_batch \<Rightarrow> local_page_batch \<times> page_id list \<times> page_id list" where
  "take_for_commit b = (lb_new, lb_available b, lb_freed b)"

definition take_for_rollback :: "local_page_batch \<Rightarrow> local_page_batch \<times> page_id list" where
  "take_for_rollback b = (lb_new, lb_available b)"

definition truncate_freed :: "nat \<Rightarrow> local_page_batch \<Rightarrow> local_page_batch" where
  "truncate_freed n b = b\<lparr>lb_freed := take n (lb_freed b)\<rparr>"

subsection \<open>Pages are neither lost nor handed out twice\<close>

text \<open>The pages of a batch are in use in the bitmap; \<open>others\<close> are the used pages outside the batch.\<close>

definition batch_ok :: "local_page_batch \<Rightarrow> mem_storage \<Rightarrow> bool" where
  "batch_ok b st \<longleftrightarrow> distinct (lb_available b) \<and>
     (\<forall>p \<in> set (lb_available b). in_use st p \<and> p \<noteq> 0 \<and> p \<noteq> 1) \<and>
     BATCH_ALLOC_SIZE \<le> lb_last_refill_size b \<and> lb_last_refill_size b \<le> MAX_BATCH_SIZE"

definition used_outside :: "mem_storage \<Rightarrow> local_page_batch \<Rightarrow> page_id set" where
  "used_outside st b = {p. in_use st p} - set (lb_available b)"

lemma alloc_page_batch_spec:
  assumes "mem_wf crc st" "alloc_page_batch crc n ty st = (st', Inr ids)"
  shows "mem_wf crc st' \<and> length ids = n \<and> distinct ids \<and> (\<forall>p \<in> set ids. \<not> in_use st p \<and> p \<noteq> 0 \<and> p \<noteq> 1) \<and>
    (\<forall>p. in_use st' p \<longleftrightarrow> p \<in> set ids \<or> in_use st p) \<and>
    (\<forall>p. mem_read_page st' p = (if p \<in> set ids then Inr (page_new crc ty p) else mem_read_page st p))"
  using assms
proof (induction n arbitrary: st st' ids)
  case (Suc n)
  obtain st1 r where al: "mem_alloc_page crc ty st = (st1, r)" by fastforce
  with Suc.prems(2) obtain pid st2 r2 where r: "r = Inr pid" and rest: "alloc_page_batch crc n ty st1 = (st2, r2)"
    by (cases r) (auto split: prod.splits)
  then obtain ids' where ids: "r2 = Inr ids'" "ids = pid # ids'" "st' = st2"
    using Suc.prems(2) al by (cases r2) auto
  note a = mem.alloc_inv [OF Suc.prems(1) al [unfolded r]] mem.alloc_fresh [OF Suc.prems(1) al [unfolded r]]
    mem.alloc_used [OF Suc.prems(1) al [unfolded r]] mem.alloc_read [OF Suc.prems(1) al [unfolded r]]
  have "in_use st 1" using mem_wfD(4,6) [OF Suc.prems(1)] by (simp add: in_use_def)
  with a(2) have "pid \<noteq> 1" by blast
  with Suc.IH [OF a(1) rest [unfolded ids(1)]] a ids show ?case by auto
qed simp

lemma free_page_batch_spec:
  assumes "mem_wf crc st" "distinct ids" "\<forall>p \<in> set ids. in_use st p \<and> p \<noteq> 0 \<and> p \<noteq> 1"
  shows "\<exists>st'. free_page_batch ids st = (st', Inr ()) \<and> mem_wf crc st' \<and>
    (\<forall>p. in_use st' p \<longleftrightarrow> in_use st p \<and> p \<notin> set ids) \<and>
    (\<forall>p. p \<notin> set ids \<longrightarrow> mem_read_page st' p = mem_read_page st p)"
  using assms
proof (induction ids arbitrary: st)
  case (Cons pid ids)
  have "fl_free (ms_freelist st) (unat pid) \<noteq> Inl e" for e
    using Cons.prems(3) by (simp add: fl_free_error in_use_def not_le)
  then obtain fl where "fl_free (ms_freelist st) (unat pid) = Inr fl" by (meson sumE)
  then obtain st1 where st1: "mem_free_page pid st = (st1, Inr ())"
    using Cons.prems(3) by (fastforce simp: mem_free_page_def Let_def)
  note f = mem_free_spec [OF Cons.prems(1) st1]
  have "\<forall>p \<in> set ids. in_use st1 p \<and> p \<noteq> 0 \<and> p \<noteq> 1" using Cons.prems(2,3) f(3) by auto
  from Cons.IH [OF f(1) _ this] Cons.prems(2) st1 f show ?case by auto
qed simp

lemma drain_other_type_spec:
  assumes "mem_wf crc st" "batch_ok b st"
  shows "\<exists>b' st'. drain_other_type ty b st = (b', st', Inr ()) \<and> mem_wf crc st' \<and> batch_ok b' st' \<and>
    used_outside st' b' = used_outside st b \<and>
    (\<forall>p. p \<notin> set (lb_available b) \<longrightarrow> mem_read_page st' p = mem_read_page st p) \<and>
    set (lb_available b') \<subseteq> set (lb_available b)"
proof (cases "lb_current_type b = Some ty \<or> lb_available b = []")
  case True
  then show ?thesis using assms
    by (auto simp: drain_other_type_def batch_ok_def used_outside_def BATCH_ALLOC_SIZE_def MAX_BATCH_SIZE_def)
next
  case False
  from free_page_batch_spec [OF assms(1), of "lb_available b"] assms(2) obtain st' where
    "free_page_batch (lb_available b) st = (st', Inr ())" "mem_wf crc st'"
    "\<And>p. in_use st' p \<longleftrightarrow> in_use st p \<and> p \<notin> set (lb_available b)"
    "\<And>p. p \<notin> set (lb_available b) \<Longrightarrow> mem_read_page st' p = mem_read_page st p"
    by (auto simp: batch_ok_def)
  with False show ?thesis
    by (auto simp: drain_other_type_def batch_ok_def used_outside_def BATCH_ALLOC_SIZE_def MAX_BATCH_SIZE_def)
qed

lemma pop_or_refill_spec:
  assumes "mem_wf crc st" "batch_ok b st" "pop_or_refill crc waiters ty b st = (b', st', Inr pid)"
  shows "mem_wf crc st' \<and> batch_ok b' st' \<and> pid \<notin> used_outside st b \<and> pid \<noteq> 0 \<and>
    used_outside st' b' = insert pid (used_outside st b) \<and>
    (\<forall>p \<in> used_outside st b. mem_read_page st' p = mem_read_page st p)"
proof -
  from drain_other_type_spec [OF assms(1,2), of ty] obtain b1 st1 where d:
    "drain_other_type ty b st = (b1, st1, Inr ())" "mem_wf crc st1" "batch_ok b1 st1"
    "used_outside st1 b1 = used_outside st b"
    "\<And>p. p \<notin> set (lb_available b) \<Longrightarrow> mem_read_page st1 p = mem_read_page st p"
    "set (lb_available b1) \<subseteq> set (lb_available b)" by blast
  have keep: "\<forall>p \<in> used_outside st b. mem_read_page st1 p = mem_read_page st p"
    using d(5) by (auto simp: used_outside_def)
  show ?thesis
  proof (cases "lb_available b1")
    case (Cons q rest)
    then have "b' = b1\<lparr>lb_available := rest\<rparr>" "st' = st1" "pid = q" using assms(3) d(1) by (simp_all add: pop_or_refill_def)
    with Cons d(2,3) keep show ?thesis unfolding d(4) [symmetric] by (auto simp: batch_ok_def used_outside_def)
  next
    case Nil
    obtain st2 r where al: "alloc_page_batch crc (refill_size waiters b1) ty st1 = (st2, r)" by fastforce
    with assms(3) d(1) Nil obtain rest where r: "r = Inr (pid # rest)" and b': "st' = st2"
      "b' = b1\<lparr>lb_available := rest, lb_last_refill_size := refill_size waiters b1\<rparr>"
      by (auto simp: pop_or_refill_def Let_def split: sum.splits list.splits)
    have "BATCH_ALLOC_SIZE \<le> refill_size waiters b1" "refill_size waiters b1 \<le> MAX_BATCH_SIZE"
      by (simp_all add: refill_size_def BATCH_ALLOC_SIZE_def MAX_BATCH_SIZE_def)
    with alloc_page_batch_spec [OF d(2) al [unfolded r]] Nil keep b' show ?thesis
      unfolding d(4) [symmetric] by (auto simp: batch_ok_def used_outside_def)
  qed
qed

text \<open>The same for any outcome, with or without a batch: pages owned by others stay as they are.\<close>

definition batch_inv :: "local_page_batch option \<Rightarrow> mem_storage \<Rightarrow> bool" where
  "batch_inv batch st = (case batch of None \<Rightarrow> True | Some b \<Rightarrow> batch_ok b st)"

definition owned :: "mem_storage \<Rightarrow> local_page_batch option \<Rightarrow> page_id set" where
  "owned st batch = (case batch of None \<Rightarrow> {p. in_use st p} | Some b \<Rightarrow> used_outside st b)"

lemma alloc_page_batch_frame:
  assumes "mem_wf crc st" "alloc_page_batch crc n ty st = (st', r)"
  shows "mem_wf crc st' \<and> (\<forall>p. in_use st p \<longrightarrow> in_use st' p \<and> mem_read_page st' p = mem_read_page st p)"
  using assms
proof (induction n arbitrary: st st' r)
  case (Suc n)
  obtain st1 r1 where al: "mem_alloc_page crc ty st = (st1, r1)" by fastforce
  show ?case
  proof (cases r1)
    case (Inl e)
    then show ?thesis using mem_alloc_spec [OF Suc.prems(1) al] Suc.prems al by simp
  next
    case (Inr pid)
    obtain st2 r2 where st2: "alloc_page_batch crc n ty st1 = (st2, r2)" by fastforce
    have "st' = st2" using Suc.prems(2) al Inr st2 by (cases r2) auto
    with Suc.IH [OF _ st2] mem_alloc_spec [OF Suc.prems(1) al] Inr show ?thesis by auto
  qed
qed simp

lemma pop_or_refill_error:
  assumes "mem_wf crc st" "batch_ok b st" "pop_or_refill crc waiters ty b st = (b', st', Inl e)"
  shows "mem_wf crc st' \<and> batch_ok b' st' \<and> used_outside st b \<subseteq> used_outside st' b' \<and>
    (\<forall>p \<in> used_outside st b. mem_read_page st' p = mem_read_page st p)"
proof -
  from drain_other_type_spec [OF assms(1,2), of ty] obtain b1 st1 where d:
    "drain_other_type ty b st = (b1, st1, Inr ())" "mem_wf crc st1" "batch_ok b1 st1"
    "used_outside st1 b1 = used_outside st b"
    "\<And>p. p \<notin> set (lb_available b) \<Longrightarrow> mem_read_page st1 p = mem_read_page st p" by blast
  with assms(3) have nil: "lb_available b1 = []" by (cases "lb_available b1") (simp_all add: pop_or_refill_def)
  obtain st2 r where al: "alloc_page_batch crc (refill_size waiters b1) ty st1 = (st2, r)" by fastforce
  then have "b' = b1" "st' = st2" using assms(3) d(1) nil
    by (auto simp: pop_or_refill_def Let_def split: sum.splits list.splits)
  moreover have "used_outside st b = {p. in_use st1 p}" using d(4) nil by (simp add: used_outside_def)
  moreover have "\<forall>p \<in> used_outside st b. mem_read_page st1 p = mem_read_page st p"
    using d(5) by (simp add: used_outside_def)
  ultimately show ?thesis
    using alloc_page_batch_frame [OF d(2) al] d(3) nil by (auto simp: batch_ok_def used_outside_def)
qed

lemma batch_alloc_spec:
  assumes "mem_wf crc st" "batch_inv batch st" "batch_alloc_page crc waiters ty batch st = (batch', st', r)"
  shows "mem_wf crc st' \<and> batch_inv batch' st' \<and> owned st batch \<subseteq> owned st' batch' \<and>
    (\<forall>p \<in> owned st batch. mem_read_page st' p = mem_read_page st p) \<and>
    (case r of Inl e \<Rightarrow> True | Inr pid \<Rightarrow> pid \<notin> owned st batch \<and> pid \<noteq> 0 \<and> pid \<in> owned st' batch')"
proof (cases batch)
  case None
  obtain st1 r1 where al: "mem_alloc_page crc ty st = (st1, r1)" by fastforce
  with assms(3) None have "batch' = None" "st' = st1" "r = r1" by (simp_all add: batch_alloc_page_def)
  with mem_alloc_spec [OF assms(1) al] None assms(1) show ?thesis
    by (cases r1) (auto simp: batch_inv_def owned_def)
next
  case (Some b)
  obtain b1 st1 r1 where al: "pop_or_refill crc waiters ty b st = (b1, st1, r1)" by (metis prod_cases3)
  with assms(3) Some have eq: "batch' = Some b1" "st' = st1" "r = r1" by (simp_all add: batch_alloc_page_def)
  have ok: "batch_ok b st" using assms(2) Some by (simp add: batch_inv_def)
  show ?thesis
    using pop_or_refill_spec [OF assms(1) ok] pop_or_refill_error [OF assms(1) ok] al eq Some
    by (cases r1) (auto simp: batch_inv_def owned_def)
qed

lemma owned_in_use: "p \<in> owned st batch \<Longrightarrow> in_use st p"
  by (auto simp: owned_def used_outside_def split: option.splits)

text \<open>C16: Page ownership. Taking a page from the batch of a transaction, refilled from the global bitmap
  when it is empty or of another type, yields a page that nobody else uses, keeps the batch
  pages in use, distinct and unreserved and the refill size within its bounds of 64 and 256,
  and changes no page in use elsewhere; rolling back then frees exactly the pages of the batch,
  so that the page taken is the only one added.\<close>

theorem page_batch_ownership:
  assumes "mem_wf crc st" "batch_ok b st" "pop_or_refill crc waiters ty b st = (b', st', Inr pid)"
  shows "mem_wf crc st' \<and> batch_ok b' st' \<and> pid \<notin> used_outside st b \<and> pid \<noteq> 0 \<and>
    used_outside st' b' = insert pid (used_outside st b) \<and>
    (\<forall>p \<in> used_outside st b. mem_read_page st' p = mem_read_page st p) \<and>
    (\<exists>st2. free_page_batch (snd (take_for_rollback b')) st' = (st2, Inr ()) \<and>
      {p. in_use st2 p} = insert pid (used_outside st b))"
proof -
  note s = pop_or_refill_spec [OF assms]
  then obtain st2 where "free_page_batch (lb_available b') st' = (st2, Inr ())"
    "\<And>p. in_use st2 p \<longleftrightarrow> in_use st' p \<and> p \<notin> set (lb_available b')"
    using free_page_batch_spec [of crc st' "lb_available b'"] by (auto simp: batch_ok_def)
  moreover from this have "{p. in_use st2 p} = used_outside st' b'" by (auto simp: used_outside_def)
  ultimately show ?thesis using s by (auto simp: take_for_rollback_def)
qed

lemma mem_alloc_total:
  assumes "mem_alloc_page crc ty st = (st', Inr pid)" "mem_wf crc st"
  shows "fl_total_pages (ms_freelist st') \<le> fl_total_pages (ms_freelist st) + 64"
proof -
  note w = mem_wfD [OF assms(2)]
  have fl: "fl_total_pages (ms_freelist (init_page crc ty i s)) = fl_total_pages (ms_freelist s)"
    "fl_total_pages (ms_freelist (mem_ensure_capacity crc i s)) = fl_total_pages (ms_freelist s)"
    "fl_total_pages (ms_freelist (grow_arrays crc i s)) = fl_total_pages (ms_freelist s)" for i s
    by (simp_all add: init_page_def mem_ensure_capacity_def grow_arrays_def)
  have al: "fl_total_pages fl' = fl_total_pages fl" if "fl_alloc fl = (fl', Some i)" for fl fl' i
    using that by (auto simp: fl_alloc_def split: option.splits)
  have none: "fl' = fl" if "fl_alloc fl = (fl', None)" for fl fl' using that by (auto simp: fl_alloc_def split: option.splits)
  have gr: "fl_total_pages fl' = n" if "fl_grow fl n = Some fl'" for fl fl' n
    using that by (auto simp: fl_grow_def Let_def split: if_splits)
  show ?thesis using assms(1)
    by (auto simp: mem_alloc_page_def fl Let_def dest!: al none gr split: prod.splits option.splits)
qed

lemma alloc_page_batch_room:
  assumes "mem_wf crc st" "fl_total_pages (ms_freelist st) + 64 * n \<le> BITMAP_CAPACITY"
  shows "\<exists>st' ids. alloc_page_batch crc n ty st = (st', Inr ids)"
  using assms
proof (induction n arbitrary: st)
  case (Suc n)
  from mem_alloc_room [OF Suc.prems(1)] Suc.prems(2) obtain st1 pid where
    al: "mem_alloc_page crc ty st = (st1, Inr pid)" by fastforce
  from Suc.IH [OF mem.alloc_inv [OF Suc.prems(1) al]] mem_alloc_total [OF al Suc.prems(1)] Suc.prems(2) al
  show ?case by fastforce
qed simp

theorem page_batch_ownership_witness:
  "\<exists>st st' b' pid. mem_new (\<lambda>_. 0) = Some st \<and> pop_or_refill (\<lambda>_. 0) 3 Data lb_new st = (b', st', Inr pid) \<and>
     used_outside st' b' = insert pid (used_outside st lb_new)"
proof -
  obtain st where st: "mem_new (\<lambda>_. 0) = Some st" "mem_wf (\<lambda>_. 0) st" "fl_total_pages (ms_freelist st) = 64"
    using mem_new_wf fl_new_total [of 64 "[0, 1]"] unfolding mem_new_def by (fastforce split: option.splits)
  have "batch_ok lb_new st" by (simp add: batch_ok_def lb_new_def BATCH_ALLOC_SIZE_def MAX_BATCH_SIZE_def)
  moreover obtain st' ids where al: "alloc_page_batch (\<lambda>_. 0) 256 Data st = (st', Inr ids)"
    using alloc_page_batch_room [OF st(2), of 256 Data] st(3) by (auto simp: BITMAP_CAPACITY_def BITMAP_BODY_BYTES_def)
  moreover obtain pid rest where "ids = pid # rest"
    using alloc_page_batch_spec [OF st(2) al] by (cases ids) auto
  ultimately show ?thesis
    using page_batch_ownership [OF st(2), of lb_new 3 Data] st(1)
    by (fastforce simp: pop_or_refill_def drain_other_type_def lb_new_def refill_size_def BATCH_ALLOC_SIZE_def MAX_BATCH_SIZE_def)
qed

end
