(* ===== verification/Txn_Manager.thy ===== *)
theory Txn_Manager
  imports Wal_Clustered Wal_Concurrent Page_Batch
begin

text \<open>
  \<open>axiomdb-wal/src/txn*.rs\<close>: the transaction manager.
  Operations that hold one lock are one definition; \<open>begin\<close> and \<open>commit\<close> are composed of their
  critical sections, which the concurrent system of \<open>Txn_Isolation\<close> interleaves. The scratch
  buffer of a connection, its stack of savepoints and its pending commit are not part of its
  state: the functions below never read them. The batch functions assume what the source asserts,
  that their argument lists have equal lengths.
\<close>

subsection \<open>State\<close>

datatype undo_op =
    UndoInsert page_id u16
  | UndoDelete page_id u16
  | UndoUpdateInPlace page_id u16 "u8 list"
  | UndoTruncate page_id
  | UndoIndexInsert u32 page_id "u8 list"
  | UndoIndexDelete u32 page_id "u8 list" page_id u16 u8
  | UndoClusteredInsert u32 "u8 list"
  | UndoClusteredRestore u32 "u8 list" clustered_row_image
  | UndoClusteredUndelete u32 "u8 list"
  | UndoClusteredFieldPatch u32 "u8 list" row_header "field_delta list"

datatype index_undo_record =
    DeleteInserted u32 page_id "u8 list"
  | RestoreDeleted u32 page_id "u8 list" page_id u16 u8

datatype durability_policy = Strict | Normal | Off

record savepoint_mark =
  sp_undo_len :: nat
  sp_deferred_free_len :: nat
  sp_batch_freed_len :: nat

record connection_txn =
  ct_txn_id :: txn_id
  ct_snapshot_id_at_begin :: u64
  ct_isolation_level :: isolation_level
  ct_undo_ops :: "undo_op list"
  ct_deferred_free_pages :: "page_id list"
  ct_clustered_roots :: "u32 \<rightharpoonup> page_id"
  ct_active_ids_at_begin :: "txn_id set option"
  ct_deferred_commit_mode :: bool
  ct_local_page_batch :: local_page_batch
  ct_durability_override :: "durability_policy option"

record txn_mgr =
  tm_wal :: concurrent_wal
  tm_next_txn_id :: txn_id
  tm_max_committed :: txn_id
  tm_active_set :: "txn_id set"
  tm_lowest_active_id :: txn_id
  tm_deferred_commit_mode :: bool
  tm_free_batches :: "(txn_id \<times> page_id list) list"
  tm_steal_protection :: "page_id list list"
  tm_recycle_pages :: "page_id list list"
  tm_durability_policy :: durability_policy
  tm_last_clustered_roots :: "u32 \<rightharpoonup> page_id"

definition tm_create :: txn_mgr where
  "tm_create = \<lparr>tm_wal = cw_create, tm_next_txn_id = 1, tm_max_committed = 0, tm_active_set = {},
     tm_lowest_active_id = 0, tm_deferred_commit_mode = False, tm_free_batches = [],
     tm_steal_protection = [], tm_recycle_pages = [], tm_durability_policy = Strict,
     tm_last_clustered_roots = Map.empty\<rparr>"

text \<open>\<open>TxnManager::open\<close> and \<open>open_with_recovery\<close> both start from the highest committed transaction and
  the clustered roots found in the log.\<close>

definition tm_opened :: "concurrent_wal \<Rightarrow> txn_id \<Rightarrow> (u32 \<rightharpoonup> page_id) \<Rightarrow> txn_mgr" where
  "tm_opened wal max_committed roots = \<lparr>tm_wal = wal, tm_next_txn_id = max_committed + 1,
     tm_max_committed = max_committed, tm_active_set = {}, tm_lowest_active_id = 0,
     tm_deferred_commit_mode = False, tm_free_batches = [], tm_steal_protection = [],
     tm_recycle_pages = [], tm_durability_policy = Strict, tm_last_clustered_roots = roots\<rparr>"

subsection \<open>Begin\<close>

definition begin_alloc :: "txn_mgr \<Rightarrow> txn_mgr \<times> txn_id" where
  "begin_alloc m = (m\<lparr>tm_next_txn_id := tm_next_txn_id m + 1\<rparr>, tm_next_txn_id m)"

definition begin_log :: "(u8 list \<Rightarrow> u32) \<Rightarrow> txn_id \<Rightarrow> txn_mgr \<Rightarrow> txn_mgr" where
  "begin_log crc txn m = m\<lparr>tm_wal := fst (cw_append crc (control_entry 0 txn Begin) (tm_wal m))\<rparr>"

text \<open>Registration under the lock of the active set. The source reads the last clustered roots after it
  has released the lock; here the read belongs to the section.\<close>

definition begin_register :: "isolation_level \<Rightarrow> txn_id \<Rightarrow> txn_mgr \<Rightarrow> txn_mgr \<times> connection_txn" where
  "begin_register level txn m =
     (let mc = tm_max_committed m;
          active_ids = (if uses_frozen_snapshot level then Some (tm_active_set m) else None);
          prev = tm_lowest_active_id m
      in (m\<lparr>tm_active_set := insert txn (tm_active_set m),
            tm_lowest_active_id := (if prev = 0 \<or> txn < prev then txn else prev)\<rparr>,
          \<lparr>ct_txn_id = txn, ct_snapshot_id_at_begin = mc + 1, ct_isolation_level = level,
           ct_undo_ops = [], ct_deferred_free_pages = [],
           ct_clustered_roots = tm_last_clustered_roots m, ct_active_ids_at_begin = active_ids,
           ct_deferred_commit_mode = tm_deferred_commit_mode m, ct_local_page_batch = lb_new,
           ct_durability_override = None\<rparr>))"

definition begin_with_isolation ::
  "(u8 list \<Rightarrow> u32) \<Rightarrow> isolation_level \<Rightarrow> txn_mgr \<Rightarrow> txn_mgr \<times> connection_txn" where
  "begin_with_isolation crc level m =
     (case begin_alloc m of (m, txn) \<Rightarrow> begin_register level txn (begin_log crc txn m))"

subsection \<open>Commit\<close>

definition flush_no_sync :: "concurrent_wal \<Rightarrow> concurrent_wal" where
  "flush_no_sync c = (case drain_sorted c of (c, entries) \<Rightarrow> cw_write_drained entries c)"

definition commit_log :: "(u8 list \<Rightarrow> u32) \<Rightarrow> connection_txn \<Rightarrow> txn_mgr \<Rightarrow> txn_mgr" where
  "commit_log crc conn m =
     m\<lparr>tm_last_clustered_roots := tm_last_clustered_roots m ++ ct_clustered_roots conn,
       tm_wal := fst (cw_append crc (control_entry 0 (ct_txn_id conn) Commit) (tm_wal m))\<rparr>"

definition effective_policy :: "connection_txn \<Rightarrow> txn_mgr \<Rightarrow> durability_policy" where
  "effective_policy conn m =
     (case ct_durability_override conn of Some p \<Rightarrow> p | None \<Rightarrow> tm_durability_policy m)"

text \<open>Returns whether \<open>max_committed\<close> advances now, and the transaction if its sync is deferred.\<close>

definition commit_flush :: "connection_txn \<Rightarrow> txn_mgr \<Rightarrow> txn_mgr \<times> bool \<times> txn_id option" where
  "commit_flush conn m =
     (if ct_undo_ops conn = [] then (m\<lparr>tm_wal := flush_no_sync (tm_wal m)\<rparr>, True, None)
      else case effective_policy conn m of
             Strict \<Rightarrow>
               if ct_deferred_commit_mode conn then (m, False, Some (ct_txn_id conn))
               else (m\<lparr>tm_wal := flush_and_sync (tm_wal m)\<rparr>, True, None)
           | Normal \<Rightarrow> (m\<lparr>tm_wal := flush_no_sync (tm_wal m)\<rparr>, True, None)
           | Off \<Rightarrow> (m, True, None))"

definition lowest_of :: "txn_id set \<Rightarrow> txn_id" where
  "lowest_of ids = (if ids = {} then 0 else Min ids)"

definition remove_active :: "txn_id \<Rightarrow> txn_mgr \<Rightarrow> txn_mgr" where
  "remove_active txn m =
     m\<lparr>tm_active_set := tm_active_set m - {txn}, tm_lowest_active_id := lowest_of (tm_active_set m - {txn})\<rparr>"

definition commit_finish :: "bool \<Rightarrow> txn_id \<Rightarrow> txn_mgr \<Rightarrow> txn_mgr" where
  "commit_finish advance_now txn m =
     remove_active txn
       (if advance_now then m\<lparr>tm_max_committed := max (tm_max_committed m) txn\<rparr> else m)"

definition commit_housekeeping :: "connection_txn \<Rightarrow> txn_mgr \<Rightarrow> txn_mgr" where
  "commit_housekeeping conn m =
     (let m = (if ct_deferred_free_pages conn = [] then m
               else m\<lparr>tm_free_batches := tm_free_batches m @ [(ct_txn_id conn, ct_deferred_free_pages conn)]\<rparr>)
      in case take_for_commit (ct_local_page_batch conn) of (_, avail, freed) \<Rightarrow>
           let m = (if avail = [] then m else m\<lparr>tm_steal_protection := tm_steal_protection m @ [avail]\<rparr>) in
           if freed = [] then m else m\<lparr>tm_recycle_pages := tm_recycle_pages m @ [freed]\<rparr>)"

definition txn_commit ::
  "(u8 list \<Rightarrow> u32) \<Rightarrow> connection_txn \<Rightarrow> txn_mgr \<Rightarrow> txn_mgr \<times> txn_id option" where
  "txn_commit crc conn m =
     (case commit_flush conn (commit_log crc conn m) of
        (m, advance_now, pending) \<Rightarrow>
          (commit_housekeeping conn (commit_finish advance_now (ct_txn_id conn) m), pending))"

definition advance_committed :: "txn_id list \<Rightarrow> txn_mgr \<Rightarrow> txn_mgr" where
  "advance_committed ids m =
     (if ids = [] then m else m\<lparr>tm_max_committed := max (tm_max_committed m) (Max (set ids))\<rparr>)"

definition advance_committed_single :: "txn_id \<Rightarrow> txn_mgr \<Rightarrow> txn_mgr" where
  "advance_committed_single txn m = m\<lparr>tm_max_committed := max (tm_max_committed m) txn\<rparr>"

subsection \<open>Snapshots\<close>

definition tm_snapshot :: "txn_mgr \<Rightarrow> transaction_snapshot" where
  "tm_snapshot m =
     \<lparr>snapshot_id = tm_max_committed m + 1, current_txn_id = 0, active_ids = tm_active_set m\<rparr>"

definition active_snapshot :: "txn_mgr \<Rightarrow> connection_txn \<Rightarrow> transaction_snapshot" where
  "active_snapshot m conn =
     (if uses_frozen_snapshot (ct_isolation_level conn)
      then \<lparr>snapshot_id = ct_snapshot_id_at_begin conn, current_txn_id = ct_txn_id conn,
            active_ids = (case ct_active_ids_at_begin conn of Some ids \<Rightarrow> ids | None \<Rightarrow> {})\<rparr>
      else \<lparr>snapshot_id = tm_max_committed m + 1, current_txn_id = ct_txn_id conn,
            active_ids = tm_active_set m\<rparr>)"

definition has_active_txn :: "txn_mgr \<Rightarrow> bool" where
  "has_active_txn m \<longleftrightarrow> tm_active_set m \<noteq> {}"

definition clustered_root :: "txn_mgr \<Rightarrow> u32 \<Rightarrow> page_id option" where
  "clustered_root m table_id = tm_last_clustered_roots m table_id"

definition clustered_root_for_conn :: "txn_mgr \<Rightarrow> connection_txn \<Rightarrow> u32 \<Rightarrow> page_id option" where
  "clustered_root_for_conn m conn table_id =
     (case ct_clustered_roots conn table_id of
        Some r \<Rightarrow> Some r
      | None \<Rightarrow> tm_last_clustered_roots m table_id)"

subsection \<open>Savepoints\<close>

definition savepoint :: "connection_txn \<Rightarrow> savepoint_mark" where
  "savepoint conn = \<lparr>sp_undo_len = length (ct_undo_ops conn),
     sp_deferred_free_len = length (ct_deferred_free_pages conn),
     sp_batch_freed_len = length (lb_freed (ct_local_page_batch conn))\<rparr>"

subsection \<open>Recording changes\<close>

definition PHYSICAL_LOC_LEN :: nat where "PHYSICAL_LOC_LEN = 10"

definition encode_physical_loc :: "page_id \<Rightarrow> u16 \<Rightarrow> u8 list" where
  "encode_physical_loc pid slot = u64_le pid @ u16_le slot"

definition decode_physical_loc :: "u8 list \<Rightarrow> (page_id \<times> u16) option" where
  "decode_physical_loc bs =
     (if length bs < PHYSICAL_LOC_LEN then None
      else Some (u64_of_le (sub_slice bs 0 8), u16_of_le (sub_slice bs 8 2)))"

lemma decode_encode_loc [simp]: "decode_physical_loc (encode_physical_loc pid slot @ bs) = Some (pid, slot)"
  by (simp add: decode_physical_loc_def encode_physical_loc_def sub_slice_def PHYSICAL_LOC_LEN_def)

definition dml_entry ::
  "txn_id \<Rightarrow> entry_type \<Rightarrow> u32 \<Rightarrow> u8 list \<Rightarrow> u8 list \<Rightarrow> u8 list \<Rightarrow> wal_entry" where
  "dml_entry txn t table_id key ov nv = \<lparr>we_lsn = 0, we_txn_id = txn, we_type = t, we_table_id = table_id,
     we_key = key, we_old_value = ov, we_new_value = nv\<rparr>"

text \<open>Append one record and push its undo operations.\<close>

definition log_one ::
  "(u8 list \<Rightarrow> u32) \<Rightarrow> wal_entry \<Rightarrow> undo_op list \<Rightarrow> connection_txn \<Rightarrow> txn_mgr \<Rightarrow> txn_mgr \<times> connection_txn" where
  "log_one crc entry ops conn m =
     (m\<lparr>tm_wal := fst (cw_append crc entry (tm_wal m))\<rparr>, conn\<lparr>ct_undo_ops := ct_undo_ops conn @ ops\<rparr>)"

text \<open>Reserve a run of sequence numbers, serialise the records into one buffer and submit it.\<close>

primrec stamp_from :: "u64 \<Rightarrow> wal_entry list \<Rightarrow> wal_entry list" where
  "stamp_from lsn [] = []"
| "stamp_from lsn (e # es) = e\<lparr>we_lsn := lsn\<rparr> # stamp_from (lsn + 1) es"

definition log_batch ::
  "(u8 list \<Rightarrow> u32) \<Rightarrow> wal_entry list \<Rightarrow> undo_op list \<Rightarrow> connection_txn \<Rightarrow> txn_mgr \<Rightarrow> txn_mgr \<times> connection_txn" where
  "log_batch crc entries ops conn m =
     (if entries = [] then (m, conn)
      else case cw_reserve_lsns (length entries) (tm_wal m) of
             (wal, lsn_base) \<Rightarrow>
               (m\<lparr>tm_wal := cw_write_batch lsn_base
                    (fold (serialize_into crc) (stamp_from lsn_base entries) []) wal\<rparr>,
                conn\<lparr>ct_undo_ops := ct_undo_ops conn @ ops\<rparr>))"

definition record_insert ::
  "(u8 list \<Rightarrow> u32) \<Rightarrow> u32 \<Rightarrow> u8 list \<Rightarrow> u8 list \<Rightarrow> page_id \<Rightarrow> u16 \<Rightarrow> connection_txn \<Rightarrow> txn_mgr \<Rightarrow> txn_mgr \<times> connection_txn" where
  "record_insert crc table_id key val pid slot conn m =
     log_one crc (dml_entry (ct_txn_id conn) Insert table_id key [] (encode_physical_loc pid slot @ val))
       [UndoInsert pid slot] conn m"

definition record_insert_batch ::
  "(u8 list \<Rightarrow> u32) \<Rightarrow> u32 \<Rightarrow> (page_id \<times> u16) list \<Rightarrow> u8 list list \<Rightarrow> connection_txn \<Rightarrow> txn_mgr \<Rightarrow> txn_mgr \<times> connection_txn" where
  "record_insert_batch crc table_id phys_locs vals conn m =
     log_batch crc
       (map (\<lambda>((pid, slot), val). dml_entry (ct_txn_id conn) Insert table_id (encode_physical_loc pid slot) []
          (encode_physical_loc pid slot @ val)) (zip phys_locs vals))
       (map (\<lambda>(pid, slot). UndoInsert pid slot) phys_locs) conn m"

definition slot_list_bytes :: "u16 list \<Rightarrow> u8 list" where
  "slot_list_bytes slots = u16_le (word_of_nat (length slots)) @ concat (map u16_le slots)"

definition record_page_writes ::
  "(u8 list \<Rightarrow> u32) \<Rightarrow> u32 \<Rightarrow> (page_id \<times> u16 list) list \<Rightarrow> connection_txn \<Rightarrow> txn_mgr \<Rightarrow> txn_mgr \<times> connection_txn" where
  "record_page_writes crc table_id page_writes conn m =
     log_batch crc
       (map (\<lambda>(pid, slots). dml_entry (ct_txn_id conn) PageWrite table_id (u64_le pid) [] (slot_list_bytes slots)) page_writes)
       (concat (map (\<lambda>(pid, slots). map (UndoInsert pid) slots) page_writes)) conn m"

definition record_delete_batch ::
  "(u8 list \<Rightarrow> u32) \<Rightarrow> u32 \<Rightarrow> (page_id \<times> u16 list) list \<Rightarrow> connection_txn \<Rightarrow> txn_mgr \<Rightarrow> txn_mgr \<times> connection_txn" where
  "record_delete_batch crc table_id page_deletes conn m =
     log_batch crc
       (map (\<lambda>(pid, slots). dml_entry (ct_txn_id conn) PageDelete table_id (u64_le pid) [] (slot_list_bytes slots)) page_deletes)
       (concat (map (\<lambda>(pid, slots). map (UndoDelete pid) slots) page_deletes)) conn m"

definition record_delete ::
  "(u8 list \<Rightarrow> u32) \<Rightarrow> u32 \<Rightarrow> u8 list \<Rightarrow> u8 list \<Rightarrow> page_id \<Rightarrow> u16 \<Rightarrow> connection_txn \<Rightarrow> txn_mgr \<Rightarrow> txn_mgr \<times> connection_txn" where
  "record_delete crc table_id key old_value pid slot conn m =
     log_one crc (dml_entry (ct_txn_id conn) Delete table_id key (encode_physical_loc pid slot @ old_value) [])
       [UndoDelete pid slot] conn m"

definition record_update ::
  "(u8 list \<Rightarrow> u32) \<Rightarrow> u32 \<Rightarrow> u8 list \<Rightarrow> u8 list \<Rightarrow> u8 list \<Rightarrow> page_id \<Rightarrow> u16 \<Rightarrow> u16 \<Rightarrow> connection_txn \<Rightarrow> txn_mgr \<Rightarrow> txn_mgr \<times> connection_txn" where
  "record_update crc table_id key old_value new_value pid old_slot new_slot conn m =
     log_one crc (dml_entry (ct_txn_id conn) Update table_id key
         (encode_physical_loc pid old_slot @ old_value) (encode_physical_loc pid new_slot @ new_value))
       [UndoInsert pid new_slot, UndoDelete pid old_slot] conn m"

definition record_update_in_place ::
  "(u8 list \<Rightarrow> u32) \<Rightarrow> u32 \<Rightarrow> u8 list \<Rightarrow> u8 list \<Rightarrow> u8 list \<Rightarrow> page_id \<Rightarrow> u16 \<Rightarrow> connection_txn \<Rightarrow> txn_mgr \<Rightarrow> txn_mgr \<times> connection_txn" where
  "record_update_in_place crc table_id key old_image new_image pid slot conn m =
     log_one crc (dml_entry (ct_txn_id conn) UpdateInPlace table_id key
         (encode_physical_loc pid slot @ old_image) (encode_physical_loc pid slot @ new_image))
       [UndoUpdateInPlace pid slot old_image] conn m"

definition record_update_in_place_batch ::
  "(u8 list \<Rightarrow> u32) \<Rightarrow> u32 \<Rightarrow> (u8 list \<times> u8 list \<times> u8 list \<times> page_id \<times> u16) list \<Rightarrow> connection_txn \<Rightarrow> txn_mgr \<Rightarrow> txn_mgr \<times> connection_txn" where
  "record_update_in_place_batch crc table_id images conn m =
     log_batch crc
       (map (\<lambda>(key, old_image, new_image, pid, slot). dml_entry (ct_txn_id conn) UpdateInPlace table_id key
          (encode_physical_loc pid slot @ old_image) (encode_physical_loc pid slot @ new_image)) images)
       (map (\<lambda>(_, old_image, _, pid, slot). UndoUpdateInPlace pid slot old_image) images) conn m"

definition record_truncate ::
  "(u8 list \<Rightarrow> u32) \<Rightarrow> u32 \<Rightarrow> page_id \<Rightarrow> connection_txn \<Rightarrow> txn_mgr \<Rightarrow> txn_mgr \<times> connection_txn" where
  "record_truncate crc table_id root conn m =
     log_one crc (dml_entry (ct_txn_id conn) Truncate table_id (u64_le root) [] []) [UndoTruncate root] conn m"

definition record_index_insert :: "u32 \<Rightarrow> page_id \<Rightarrow> u8 list \<Rightarrow> connection_txn \<Rightarrow> connection_txn" where
  "record_index_insert index_id root key conn =
     conn\<lparr>ct_undo_ops := ct_undo_ops conn @ [UndoIndexInsert index_id root key]\<rparr>"

definition record_index_delete ::
  "u32 \<Rightarrow> page_id \<Rightarrow> u8 list \<Rightarrow> page_id \<Rightarrow> u16 \<Rightarrow> u8 \<Rightarrow> connection_txn \<Rightarrow> connection_txn" where
  "record_index_delete index_id root key pid slot fillfactor conn =
     conn\<lparr>ct_undo_ops := ct_undo_ops conn @ [UndoIndexDelete index_id root key pid slot fillfactor]\<rparr>"

primrec index_undo_of :: "undo_op \<Rightarrow> index_undo_record option" where
  "index_undo_of (UndoInsert p s) = None"
| "index_undo_of (UndoDelete p s) = None"
| "index_undo_of (UndoUpdateInPlace p s img) = None"
| "index_undo_of (UndoTruncate r) = None"
| "index_undo_of (UndoIndexInsert i r k) = Some (DeleteInserted i r k)"
| "index_undo_of (UndoIndexDelete i r k p s f) = Some (RestoreDeleted i r k p s f)"
| "index_undo_of (UndoClusteredInsert t k) = None"
| "index_undo_of (UndoClusteredRestore t k img) = None"
| "index_undo_of (UndoClusteredUndelete t k) = None"
| "index_undo_of (UndoClusteredFieldPatch t k h ds) = None"

definition collect_index_undos :: "connection_txn \<Rightarrow> index_undo_record list" where
  "collect_index_undos conn = List.map_filter index_undo_of (rev (ct_undo_ops conn))"

definition collect_index_undos_since :: "connection_txn \<Rightarrow> savepoint_mark \<Rightarrow> index_undo_record list" where
  "collect_index_undos_since conn sp = List.map_filter index_undo_of (rev (drop (sp_undo_len sp) (ct_undo_ops conn)))"

end
