(* ===== verification/Txn_Isolation.thy ===== *)
theory Txn_Isolation
  imports Txn_Manager
begin

text \<open>
  Transactions as a concurrent system: the critical sections of \<open>begin\<close>, \<open>commit\<close> and \<open>rollback\<close> of
  many connections in any order. What their snapshots may contain, and what goes wrong while
  a transaction is between the allocation of its number and its entry into the active set.
\<close>

subsection \<open>The system\<close>

text \<open>\<open>ts_clean\<close> are the transactions that registered while no other one was between the two steps of
  \<open>begin\<close>.\<close>

record txn_sys =
  ts_mgr :: txn_mgr
  ts_allocated :: "txn_id set"
  ts_conns :: "txn_id \<rightharpoonup> connection_txn"
  ts_clean :: "txn_id set"
  ts_finished :: "txn_id set"

definition txn_init :: "txn_mgr \<Rightarrow> txn_sys" where
  "txn_init m = \<lparr>ts_mgr = m, ts_allocated = {}, ts_conns = Map.empty, ts_clean = {},
     ts_finished = {t. 0 < t \<and> t \<le> tm_max_committed m}\<rparr>"

definition fresh_mgr :: "txn_mgr \<Rightarrow> bool" where
  "fresh_mgr m \<longleftrightarrow> tm_active_set m = {} \<and> tm_max_committed m < - 1 \<and> tm_next_txn_id m = tm_max_committed m + 1"

inductive txn_step :: "txn_sys \<Rightarrow> txn_sys \<Rightarrow> bool" where
  step_alloc: "tm_next_txn_id (ts_mgr s) < - 1 \<Longrightarrow> begin_alloc (ts_mgr s) = (m, t) \<Longrightarrow>
    txn_step s (s\<lparr>ts_mgr := m, ts_allocated := insert t (ts_allocated s)\<rparr>)"
| step_register: "t \<in> ts_allocated s \<Longrightarrow> begin_register level t (ts_mgr s) = (m, conn) \<Longrightarrow>
    txn_step s (s\<lparr>ts_mgr := m, ts_allocated := ts_allocated s - {t}, ts_conns := (ts_conns s)(t \<mapsto> conn),
      ts_clean := (if ts_allocated s = {t} then insert t (ts_clean s) else ts_clean s)\<rparr>)"
| step_commit: "ts_conns s t = Some conn \<Longrightarrow>
    txn_step s (s\<lparr>ts_mgr := commit_finish advance t (ts_mgr s), ts_conns := (ts_conns s)(t := None),
      ts_finished := insert t (ts_finished s)\<rparr>)"
| step_advance: "t \<in> ts_finished s \<Longrightarrow>
    txn_step s (s\<lparr>ts_mgr := advance_committed_single t (ts_mgr s)\<rparr>)"
| step_rollback: "ts_conns s t = Some conn \<Longrightarrow>
    txn_step s (s\<lparr>ts_mgr := remove_active t (ts_mgr s), ts_conns := (ts_conns s)(t := None),
      ts_finished := insert t (ts_finished s)\<rparr>)"

inductive txn_reachable :: "txn_sys \<Rightarrow> bool" where
  txn_start: "fresh_mgr m \<Longrightarrow> txn_reachable (txn_init m)"
| txn_more: "txn_reachable s \<Longrightarrow> txn_step s s' \<Longrightarrow> txn_reachable s'"

subsection \<open>Every number below the counter is accounted for\<close>

definition txn_inv :: "txn_sys \<Rightarrow> bool" where
  "txn_inv s \<longleftrightarrow>
     {t. 0 < t \<and> t < tm_next_txn_id (ts_mgr s)} = ts_allocated s \<union> dom (ts_conns s) \<union> ts_finished s \<and>
     ts_allocated s \<inter> dom (ts_conns s) = {} \<and>
     tm_active_set (ts_mgr s) = dom (ts_conns s) \<and>
     tm_max_committed (ts_mgr s) < tm_next_txn_id (ts_mgr s) \<and>
     (\<forall>t \<in> ts_clean s. t < tm_next_txn_id (ts_mgr s) \<and> t \<notin> ts_allocated s) \<and>
     (\<forall>t conn. ts_conns s t = Some conn \<longrightarrow> ct_txn_id conn = t) \<and>
     (\<forall>t conn u. ts_conns s t = Some conn \<longrightarrow> t \<in> ts_clean s \<longrightarrow> uses_frozen_snapshot (ct_isolation_level conn) \<longrightarrow>
        in_snapshot (active_snapshot (ts_mgr s) conn) u \<longrightarrow> u = t \<or> u = 0 \<or> u \<in> ts_finished s)"

lemma txn_invD:
  assumes "txn_inv s"
  shows "{t. 0 < t \<and> t < tm_next_txn_id (ts_mgr s)} = ts_allocated s \<union> dom (ts_conns s) \<union> ts_finished s"
    "ts_allocated s \<inter> dom (ts_conns s) = {}" "tm_active_set (ts_mgr s) = dom (ts_conns s)"
    "tm_max_committed (ts_mgr s) < tm_next_txn_id (ts_mgr s)"
    "\<And>t conn. ts_conns s t = Some conn \<Longrightarrow> ct_txn_id conn = t"
    "\<And>t conn u. ts_conns s t = Some conn \<Longrightarrow> t \<in> ts_clean s \<Longrightarrow> uses_frozen_snapshot (ct_isolation_level conn) \<Longrightarrow>
      in_snapshot (active_snapshot (ts_mgr s) conn) u \<Longrightarrow> u = t \<or> u = 0 \<or> u \<in> ts_finished s"
    "\<And>t. t \<in> ts_clean s \<Longrightarrow> t < tm_next_txn_id (ts_mgr s) \<and> t \<notin> ts_allocated s"
  using assms unfolding txn_inv_def by blast+

lemma frozen_active_snapshot:
  "uses_frozen_snapshot (ct_isolation_level conn) \<Longrightarrow> active_snapshot m conn = active_snapshot m' conn"
  by (simp add: active_snapshot_def)

lemma below_succ: "(w :: u64) < - 1 \<Longrightarrow> t < w + 1 \<longleftrightarrow> t \<le> w"
proof -
  assume "w < - 1"
  then have "w \<noteq> - 1" by blast
  then have "1 + w \<noteq> 0" by (simp add: eq_neg_iff_add_eq_0 add.commute)
  from unatSuc [OF this] show ?thesis by (simp add: word_less_nat_alt word_le_nat_alt less_Suc_eq_le add.commute)
qed

lemma txn_inv_init: "fresh_mgr m \<Longrightarrow> txn_inv (txn_init m)"
  by (auto simp: txn_inv_def txn_init_def fresh_mgr_def below_succ)

lemma snapshot_below:
  assumes "txn_inv s" "u \<le> tm_max_committed (ts_mgr s)" "u \<notin> dom (ts_conns s)" "ts_allocated s = {}" "u \<noteq> 0"
  shows "u \<in> ts_finished s"
proof -
  have "0 < u" using assms(5) by (simp add: word_greater_zero_iff)
  moreover have "u < tm_next_txn_id (ts_mgr s)" using assms(2) txn_invD(4) [OF assms(1)] by simp
  ultimately show ?thesis using txn_invD(1) [OF assms(1)] assms(3,4) by blast
qed

text \<open>Shared by the steps that end a transaction.\<close>

lemma finish_inv:
  assumes "txn_inv s" "ts_conns s t = Some conn"
  shows "{u. 0 < u \<and> u < tm_next_txn_id (ts_mgr s)} =
      ts_allocated s \<union> dom ((ts_conns s)(t := None)) \<union> insert t (ts_finished s)"
    "ts_allocated s \<inter> dom ((ts_conns s)(t := None)) = {}"
    "tm_active_set (ts_mgr s) - {t} = dom ((ts_conns s)(t := None))"
proof -
  note i = txn_invD [OF assms(1)]
  have "t \<in> dom (ts_conns s)" using assms(2) by blast
  then show "{u. 0 < u \<and> u < tm_next_txn_id (ts_mgr s)} =
      ts_allocated s \<union> dom ((ts_conns s)(t := None)) \<union> insert t (ts_finished s)"
    unfolding i(1) by (auto simp del: not_None_eq)
  show "ts_allocated s \<inter> dom ((ts_conns s)(t := None)) = {}" using i(2) by auto
  show "tm_active_set (ts_mgr s) - {t} = dom ((ts_conns s)(t := None))" using i(3) by auto
qed

lemma finish_snap:
  assumes "txn_inv s" "ts_conns s t = Some conn" "t \<in> ts_clean s" "uses_frozen_snapshot (ct_isolation_level conn)"
    "in_snapshot (active_snapshot m conn) u"
  shows "u = t \<or> u = 0 \<or> u \<in> ts_finished s"
  using txn_invD(6) [OF assms(1-4)] assms(5) frozen_active_snapshot [OF assms(4)] by metis

lemma end_inv:
  assumes "txn_inv s" "ts_conns s t = Some conn" "tm_next_txn_id m = tm_next_txn_id (ts_mgr s)"
    "tm_active_set m = tm_active_set (ts_mgr s) - {t}" "tm_max_committed m < tm_next_txn_id m"
  shows "txn_inv (s\<lparr>ts_mgr := m, ts_conns := (ts_conns s)(t := None), ts_finished := insert t (ts_finished s)\<rparr>)"
proof -
  note i = txn_invD [OF assms(1)] and f = finish_inv [OF assms(1,2)]
  have snap: "u = t' \<or> u = 0 \<or> u \<in> insert t (ts_finished s)"
    if "((ts_conns s)(t := None)) t' = Some conn'" "t' \<in> ts_clean s" "uses_frozen_snapshot (ct_isolation_level conn')"
      "in_snapshot (active_snapshot m conn') u" for t' conn' u
    using finish_snap [OF assms(1) _ that(2-4)] that(1) by (auto split: if_splits)
  have ids: "ct_txn_id conn' = t'" if "((ts_conns s)(t := None)) t' = Some conn'" for t' conn'
    using that i(5) by (auto split: if_splits)
  show ?thesis
    unfolding txn_inv_def using f i(7) assms(3-5) snap ids by simp
qed

lemma txn_inv_step:
  assumes "txn_inv s" "txn_step s s'" shows "txn_inv s'"
  using assms(2)
proof cases
  case (step_alloc m t)
  note i = txn_invD [OF assms(1)]
  have m: "m = ts_mgr s\<lparr>tm_next_txn_id := tm_next_txn_id (ts_mgr s) + 1\<rparr>" "t = tm_next_txn_id (ts_mgr s)"
    using step_alloc by (auto simp: begin_alloc_def)
  have "0 < t" using i(4) unfolding m(2) by (rule le_less_trans [OF word_zero_le])
  then have "{u. 0 < u \<and> u < t + 1} = insert t {u. 0 < u \<and> u < t}"
    using step_alloc(2) m(2) by (auto simp: below_succ)
  moreover have "t \<notin> dom (ts_conns s)" using i(1) m(2) by auto
  moreover have "tm_max_committed (ts_mgr s) < t + 1" using i(4) step_alloc(2) m(2) by (simp add: below_succ)
  moreover have "u < t + 1 \<and> u \<notin> insert t (ts_allocated s)" if "u \<in> ts_clean s" for u
    using i(7) [OF that] step_alloc(2) m(2) by (auto simp: below_succ)
  ultimately show ?thesis
    using i unfolding txn_inv_def by (auto simp: step_alloc(1) m active_snapshot_def cong: if_cong)
next
  case (step_register t level m conn)
  note i = txn_invD [OF assms(1)]
  from step_register(3) have m: "m = ts_mgr s\<lparr>tm_active_set := insert t (tm_active_set (ts_mgr s)),
      tm_lowest_active_id := (if tm_lowest_active_id (ts_mgr s) = 0 \<or> t < tm_lowest_active_id (ts_mgr s)
        then t else tm_lowest_active_id (ts_mgr s))\<rparr>"
    and c: "ct_txn_id conn = t" "ct_snapshot_id_at_begin conn = tm_max_committed (ts_mgr s) + 1"
      "ct_isolation_level conn = level"
      "ct_active_ids_at_begin conn = (if uses_frozen_snapshot level then Some (tm_active_set (ts_mgr s)) else None)"
    by (auto simp: begin_register_def Let_def)
  have mc: "tm_max_committed (ts_mgr s) < - 1"
    using i(4) word_order.extremum [of "tm_next_txn_id (ts_mgr s)"] by (rule less_le_trans)
  have new: "u = t \<or> u = 0 \<or> u \<in> ts_finished s"
    if "ts_allocated s = {t}" "uses_frozen_snapshot level" "in_snapshot (active_snapshot m conn) u" for u
  proof -
    have "u = t \<or> (u \<le> tm_max_committed (ts_mgr s) \<and> u \<notin> dom (ts_conns s))"
      using that(2,3) c mc i(3) by (auto simp: in_snapshot_def active_snapshot_def below_succ)
    moreover have "u \<in> ts_finished s" if "u \<le> tm_max_committed (ts_mgr s)" "u \<notin> dom (ts_conns s)" "u \<noteq> 0" "u \<noteq> t"
    proof -
      have "0 < u" "u < tm_next_txn_id (ts_mgr s)" using that(1,3) i(4) by (auto simp: word_greater_zero_iff)
      then show ?thesis using i(1) that(2,4) \<open>ts_allocated s = {t}\<close> by blast
    qed
    ultimately show ?thesis by blast
  qed
  have other: "u = t' \<or> u = 0 \<or> u \<in> ts_finished s"
    if "ts_conns s t' = Some conn'" "t' \<in> ts_clean s" "uses_frozen_snapshot (ct_isolation_level conn')"
      "in_snapshot (active_snapshot m conn') u" for t' conn' u
    by (rule finish_snap [OF assms(1) that])
  have t: "t \<notin> dom (ts_conns s)" "t \<notin> ts_clean s" using i(2,7) step_register(2) by blast+
  have snap: "u = t' \<or> u = 0 \<or> u \<in> ts_finished s"
    if "((ts_conns s)(t \<mapsto> conn)) t' = Some conn'"
      "t' \<in> (if ts_allocated s = {t} then insert t (ts_clean s) else ts_clean s)"
      "uses_frozen_snapshot (ct_isolation_level conn')" "in_snapshot (active_snapshot m conn') u" for t' conn' u
    using that t(2) new other c(3) by (cases "t' = t") (auto split: if_splits)
  have sets: "{u. 0 < u \<and> u < tm_next_txn_id m} = ts_allocated s - {t} \<union> dom ((ts_conns s)(t \<mapsto> conn)) \<union> ts_finished s"
    "(ts_allocated s - {t}) \<inter> dom ((ts_conns s)(t \<mapsto> conn)) = {}" "tm_active_set m = dom ((ts_conns s)(t \<mapsto> conn))"
    using i(1-3) step_register(2) by (auto simp: m)
  have clean: "u < tm_next_txn_id m \<and> u \<notin> ts_allocated s - {t}"
    if "u \<in> (if ts_allocated s = {t} then insert t (ts_clean s) else ts_clean s)" for u
  proof -
    have "t < tm_next_txn_id (ts_mgr s)" using i(1) step_register(2) by blast
    then show ?thesis using that i(7) [of u] by (auto simp: m split: if_splits)
  qed
  have ids: "ct_txn_id conn' = t'" if "((ts_conns s)(t \<mapsto> conn)) t' = Some conn'" for t' conn'
    using that i(5) c(1) by (auto split: if_splits)
  have "tm_max_committed m < tm_next_txn_id m" using i(4) by (simp add: m)
  with sets clean ids snap show ?thesis unfolding txn_inv_def step_register(1) by simp
next
  case (step_commit t conn advance)
  note i = txn_invD [OF assms(1)]
  let ?m = "commit_finish advance t (ts_mgr s)"
  have m: "tm_next_txn_id ?m = tm_next_txn_id (ts_mgr s)" "tm_active_set ?m = tm_active_set (ts_mgr s) - {t}"
    "tm_max_committed ?m = (if advance then max (tm_max_committed (ts_mgr s)) t else tm_max_committed (ts_mgr s))"
    by (simp_all add: commit_finish_def remove_active_def)
  have "t < tm_next_txn_id (ts_mgr s)" using i(1) step_commit(2) by blast
  then have mc: "tm_max_committed ?m < tm_next_txn_id ?m" using i(4) m by simp
  show ?thesis unfolding step_commit(1) by (rule end_inv [OF assms(1) step_commit(2) m(1,2) mc])
next
  case (step_advance t)
  note i = txn_invD [OF assms(1)]
  have "t < tm_next_txn_id (ts_mgr s)" using i(1) step_advance(2) by blast
  then show ?thesis
    using i finish_snap [OF assms(1)] unfolding txn_inv_def
    by (simp add: step_advance(1) advance_committed_single_def)
next
  case (step_rollback t conn)
  show ?thesis unfolding step_rollback(1)
    by (rule end_inv [OF assms(1) step_rollback(2)]) (use txn_invD(4) [OF assms(1)] in \<open>simp_all add: remove_active_def\<close>)
qed

lemma txn_inv_reachable: "txn_reachable s \<Longrightarrow> txn_inv s"
  by (induction rule: txn_reachable.induct) (use txn_inv_init txn_inv_step in blast)+

subsection \<open>No dirty reads, and how they can happen\<close>

text \<open>C4: Snapshot isolation. A row version that a transaction sees was created by the transaction
  itself or by one that has finished: under Repeatable Read or Serializable, for the whole life
  of the transaction, if no other transaction was between the two steps of \<open>begin\<close> when it
  registered; under Read Committed, if none is when the snapshot is taken.\<close>

theorem no_dirty_reads:
  assumes "txn_reachable s" "ts_conns s t = Some conn" "is_visible h (active_snapshot (ts_mgr s) conn)"
    "if uses_frozen_snapshot (ct_isolation_level conn) then t \<in> ts_clean s else ts_allocated s = {}"
  shows "txn_id_created h = t \<or> txn_id_created h = 0 \<or> txn_id_created h \<in> ts_finished s"
proof -
  note inv = txn_inv_reachable [OF assms(1)]
  note i = txn_invD [OF inv]
  let ?u = "txn_id_created h"
  have u: "in_snapshot (active_snapshot (ts_mgr s) conn) ?u" using assms(3) by (simp add: is_visible_in_snapshot)
  show ?thesis
  proof (cases "uses_frozen_snapshot (ct_isolation_level conn)")
    case True
    then show ?thesis using i(6) [OF assms(2) _ True u] assms(4) by simp
  next
    case False
    have mc: "tm_max_committed (ts_mgr s) < - 1"
      using i(4) word_order.extremum [of "tm_next_txn_id (ts_mgr s)"] by (rule less_le_trans)
    have "?u = t \<or> (?u \<le> tm_max_committed (ts_mgr s) \<and> ?u \<notin> dom (ts_conns s))"
      using u False i(3) i(5) [OF assms(2)] mc by (auto simp: in_snapshot_def active_snapshot_def below_succ)
    then show ?thesis using snapshot_below [OF inv] assms(4) False by auto
  qed
qed

text \<open>The steps as functions, to run the system.\<close>

definition do_alloc :: "txn_sys \<Rightarrow> txn_sys" where
  "do_alloc s = s\<lparr>ts_mgr := fst (begin_alloc (ts_mgr s)),
     ts_allocated := insert (snd (begin_alloc (ts_mgr s))) (ts_allocated s)\<rparr>"

definition do_register :: "isolation_level \<Rightarrow> txn_id \<Rightarrow> txn_sys \<Rightarrow> txn_sys" where
  "do_register level t s = s\<lparr>ts_mgr := fst (begin_register level t (ts_mgr s)), ts_allocated := ts_allocated s - {t},
     ts_conns := (ts_conns s)(t \<mapsto> snd (begin_register level t (ts_mgr s))),
     ts_clean := (if ts_allocated s = {t} then insert t (ts_clean s) else ts_clean s)\<rparr>"

definition do_commit :: "txn_id \<Rightarrow> txn_sys \<Rightarrow> txn_sys" where
  "do_commit t s = s\<lparr>ts_mgr := commit_finish True t (ts_mgr s), ts_conns := (ts_conns s)(t := None),
     ts_finished := insert t (ts_finished s)\<rparr>"

lemma reach_run:
  "txn_reachable s \<Longrightarrow> tm_next_txn_id (ts_mgr s) < - 1 \<Longrightarrow> txn_reachable (do_alloc s)"
  "txn_reachable s \<Longrightarrow> t \<in> ts_allocated s \<Longrightarrow> txn_reachable (do_register level t s)"
  "txn_reachable s \<Longrightarrow> ts_conns s t \<noteq> None \<Longrightarrow> txn_reachable (do_commit t s)"
  unfolding do_alloc_def do_register_def do_commit_def
  by (metis txn_more step_alloc prod.collapse, metis txn_more step_register prod.collapse,
      metis txn_more step_commit not_None_eq)

lemmas run_simps = do_alloc_def do_register_def do_commit_def begin_alloc_def begin_register_def
  commit_finish_def remove_active_def txn_init_def tm_create_def Let_def lowest_of_def

lemma reach_create: "txn_reachable (txn_init tm_create)"
  by (rule txn_start) (simp add: fresh_mgr_def tm_create_def word_greater_zero_iff)

lemma small_ids [simp]: "(1 :: u64) < - 1" "(2 :: u64) < - 1" "(3 :: u64) < - 1"
  by (simp_all flip: word_order.not_eq_extremum)

theorem no_dirty_reads_witness:
  "\<exists>s conn. txn_reachable s \<and> ts_conns s 2 = Some conn \<and> is_visible (fresh_header 1) (active_snapshot (ts_mgr s) conn) \<and>
    1 \<in> ts_finished s"
proof -
  define s where "s = do_register RepeatableRead 2 (do_alloc (do_commit 1 (do_register RepeatableRead 1 (do_alloc (txn_init tm_create)))))"
  have r: "txn_reachable s" unfolding s_def
    by (intro reach_run reach_create) (simp_all add: run_simps)
  obtain conn where c: "ts_conns s 2 = Some conn" "uses_frozen_snapshot (ct_isolation_level conn)"
    "is_visible (fresh_header 1) (active_snapshot (ts_mgr s) conn)" "2 \<in> ts_clean s"
    by (simp add: s_def run_simps uses_frozen_snapshot_def active_snapshot_def is_visible_def fresh_header_def)
  from no_dirty_reads [OF r c(1,3)] c(2,4) have "1 \<in> ts_finished s" by (simp add: fresh_header_def)
  with r c(1,3) show ?thesis by blast
qed

text \<open>C30: The window between the two steps of \<open>begin\<close> breaks isolation. Transaction 1 takes its number;
  transaction 2 begins and commits; transaction 3 begins under Repeatable Read; then
  transaction 1 enters the active set. From then on transaction 3 sees the rows transaction 1
  creates, although transaction 1 is still running.\<close>

theorem begin_window_dirty_read:
  "\<exists>s conn. txn_reachable s \<and> ts_conns s 3 = Some conn \<and> ct_isolation_level conn = RepeatableRead \<and>
    ts_conns s 1 \<noteq> None \<and> 1 \<notin> ts_finished s \<and> is_visible (fresh_header 1) (active_snapshot (ts_mgr s) conn)"
proof -
  define s where "s = do_register RepeatableRead 1 (do_register RepeatableRead 3 (do_alloc (do_commit 2
    (do_register RepeatableRead 2 (do_alloc (do_alloc (txn_init tm_create)))))))"
  have "txn_reachable s" unfolding s_def
    by (intro reach_run reach_create) (simp_all add: run_simps)
  moreover have "\<exists>conn. ts_conns s 3 = Some conn \<and> ct_isolation_level conn = RepeatableRead \<and>
      ts_conns s 1 \<noteq> None \<and> 1 \<notin> ts_finished s \<and> is_visible (fresh_header 1) (active_snapshot (ts_mgr s) conn)"
    by (simp add: s_def run_simps uses_frozen_snapshot_def active_snapshot_def is_visible_def fresh_header_def)
  ultimately show ?thesis by blast
qed

end
