(* ===== verification/Txn_Clustered_Log.thy ===== *)
theory Txn_Clustered_Log
  imports Txn_Manager
begin

text \<open>
  \<open>axiomdb-wal/src/txn_record_clustered.rs\<close>: logging of changes to clustered rows. Each function
  serialises its images, appends one record or one batch of records, moves the root of the
  table's tree and pushes the undo operations. A failed serialisation returns before anything
  is submitted, but a batch has by then reserved its sequence numbers.
\<close>

type_synonym txn_pair = "txn_mgr \<times> connection_txn"

definition set_root :: "u32 \<Rightarrow> page_id \<Rightarrow> connection_txn \<Rightarrow> connection_txn" where
  "set_root table_id root conn = conn\<lparr>ct_clustered_roots := (ct_clustered_roots conn)(table_id \<mapsto> root)\<rparr>"

primrec collect_results :: "('e + 'a) list \<Rightarrow> 'e + 'a list" where
  "collect_results [] = Inr []"
| "collect_results (r # rs) = ebind r (\<lambda>x. ebind (collect_results rs) (\<lambda>xs. Inr (x # xs)))"

definition clustered_entry ::
  "entry_type \<Rightarrow> txn_id \<Rightarrow> u32 \<Rightarrow> u8 list \<Rightarrow> (db_error + u8 list) \<Rightarrow> (db_error + u8 list) \<Rightarrow> db_error + wal_entry" where
  "clustered_entry t txn table_id key ov nv =
     ebind ov (\<lambda>o_bytes. ebind nv (\<lambda>n_bytes. Inr (dml_entry txn t table_id key o_bytes n_bytes)))"

definition log_clustered_one ::
  "(u8 list \<Rightarrow> u32) \<Rightarrow> (db_error + wal_entry) \<Rightarrow> u32 \<Rightarrow> page_id \<Rightarrow> undo_op \<Rightarrow> txn_pair \<Rightarrow> txn_pair \<times> (db_error + unit)" where
  "log_clustered_one crc entry table_id root op mc =
     (case mc of (m, conn) \<Rightarrow>
        case entry of
          Inl e \<Rightarrow> ((m, conn), Inl e)
        | Inr en \<Rightarrow> (log_one crc en [op] (set_root table_id root conn) m, Inr ()))"

definition log_clustered_batch ::
  "(u8 list \<Rightarrow> u32) \<Rightarrow> (db_error + wal_entry) list \<Rightarrow> u32 \<Rightarrow> page_id list \<Rightarrow> undo_op list \<Rightarrow> txn_pair \<Rightarrow> txn_pair \<times> (db_error + unit)" where
  "log_clustered_batch crc entries table_id roots ops mc =
     (case mc of (m, conn) \<Rightarrow>
        if entries = [] then ((m, conn), Inr ())
        else case collect_results entries of
               Inl e \<Rightarrow> ((m\<lparr>tm_wal := fst (cw_reserve_lsns (length entries) (tm_wal m))\<rparr>, conn), Inl e)
             | Inr es \<Rightarrow> (log_batch crc es ops (fold (set_root table_id) roots conn) m, Inr ()))"

subsection \<open>The recording functions\<close>

definition record_clustered_insert ::
  "(u8 list \<Rightarrow> u32) \<Rightarrow> u32 \<Rightarrow> u8 list \<Rightarrow> clustered_row_image \<Rightarrow> txn_pair \<Rightarrow> txn_pair \<times> (db_error + unit)" where
  "record_clustered_insert crc table_id key new_row mc =
     log_clustered_one crc
       (clustered_entry ClusteredInsert (ct_txn_id (snd mc)) table_id key (Inr []) (row_image_to_bytes new_row))
       table_id (ri_root_pid new_row) (UndoClusteredInsert table_id key) mc"

definition record_clustered_insert_batch ::
  "(u8 list \<Rightarrow> u32) \<Rightarrow> u32 \<Rightarrow> (u8 list \<times> clustered_row_image) list \<Rightarrow> txn_pair \<Rightarrow> txn_pair \<times> (db_error + unit)" where
  "record_clustered_insert_batch crc table_id inserts mc =
     log_clustered_batch crc
       (map (\<lambda>(key, new_row). clustered_entry ClusteredInsert (ct_txn_id (snd mc)) table_id key (Inr [])
          (row_image_to_bytes new_row)) inserts)
       table_id (map (\<lambda>(_, new_row). ri_root_pid new_row) inserts)
       (map (\<lambda>(key, _). UndoClusteredInsert table_id key) inserts) mc"

definition record_clustered_delete_mark ::
  "(u8 list \<Rightarrow> u32) \<Rightarrow> u32 \<Rightarrow> u8 list \<Rightarrow> clustered_row_image \<Rightarrow> clustered_row_image \<Rightarrow> txn_pair \<Rightarrow> txn_pair \<times> (db_error + unit)" where
  "record_clustered_delete_mark crc table_id key old_row new_row mc =
     log_clustered_one crc
       (clustered_entry ClusteredDeleteMark (ct_txn_id (snd mc)) table_id key (row_image_to_bytes old_row)
          (row_image_to_bytes new_row))
       table_id (ri_root_pid new_row) (UndoClusteredRestore table_id key old_row) mc"

definition record_clustered_field_patch_batch ::
  "(u8 list \<Rightarrow> u32) \<Rightarrow> u32 \<Rightarrow> page_id \<Rightarrow> clustered_field_patch list \<Rightarrow> txn_pair \<Rightarrow> txn_pair \<times> (db_error + unit)" where
  "record_clustered_field_patch_batch crc table_id root patches mc =
     log_clustered_batch crc
       (map (\<lambda>p. clustered_entry ClusteredFieldPatch (ct_txn_id (snd mc)) table_id (fp_key p)
          (Inr (encode_old_value p)) (Inr (encode_new_value p))) patches)
       table_id (map (\<lambda>_. root) patches)
       (map (\<lambda>p. UndoClusteredFieldPatch table_id (fp_key p) (fp_old_header p) (fp_field_deltas p)) patches) mc"

definition record_clustered_update ::
  "(u8 list \<Rightarrow> u32) \<Rightarrow> u32 \<Rightarrow> u8 list \<Rightarrow> clustered_row_image \<Rightarrow> clustered_row_image \<Rightarrow> txn_pair \<Rightarrow> txn_pair \<times> (db_error + unit)" where
  "record_clustered_update crc table_id key old_row new_row mc =
     log_clustered_one crc
       (clustered_entry ClusteredUpdate (ct_txn_id (snd mc)) table_id key (row_image_to_bytes old_row)
          (row_image_to_bytes new_row))
       table_id (ri_root_pid new_row) (UndoClusteredRestore table_id key old_row) mc"

definition record_clustered_update_batch ::
  "(u8 list \<Rightarrow> u32) \<Rightarrow> u32 \<Rightarrow> (u8 list \<times> clustered_row_image \<times> clustered_row_image) list \<Rightarrow> txn_pair \<Rightarrow> txn_pair \<times> (db_error + unit)" where
  "record_clustered_update_batch crc table_id updates mc =
     log_clustered_batch crc
       (map (\<lambda>(key, old_row, new_row). clustered_entry ClusteredUpdate (ct_txn_id (snd mc)) table_id key
          (row_image_to_bytes old_row) (row_image_to_bytes new_row)) updates)
       table_id (map (\<lambda>(_, _, new_row). ri_root_pid new_row) updates)
       (map (\<lambda>(key, old_row, _). UndoClusteredRestore table_id key old_row) updates) mc"

definition record_clustered_delete_mark_lightweight ::
  "(u8 list \<Rightarrow> u32) \<Rightarrow> u32 \<Rightarrow> page_id \<Rightarrow> u8 list list \<Rightarrow> txn_pair \<Rightarrow> txn_pair \<times> (db_error + unit)" where
  "record_clustered_delete_mark_lightweight crc table_id root pk_keys mc =
     (let txn = ct_txn_id (snd mc);
          empty_hdr = \<lparr>txn_id_created = 0, txn_id_deleted = 0, row_version = 0, row_flags = 0\<rparr>;
          del_hdr = \<lparr>txn_id_created = 0, txn_id_deleted = txn, row_version = 0, row_flags = 0\<rparr>;
          old_image = \<lparr>ri_root_pid = root, ri_row_header = empty_hdr, ri_row_data = []\<rparr>;
          new_image = \<lparr>ri_root_pid = root, ri_row_header = del_hdr, ri_row_data = []\<rparr>
      in log_clustered_batch crc
           (map (\<lambda>key. clustered_entry ClusteredDeleteMark txn table_id key (row_image_to_bytes old_image)
              (row_image_to_bytes new_image)) pk_keys)
           table_id (map (\<lambda>_. root) pk_keys) (map (UndoClusteredUndelete table_id) pk_keys) mc)"

text \<open>Unlike the other functions this one takes the root from the old image.\<close>

definition record_clustered_delete_mark_batch ::
  "(u8 list \<Rightarrow> u32) \<Rightarrow> u32 \<Rightarrow> (u8 list \<times> clustered_row_image \<times> clustered_row_image) list \<Rightarrow> txn_pair \<Rightarrow> txn_pair \<times> (db_error + unit)" where
  "record_clustered_delete_mark_batch crc table_id deletes mc =
     log_clustered_batch crc
       (map (\<lambda>(key, old_row, new_row). clustered_entry ClusteredDeleteMark (ct_txn_id (snd mc)) table_id key
          (row_image_to_bytes old_row) (row_image_to_bytes new_row)) deletes)
       table_id (map (\<lambda>(_, old_row, _). ri_root_pid old_row) deletes)
       (map (\<lambda>(key, old_row, _). UndoClusteredRestore table_id key old_row) deletes) mc"


subsection \<open>Batches and single records\<close>

text \<open>The same records logged one at a time, stopping at the first error.\<close>

primrec record_each ::
  "('a \<Rightarrow> txn_pair \<Rightarrow> txn_pair \<times> (db_error + unit)) \<Rightarrow> 'a list \<Rightarrow> txn_pair \<Rightarrow> txn_pair \<times> (db_error + unit)" where
  "record_each f [] mc = (mc, Inr ())"
| "record_each f (x # xs) mc =
     (case f x mc of (mc', r) \<Rightarrow> (case r of Inl e \<Rightarrow> (mc', Inl e) | Inr _ \<Rightarrow> record_each f xs mc'))"

text \<open>Two states of the log that differ only in how the queued bytes are cut into queue entries.\<close>

definition same_log :: "txn_mgr \<Rightarrow> txn_mgr \<Rightarrow> bool" where
  "same_log m m' \<longleftrightarrow>
     cw_next_lsn (tm_wal m) = cw_next_lsn (tm_wal m') \<and>
     cw_total_bytes (tm_wal m) = cw_total_bytes (tm_wal m') \<and>
     concat (map snd (cw_queue (tm_wal m))) = concat (map snd (cw_queue (tm_wal m'))) \<and>
     cw_flushed_lsn (tm_wal m) = cw_flushed_lsn (tm_wal m') \<and>
     cw_writer (tm_wal m) = cw_writer (tm_wal m') \<and>
     m\<lparr>tm_wal := tm_wal m'\<rparr> = m'"

lemma fold_serialize: "fold (serialize_into crc) es buf = buf @ concat (map (to_bytes crc) es)"
  by (induction es arbitrary: buf) (simp_all add: serialize_into_append)

lemma length_stamp_from [simp]: "length (stamp_from lsn es) = length es"
  by (induction es arbitrary: lsn) simp_all

lemma set_root_undo: "set_root tid r (c\<lparr>ct_undo_ops := u\<rparr>) = (set_root tid r c)\<lparr>ct_undo_ops := u\<rparr>"
  by (simp add: set_root_def)

text \<open>Single records, one after the other: the records get consecutive sequence numbers.\<close>

lemma record_each_spec:
  assumes f: "\<And>x m c. x \<in> set xs \<Longrightarrow> f x (m, c) = log_clustered_one crc (Inr (en x (ct_txn_id c))) tid (rt x) (op x) (m, c)"
  shows "\<exists>q. record_each f xs (m, c) =
      ((m\<lparr>tm_wal := (tm_wal m)\<lparr>cw_next_lsn := cw_next_lsn (tm_wal m) + word_of_nat (length xs),
          cw_queue := q, cw_total_bytes := cw_total_bytes (tm_wal m) +
            length (concat (map (to_bytes crc) (stamp_from (cw_next_lsn (tm_wal m)) (map (\<lambda>x. en x (ct_txn_id c)) xs))))\<rparr>\<rparr>,
        (fold (set_root tid) (map rt xs) c)\<lparr>ct_undo_ops := ct_undo_ops c @ map op xs\<rparr>), Inr ()) \<and>
    concat (map snd q) = concat (map snd (cw_queue (tm_wal m))) @
      concat (map (to_bytes crc) (stamp_from (cw_next_lsn (tm_wal m)) (map (\<lambda>x. en x (ct_txn_id c)) xs)))"
  using f
proof (induction xs arbitrary: m c)
  case Nil
  then show ?case by (intro exI [of _ "cw_queue (tm_wal m)"]) simp
next
  case (Cons x xs)
  let ?c1 = "(set_root tid (rt x) c)\<lparr>ct_undo_ops := ct_undo_ops c @ [op x]\<rparr>"
  let ?m1 = "m\<lparr>tm_wal := fst (cw_append crc (en x (ct_txn_id c)) (tm_wal m))\<rparr>"
  have id: "ct_txn_id ?c1 = ct_txn_id c" by (simp add: set_root_def)
  have step: "f x (m, c) = ((?m1, ?c1), Inr ())"
    by (simp add: Cons.prems log_clustered_one_def log_one_def set_root_def)
  have roots: "fold (set_root tid) rs (c\<lparr>ct_undo_ops := u\<rparr>) = (fold (set_root tid) rs c)\<lparr>ct_undo_ops := u\<rparr>" for rs u c
    by (induction rs arbitrary: c) (simp_all add: set_root_undo)
  from Cons.IH [of ?m1 ?c1] Cons.prems step show ?case
    unfolding id roots by (fastforce simp: cw_append_def cw_reserve_lsns_def queue_push_def Let_def add.assoc)
qed

lemma stamped_nonempty: "es \<noteq> [] \<Longrightarrow> concat (map (to_bytes crc) (stamp_from lsn es)) \<noteq> []"
proof (cases es)
  case (Cons e es')
  have "to_bytes crc (e\<lparr>we_lsn := lsn\<rparr>) \<noteq> []"
    using serialized_len_min [of "e\<lparr>we_lsn := lsn\<rparr>"] by (metis length_to_bytes list.size(3) not_numeral_le_zero)
  with Cons show ?thesis by simp
qed simp

lemma collect_results_Inr: "collect_results (map (\<lambda>x. Inr (g x)) xs) = Inr (map g xs)"
  by (induction xs) simp_all

lemma clustered_batch_equiv:
  assumes f: "\<And>x m c. x \<in> set xs \<Longrightarrow> f x (m, c) = log_clustered_one crc (Inr (en x (ct_txn_id c))) tid (rt x) (op x) (m, c)"
    and ent: "\<And>x. x \<in> set xs \<Longrightarrow> ent x = Inr (en x (ct_txn_id c))"
  shows "\<exists>m1 m2 c'. log_clustered_batch crc (map ent xs) tid (map rt xs) (map op xs) (m, c) = ((m1, c'), Inr ()) \<and>
    record_each f xs (m, c) = ((m2, c'), Inr ()) \<and> same_log m1 m2"
proof (cases "xs = []")
  case True
  then show ?thesis by (simp add: log_clustered_batch_def same_log_def)
next
  case False
  let ?es = "map (\<lambda>x. en x (ct_txn_id c)) xs"
  have "map ent xs = map (\<lambda>x. Inr (en x (ct_txn_id c))) xs" using ent by simp
  then have es: "collect_results (map ent xs) = Inr ?es" by (simp only: collect_results_Inr)
  have undo: "ct_undo_ops (fold (set_root tid) rs c) = ct_undo_ops c" for rs
    by (induction rs arbitrary: c) (simp_all add: set_root_def)
  from record_each_spec [of xs f crc en tid rt op m c, OF f] False es stamped_nonempty [of ?es crc "cw_next_lsn (tm_wal m)"]
  show ?thesis
    by (auto simp: log_clustered_batch_def log_batch_def cw_reserve_lsns_def cw_write_batch_def
        queue_push_def fold_serialize same_log_def undo)
qed

text \<open>C31: Logging a batch of clustered updates is the same as logging them one by one, as the code's
  documentation says: the same bytes are queued under the same sequence numbers, and the
  connection ends with the same undo list and the same tree root. The same holds for inserts.\<close>

theorem clustered_batches_are_singles:
  assumes "\<forall>(key, old_row, new_row) \<in> set updates.
      length (ri_row_data old_row) < 2 ^ 32 \<and> length (ri_row_data new_row) < 2 ^ 32"
    and "\<forall>(key, row) \<in> set inserts. length (ri_row_data row) < 2 ^ 32"
  shows "(\<exists>m1 m2 conn'. record_clustered_update_batch crc tid updates (m, conn) = ((m1, conn'), Inr ()) \<and>
      record_each (\<lambda>(key, old_row, new_row). record_clustered_update crc tid key old_row new_row) updates (m, conn)
        = ((m2, conn'), Inr ()) \<and> same_log m1 m2) \<and>
    (\<exists>m1 m2 conn'. record_clustered_insert_batch crc tid inserts (m, conn) = ((m1, conn'), Inr ()) \<and>
      record_each (\<lambda>(key, row). record_clustered_insert crc tid key row) inserts (m, conn)
        = ((m2, conn'), Inr ()) \<and> same_log m1 m2)"
proof -
  have ser: "row_image_to_bytes r = Inr (projr (row_image_to_bytes r))" if "length (ri_row_data r) < 2 ^ 32" for r
    using that by (simp add: row_image_to_bytes_def)
  have u: "clustered_entry ClusteredUpdate txn tid key (row_image_to_bytes ro) (row_image_to_bytes rn) =
      Inr (dml_entry txn ClusteredUpdate tid key (projr (row_image_to_bytes ro)) (projr (row_image_to_bytes rn)))"
    if "(key, ro, rn) \<in> set updates" for txn key ro rn
    using assms(1) that ser [of ro] ser [of rn] by (fastforce simp: clustered_entry_def ebind_def split: sum.splits)
  have i: "clustered_entry ClusteredInsert txn tid key (Inr []) (row_image_to_bytes r) =
      Inr (dml_entry txn ClusteredInsert tid key [] (projr (row_image_to_bytes r)))"
    if "(key, r) \<in> set inserts" for txn key r
    using assms(2) that ser [of r] by (fastforce simp: clustered_entry_def ebind_def split: sum.splits)
  have U: "\<exists>m1 m2 conn'. record_clustered_update_batch crc tid updates (m, conn) = ((m1, conn'), Inr ()) \<and>
      record_each (\<lambda>(key, old_row, new_row). record_clustered_update crc tid key old_row new_row) updates (m, conn)
        = ((m2, conn'), Inr ()) \<and> same_log m1 m2"
    unfolding record_clustered_update_batch_def
    by (rule clustered_batch_equiv [where en = "\<lambda>(key, o_row, n_row) txn. dml_entry txn ClusteredUpdate tid key
           (projr (row_image_to_bytes o_row)) (projr (row_image_to_bytes n_row))"])
      (auto simp: record_clustered_update_def u)
  have "\<exists>m1 m2 conn'. record_clustered_insert_batch crc tid inserts (m, conn) = ((m1, conn'), Inr ()) \<and>
      record_each (\<lambda>(key, row). record_clustered_insert crc tid key row) inserts (m, conn)
        = ((m2, conn'), Inr ()) \<and> same_log m1 m2"
    unfolding record_clustered_insert_batch_def
    by (rule clustered_batch_equiv [where en = "\<lambda>(key, row) txn. dml_entry txn ClusteredInsert tid key []
           (projr (row_image_to_bytes row))"])
      (auto simp: record_clustered_insert_def i)
  with U show ?thesis by (rule conjI)
qed

theorem clustered_batches_are_singles_witness:
  "\<exists>m1 m2 conn'.
     record_clustered_insert_batch (\<lambda>_. 0) 1 [([7], \<lparr>ri_root_pid = 5, ri_row_header = fresh_header 3, ri_row_data = [1, 2]\<rparr>)]
       (begin_with_isolation (\<lambda>_. 0) RepeatableRead tm_create) = ((m1, conn'), Inr ()) \<and>
     record_each (\<lambda>(key, row). record_clustered_insert (\<lambda>_. 0) 1 key row)
       [([7], \<lparr>ri_root_pid = 5, ri_row_header = fresh_header 3, ri_row_data = [1, 2]\<rparr>)]
       (begin_with_isolation (\<lambda>_. 0) RepeatableRead tm_create) = ((m2, conn'), Inr ()) \<and> same_log m1 m2"
  using clustered_batches_are_singles
    [of "[]" "[([7], \<lparr>ri_root_pid = 5, ri_row_header = fresh_header 3, ri_row_data = [1, 2]\<rparr>)]" "\<lambda>_. 0" 1
      "fst (begin_with_isolation (\<lambda>_. 0) RepeatableRead tm_create)"
      "snd (begin_with_isolation (\<lambda>_. 0) RepeatableRead tm_create)"] by (simp del: record_each.simps)

end
