(* ===== verification/Heap_Tuples.thy ===== *)
theory Heap_Tuples
  imports Heap_Page
begin

text \<open>
  What the heap page promises: the slots of a well-formed page own disjoint, aligned parts of
  the tuple area, every operation keeps it so, changes only the tuple it is about and can be
  undone by its inverse.
\<close>

subsection \<open>Codecs\<close>

lemma row_header_roundtrip [simp]: "row_header_of (row_header_bytes h) = h"
  by (simp add: row_header_of_def row_header_bytes_def)

lemma length_row_header_bytes [simp]: "length (row_header_bytes h) = 24"
  by (simp add: row_header_bytes_def)

lemma slot_roundtrip [simp]: "slot_of (slot_bytes e) = e"
  by (simp add: slot_of_def slot_bytes_def)

lemma length_slot_bytes [simp]: "length (slot_bytes e) = 4"
  by (simp add: slot_bytes_def)

lemma align8_ge: "n \<le> align8 n"
  unfolding align8_def by linarith

lemma align8_dvd [simp]: "8 dvd align8 n"
  by (simp add: align8_def)

lemma align8_mono: "m \<le> n \<Longrightarrow> align8 m \<le> align8 n"
  by (simp add: align8_def div_le_mono)

lemma align8_le: "8 dvd k \<Longrightarrow> n \<le> k \<Longrightarrow> align8 n \<le> k"
  unfolding align8_def by (auto elim!: dvdE)

subsection \<open>Well-formed heap pages\<close>

definition slot_nth :: "page \<Rightarrow> nat \<Rightarrow> slot_entry" where
  "slot_nth p i = slot_of (read_bytes p (64 + 4 * i) 4)"

abbreviation soff :: "page \<Rightarrow> nat \<Rightarrow> nat" where "soff p i \<equiv> unat (se_offset (slot_nth p i))"
abbreviation slen :: "page \<Rightarrow> nat \<Rightarrow> nat" where "slen p i \<equiv> unat (se_length (slot_nth p i))"
abbreviation live :: "page \<Rightarrow> nat \<Rightarrow> bool" where "live p i \<equiv> \<not> is_dead (slot_nth p i)"
abbreviation slots :: "page \<Rightarrow> nat" where "slots p \<equiv> unat (num_slots p)"

definition tuple_placed :: "page \<Rightarrow> nat \<Rightarrow> bool" where
  "tuple_placed p i \<longleftrightarrow> unat (hdr_free_end p) \<le> soff p i \<and> 8 dvd soff p i \<and> 24 \<le> slen p i \<and>
     soff p i + align8 (slen p i) \<le> PAGE_SIZE"

definition tuples_apart :: "page \<Rightarrow> nat \<Rightarrow> nat \<Rightarrow> bool" where
  "tuples_apart p i j \<longleftrightarrow>
     soff p i + align8 (slen p i) \<le> soff p j \<or> soff p j + align8 (slen p j) \<le> soff p i"

definition heap_wf :: "page \<Rightarrow> bool" where
  "heap_wf p \<longleftrightarrow>
     unat (hdr_free_start p) = 64 + 4 * slots p \<and>
     unat (hdr_free_start p) \<le> unat (hdr_free_end p) \<and>
     unat (hdr_free_end p) \<le> PAGE_SIZE \<and> 8 dvd unat (hdr_free_end p) \<and>
     (\<forall>i < slots p. live p i \<longrightarrow> tuple_placed p i) \<and>
     (\<forall>i < slots p. \<forall>j < slots p. i \<noteq> j \<longrightarrow> live p i \<longrightarrow> live p j \<longrightarrow> tuples_apart p i j)"

lemma heap_wfD:
  assumes "heap_wf p"
  shows "unat (hdr_free_start p) = 64 + 4 * slots p" "64 + 4 * slots p \<le> unat (hdr_free_end p)"
    "unat (hdr_free_end p) \<le> PAGE_SIZE" "8 dvd unat (hdr_free_end p)"
    "\<And>i. i < slots p \<Longrightarrow> live p i \<Longrightarrow> tuple_placed p i"
    "\<And>i j. i < slots p \<Longrightarrow> j < slots p \<Longrightarrow> i \<noteq> j \<Longrightarrow> live p i \<Longrightarrow> live p j \<Longrightarrow> tuples_apart p i j"
  using assms by (auto simp: heap_wf_def)

lemma read_slot_nth:
  "64 + 4 * unat i + 4 \<le> PAGE_SIZE \<Longrightarrow> read_slot p i = Inr (slot_nth p (unat i))"
  by (simp add: read_slot_def slot_abs_offset_def HEADER_SIZE_def slot_nth_def Let_def mult.commute)

lemma slot_in_page: "heap_wf p \<Longrightarrow> i < slots p \<Longrightarrow> 64 + 4 * i + 4 \<le> PAGE_SIZE"
  using heap_wfD(2,3) [of p] by linarith

lemma read_slot_wf: "heap_wf p \<Longrightarrow> i < num_slots p \<Longrightarrow> read_slot p i = Inr (slot_nth p (unat i))"
  using slot_in_page [of p "unat i"] by (intro read_slot_nth) (simp add: word_less_nat_alt)

lemma tuple_at_placed:
  assumes "tuple_placed p i"
  shows "tuple_at p (slot_nth p i) =
    Inr (row_header_of (take 24 (read_bytes p (soff p i) (slen p i))),
         drop 24 (read_bytes p (soff p i) (slen p i)))"
  using assms align8_ge [of "slen p i"]
  by (auto simp: tuple_at_def tuple_placed_def Let_def dvd_eq_mod_eq_0)

text \<open>On a well-formed page reading a slot never panics.\<close>

lemma read_tuple_wf:
  assumes "heap_wf p" "i < num_slots p"
  shows "read_tuple p i =
    (if live p (unat i)
     then Inr (Some (row_header_of (take 24 (read_bytes p (soff p (unat i)) (slen p (unat i)))),
                     drop 24 (read_bytes p (soff p (unat i)) (slen p (unat i)))))
     else Inr None)"
  using assms heap_wfD(5) [OF assms(1), of "unat i"]
  by (simp add: read_tuple_def read_slot_wf tuple_at_placed word_less_nat_alt word_le_nat_alt)

lemma read_tuple_frame:
  assumes "heap_wf p" "heap_wf p'" "i < num_slots p" "i < num_slots p'"
    "slot_nth p' (unat i) = slot_nth p (unat i)"
    "live p (unat i) \<Longrightarrow> read_bytes p' (soff p (unat i)) (slen p (unat i)) =
       read_bytes p (soff p (unat i)) (slen p (unat i))"
  shows "read_tuple p' i = read_tuple p i"
  using assms by (simp add: read_tuple_wf)

lemma page_new_wf: "heap_wf (page_new crc ty pid)"
  by (simp add: heap_wf_def page_new_hdr num_slots_def PAGE_SIZE_def)

lemma slot_nth_cong: "read_bytes p' (64 + 4 * i) 4 = read_bytes p (64 + 4 * i) 4 \<Longrightarrow> slot_nth p' i = slot_nth p i"
  by (simp add: slot_nth_def)

lemma slot_nth_write_slot:
  "slot_nth (write_slot p i e) j = (if j = unat i then e else slot_nth p j)"
proof (cases "j = unat i")
  case True
  then show ?thesis
    by (simp add: slot_nth_def write_slot_def slot_abs_offset_def HEADER_SIZE_def read_write_same mult.commute)
next
  case False
  then have "64 + 4 * j + 4 \<le> 64 + unat i * 4 \<or> 64 + unat i * 4 + 4 \<le> 64 + 4 * j" by linarith
  with False show ?thesis
    by (simp add: slot_nth_def write_slot_def slot_abs_offset_def HEADER_SIZE_def read_write_other)
qed

text \<open>Headers, slot directory and tuple area do not overlap.\<close>

lemma write_slot_hdr [simp]:
  "hdr_item_count (write_slot p i e) = hdr_item_count p"
  "hdr_page_id (write_slot p i e) = hdr_page_id p"
  "hdr_free_start (write_slot p i e) = hdr_free_start p"
  "hdr_free_end (write_slot p i e) = hdr_free_end p"
  by (simp_all add: write_slot_def slot_abs_offset_def HEADER_SIZE_def hdr_defs get_write_other)

lemma write_high_hdr:
  assumes "64 \<le> off"
  shows "hdr_item_count (write_bytes p off bs) = hdr_item_count p"
    "hdr_page_id (write_bytes p off bs) = hdr_page_id p"
    "hdr_free_start (write_bytes p off bs) = hdr_free_start p"
    "hdr_free_end (write_bytes p off bs) = hdr_free_end p"
  using assms by (simp_all add: hdr_defs get_write_other)

lemma slot_nth_write_high:
  "64 + 4 * Suc i \<le> off \<Longrightarrow> slot_nth (write_bytes p off bs) i = slot_nth p i"
  by (rule slot_nth_cong) (simp add: read_write_other)

lemma slot_nth_low [simp]:
  "off + 2 \<le> 64 \<Longrightarrow> slot_nth (put_u16 p off v) i = slot_nth p i"
  "slot_nth (update_checksum crc p) i = slot_nth p i"
  "slot_nth (clear_all_visible p) i = slot_nth p i"
  by (rule slot_nth_cong; simp add: page_simps)+

lemma read_write_slot_other:
  "64 + 4 * Suc (unat i) \<le> off \<Longrightarrow> read_bytes (write_slot p i e) off n = read_bytes p off n"
  by (simp add: write_slot_def slot_abs_offset_def HEADER_SIZE_def read_write_other)

subsection \<open>Insertion\<close>

lemma unat_word_of_nat16: "n < 65536 \<Longrightarrow> unat (word_of_nat n :: u16) = n"
  by (simp only: unat_of_nat) simp

lemma insert_tuple_fits:
  assumes "heap_wf p" "insert_tuple crc p data txn = (p', Inr slot)"
  defines "a \<equiv> align8 (24 + length data)"
  defines "nfe \<equiv> unat (hdr_free_end p) - a"
  shows "slot = num_slots p" "64 + 4 * Suc (slots p) \<le> nfe" "nfe + a = unat (hdr_free_end p)"
    "unat (hdr_free_end p - word_of_nat a) = nfe" "nfe < 65536"
    "p' = update_checksum crc
       (put_u16 (put_u16 (put_u16
         (write_slot (write_bytes (write_bytes p nfe (row_header_bytes (fresh_header txn))) (nfe + 24) data)
           slot \<lparr>se_offset = hdr_free_end p - word_of_nat a, se_length = word_of_nat (24 + length data)\<rparr>)
         10 (num_slots p + 1)) 32 (hdr_free_start p + 4)) 34 (hdr_free_end p - word_of_nat a))"
proof -
  note w = heap_wfD [OF assms(1)]
  obtain avail where avail: "free_space p = Inr avail" "4 + a \<le> avail"
    using assms(2) by (auto simp: insert_tuple_def Let_def a_def not_less split: sum.splits if_splits)
  then have "4 + a \<le> unat (hdr_free_end p) - unat (hdr_free_start p)"
    by (simp add: free_space_def split: if_splits)
  then have room: "64 + 4 * slots p + 4 + a \<le> unat (hdr_free_end p)"
    using w(1) by linarith
  show nfe: "64 + 4 * Suc (slots p) \<le> nfe" "nfe + a = unat (hdr_free_end p)" "nfe < 65536"
    using room w(3) by (simp_all add: nfe_def PAGE_SIZE_def)
  have "unat (word_of_nat a :: u16) = a"
    using room w(3) by (intro unat_word_of_nat16) (simp add: PAGE_SIZE_def)
  then show u: "unat (hdr_free_end p - word_of_nat a) = nfe"
    using room by (simp add: unat_sub word_le_nat_alt nfe_def)
  let ?q = "write_slot (write_bytes (write_bytes p nfe (row_header_bytes (fresh_header txn))) (nfe + 24) data)
     slot \<lparr>se_offset = hdr_free_end p - word_of_nat a, se_length = word_of_nat (24 + length data)\<rparr>"
  have hdr: "hdr_item_count ?q = num_slots p" "hdr_free_start (put_u16 ?q 10 v) = hdr_free_start p" for v
    using nfe(1) by (simp_all add: write_high_hdr num_slots_def)
      (simp add: hdr_free_start_def page_simps write_slot_def slot_abs_offset_def HEADER_SIZE_def)
  show slot: "slot = num_slots p"
    using assms(2) by (auto simp: insert_tuple_def Let_def num_slots_def split: sum.splits if_splits)
  show "p' = update_checksum crc
       (put_u16 (put_u16 (put_u16 ?q 10 (num_slots p + 1)) 32 (hdr_free_start p + 4)) 34
         (hdr_free_end p - word_of_nat a))"
    using assms(2) avail hdr slot u unfolding insert_tuple_def Let_def a_def [symmetric]
    by (auto simp: num_slots_def split: if_splits)
qed

text \<open>What an insertion changes: one more slot, which points to the new tuple just below the old
  tuple area; the other slots and everything above stay.\<close>

lemma insert_tuple_effect:
  assumes "heap_wf p" "insert_tuple crc p data txn = (p', Inr slot)"
  defines "a \<equiv> align8 (24 + length data)"
  defines "nfe \<equiv> unat (hdr_free_end p) - a"
  shows "slots p' = Suc (slots p)" "num_slots p' = num_slots p + 1" "hdr_page_id p' = hdr_page_id p"
    "unat (hdr_free_start p') = 64 + 4 * Suc (slots p)" "unat (hdr_free_end p') = nfe"
    "soff p' (slots p) = nfe" "slen p' (slots p) = 24 + length data"
    "\<And>j. j < slots p \<Longrightarrow> slot_nth p' j = slot_nth p j"
    "\<And>off n. unat (hdr_free_end p) \<le> off \<Longrightarrow> read_bytes p' off n = read_bytes p off n"
    "read_bytes p' nfe (24 + length data) = row_header_bytes (fresh_header txn) @ data"
proof -
  note f = insert_tuple_fits [OF assms(1,2), folded a_def nfe_def]
  let ?e = "\<lparr>se_offset = hdr_free_end p - word_of_nat a, se_length = word_of_nat (24 + length data) :: u16\<rparr>"
  let ?t = "write_bytes (write_bytes p nfe (row_header_bytes (fresh_header txn))) (nfe + 24) data"
  have len: "24 + length data \<le> a" by (simp add: a_def align8_ge)
  have fe: "unat (hdr_free_end p) \<le> 16384" using heap_wfD(3) [OF assms(1)] by (simp add: PAGE_SIZE_def)
  have n: "slots p < 4096" using heap_wfD(2,3) [OF assms(1)] by (simp add: PAGE_SIZE_def)
  have cnt: "num_slots p' = num_slots p + 1"
    by (simp add: f(6) num_slots_def) (simp add: hdr_item_count_def page_simps)
  show "num_slots p' = num_slots p + 1" by (rule cnt)
  show "slots p' = Suc (slots p)"
    unfolding cnt using n by (simp add: unat_word_ariths)
  show "hdr_page_id p' = hdr_page_id p"
    using f(2) by (simp add: f(6)) (simp add: hdr_page_id_def page_simps write_slot_def slot_abs_offset_def HEADER_SIZE_def)
  have "hdr_free_start p' = hdr_free_start p + 4"
    by (simp add: f(6)) (simp add: hdr_free_start_def page_simps)
  then show "unat (hdr_free_start p') = 64 + 4 * Suc (slots p)"
    using heap_wfD(1) [OF assms(1)] n by (simp add: unat_word_ariths)
  have "hdr_free_end p' = hdr_free_end p - word_of_nat a"
    by (simp add: f(6)) (simp add: hdr_free_end_def)
  then show "unat (hdr_free_end p') = nfe" using f(4) by simp
  have slot': "slot_nth p' j = (if j = slots p then ?e else slot_nth ?t j)" for j
    by (simp add: f(6) slot_nth_write_slot f(1))
  show "soff p' (slots p) = nfe" using f(4) by (simp add: slot')
  show "slen p' (slots p) = 24 + length data"
    using len f(3) fe by (simp add: slot' unat_word_of_nat16 del: of_nat_add)
  show "slot_nth p' j = slot_nth p j" if "j < slots p" for j
    using that f(2) by (simp add: slot' slot_nth_write_high)
  have high: "read_bytes p' off k = read_bytes ?t off k" if "64 + 4 * Suc (slots p) \<le> off" for off k
    using that by (simp add: f(6) page_simps read_write_slot_other f(1))
  show "read_bytes p' off k = read_bytes p off k" if "unat (hdr_free_end p) \<le> off" for off k
    using that f(2,3) len by (subst high) (simp_all add: read_write_other)
  show "read_bytes p' nfe (24 + length data) = row_header_bytes (fresh_header txn) @ data"
    using f(2) by (subst high) (simp_all add: read_bytes_append read_write_same read_write_other)
qed

lemma tuple_placed_cong:
  "slot_nth p' i = slot_nth p i \<Longrightarrow> unat (hdr_free_end p') \<le> unat (hdr_free_end p) \<Longrightarrow>
   tuple_placed p i \<Longrightarrow> tuple_placed p' i"
  by (simp add: tuple_placed_def)

lemma tuples_apart_cong:
  "slot_nth p' i = slot_nth p i \<Longrightarrow> slot_nth p' j = slot_nth p j \<Longrightarrow> tuples_apart p' i j = tuples_apart p i j"
  by (simp add: tuples_apart_def)

lemma tuples_apart_sym: "tuples_apart p i j = tuples_apart p j i"
  by (auto simp: tuples_apart_def)

lemma insert_tuple_wf:
  assumes "heap_wf p" "insert_tuple crc p data txn = (p', Inr slot)"
  shows "heap_wf p'"
proof -
  note w = heap_wfD [OF assms(1)]
  note e = insert_tuple_effect [OF assms]
  note f = insert_tuple_fits [OF assms]
  let ?a = "align8 (24 + length data)"
  let ?n = "slots p"
  have 8: "8 dvd unat (hdr_free_end p) - ?a" using w(4) by (intro dvd_diff_nat) auto
  have new: "tuple_placed p' ?n"
    using e(5-7) f(3) w(3) 8 by (simp add: tuple_placed_def)
  have old: "tuple_placed p' i" if "i < ?n" "live p i" for i
    using that w(5) e(5,8) by (intro tuple_placed_cong [of p' i p]) auto
  have below: "tuples_apart p' ?n i" if "i < ?n" "live p i" for i
    using w(5) [OF that] e(6,7,8) that(1) f(3) by (simp add: tuples_apart_def tuple_placed_def)
  show ?thesis
    unfolding heap_wf_def
  proof (intro conjI allI impI)
    show "unat (hdr_free_start p') = 64 + 4 * slots p'" by (simp add: e(1,4))
    show "unat (hdr_free_start p') \<le> unat (hdr_free_end p')" using f(2) by (simp add: e(4,5))
    show "unat (hdr_free_end p') \<le> PAGE_SIZE" using w(3) by (simp add: e(5))
    show "8 dvd unat (hdr_free_end p')" using 8 by (simp add: e(5))
  next
    fix i assume "i < slots p'" "live p' i"
    then show "tuple_placed p' i"
      using new old e(1,8) by (cases "i = ?n") auto
  next
    fix i j assume "i < slots p'" "j < slots p'" "i \<noteq> j" "live p' i" "live p' j"
    then show "tuples_apart p' i j"
      using below [of i] below [of j] tuples_apart_sym [of p' i j] w(6) e(1,8)
        tuples_apart_cong [of p' i p j] by (cases "i = ?n"; cases "j = ?n") auto
  qed
qed

lemma insert_tuple_spec:
  assumes "heap_wf p" "insert_tuple crc p data txn = (p', r)"
  shows "case r of
      Inl e \<Rightarrow> p' = p \<and> unat (hdr_free_end p) - unat (hdr_free_start p) < 4 + align8 (24 + length data) \<and>
        e = HeapPageFull (hdr_page_id p) (4 + align8 (24 + length data))
          (unat (hdr_free_end p) - unat (hdr_free_start p))
    | Inr slot \<Rightarrow> heap_wf p' \<and> verify_checksum crc p' = Inr () \<and> slot = num_slots p \<and>
        num_slots p' = num_slots p + 1 \<and> read_tuple p' slot = Inr (Some (fresh_header txn, data)) \<and>
        (\<forall>i < num_slots p. read_tuple p' i = read_tuple p i)"
proof (cases r)
  case (Inl e)
  let ?a = "align8 (24 + length data)"
  let ?avail = "unat (hdr_free_end p) - unat (hdr_free_start p)"
  note w = heap_wfD [OF assms(1)]
  have fs: "free_space p = Inr ?avail"
    using w(1,2) by (simp add: free_space_def word_less_nat_alt)
  have "?avail < 4 + ?a"
  proof (rule ccontr)
    assume "\<not> ?avail < 4 + ?a"
    then have room: "4 + ?a \<le> ?avail" by simp
    have le: "?a \<le> unat (hdr_free_end p)" and "?a < 65536"
      using room w(3) by (simp_all add: PAGE_SIZE_def)
    then have u: "unat (hdr_free_end p - word_of_nat ?a) = unat (hdr_free_end p) - ?a"
      by (simp add: unat_sub word_le_nat_alt unat_word_of_nat16 del: of_nat_add)
    have "unat (hdr_free_end p) - ?a + (24 + length data) \<le> PAGE_SIZE"
      using w(3) le align8_ge [of "24 + length data"] by linarith
    moreover have "slot_abs_offset (hdr_item_count p) + 4 \<le> PAGE_SIZE"
      using room w(1,2,3) by (simp add: slot_abs_offset_def HEADER_SIZE_def num_slots_def)
    ultimately show False
      using assms(2) Inl room fs u by (simp add: insert_tuple_def Let_def)
  qed
  with assms(2) Inl fs show ?thesis by (auto simp: insert_tuple_def Let_def)
next
  case (Inr slot)
  note ins = assms(2) [unfolded Inr]
  note e = insert_tuple_effect [OF assms(1) ins]
  note f = insert_tuple_fits [OF assms(1) ins]
  note wf' = insert_tuple_wf [OF assms(1) ins]
  have ver: "verify_checksum crc p' = Inr ()" by (simp add: f(6))
  have lt: "i < num_slots p'" if "i < num_slots p" for i
    using that e(1) by (simp add: word_less_nat_alt)
  have new: "slot < num_slots p'" using e(1) f(1) by (simp add: word_less_nat_alt)
  have "live p' (slots p)" using e(7) by (auto simp: is_dead_def)
  then have "read_tuple p' slot = Inr (Some (fresh_header txn, data))"
    using read_tuple_wf [OF wf' new] by (simp add: f(1) e(6,7,10))
  moreover have "read_tuple p' i = read_tuple p i" if "i < num_slots p" for i
  proof (rule read_tuple_frame [OF assms(1) wf' that lt [OF that]])
    have i: "unat i < slots p" using that by (simp add: word_less_nat_alt)
    show "slot_nth p' (unat i) = slot_nth p (unat i)" using e(8) i by simp
    show "read_bytes p' (soff p (unat i)) (slen p (unat i)) = read_bytes p (soff p (unat i)) (slen p (unat i))"
      if "live p (unat i)"
      using heap_wfD(5) [OF assms(1) i that] by (intro e(9)) (simp add: tuple_placed_def)
  qed
  ultimately show ?thesis using Inr wf' ver f(1) e(2) by simp
qed

text \<open>C17: Inserting a tuple and reading its slot gives back the data, created by the inserting
  transaction and not deleted; every other slot reads as before, the page stays well-formed and
  its checksum is valid. Insertion fails, leaving the page alone, exactly when the slot entry
  and the aligned tuple do not fit.\<close>

theorem insert_tuple_read:
  assumes "heap_wf p" "insert_tuple crc p data txn = (p', r)"
  shows "case r of
      Inl e \<Rightarrow> p' = p \<and> unat (hdr_free_end p) - unat (hdr_free_start p) < 4 + align8 (24 + length data) \<and>
        e = HeapPageFull (hdr_page_id p) (4 + align8 (24 + length data))
          (unat (hdr_free_end p) - unat (hdr_free_start p))
    | Inr slot \<Rightarrow> heap_wf p' \<and> verify_checksum crc p' = Inr () \<and> slot = num_slots p \<and>
        num_slots p' = num_slots p + 1 \<and> read_tuple p' slot = Inr (Some (fresh_header txn, data)) \<and>
        (\<forall>i < num_slots p. read_tuple p' i = read_tuple p i)"
  by (rule insert_tuple_spec [OF assms])

theorem insert_tuple_read_witness:
  "\<exists>p' slot. insert_tuple (\<lambda>_. 0) (page_new (\<lambda>_. 0) Data 42) [1, 2, 3] 9 = (p', Inr slot) \<and>
     read_tuple p' slot = Inr (Some (fresh_header 9, [1, 2, 3]))"
proof -
  obtain p' r where i: "insert_tuple (\<lambda>_. 0) (page_new (\<lambda>_. 0) Data 42) [1, 2, 3] 9 = (p', r)" by fastforce
  from insert_tuple_read [OF page_new_wf i] i show ?thesis
    by (cases r) (auto simp: page_new_hdr align8_def)
qed

lemma one_tuple_page:
  assumes "length data \<le> 1000"
  shows "\<exists>p. heap_wf p \<and> num_slots p = 1 \<and> read_tuple p 0 = Inr (Some (fresh_header txn, data)) \<and>
    1000 < unat (hdr_free_end p) - unat (hdr_free_start p)"
proof -
  let ?p = "page_new (\<lambda>_. 0) Data 42"
  obtain p' r where i: "insert_tuple (\<lambda>_. 0) ?p data txn = (p', r)" by fastforce
  have a: "align8 (24 + length data) \<le> 1024" using assms by (intro align8_le) auto
  have n: "num_slots ?p = 0" by (simp add: num_slots_def page_new_hdr)
  obtain slot where r: "r = Inr slot" using insert_tuple_spec [OF page_new_wf i] a
    by (cases r) (auto simp: page_new_hdr)
  have "1000 < unat (hdr_free_end p') - unat (hdr_free_start p')"
    using insert_tuple_effect(4,5) [OF page_new_wf i [unfolded r]] a n by (simp add: page_new_hdr)
  then show ?thesis using insert_tuple_spec [OF page_new_wf i] r n by auto
qed

end
