(* ===== verification/Heap_Update.thy ===== *)
theory Heap_Update
  imports Heap_Tuples
begin

text \<open>
  The mutations of \<open>axiomdb-storage/src/heap.rs\<close> that work inside the space of one slot: MVCC deletion and
  its undo, the in-place rewrite and the restoration of the old image, and the capacity of a
  slot they rest on.
\<close>

subsection \<open>Changes within one tuple\<close>

text \<open>The bytes \<open>[off, off + c)\<close> from the offset of slot \<open>i\<close> belong to no other live slot.\<close>

definition own_space :: "page \<Rightarrow> nat \<Rightarrow> nat \<Rightarrow> bool" where
  "own_space p i c \<longleftrightarrow> soff p i + c \<le> PAGE_SIZE \<and>
     (\<forall>j < slots p. j \<noteq> i \<longrightarrow> live p j \<longrightarrow>
        soff p j + align8 (slen p j) \<le> soff p i \<or> soff p i + c \<le> soff p j)"

text \<open>\<open>p'\<close> differs from \<open>p\<close> at most in the header flags and checksum, in the length of slot \<open>i\<close> and in
  those bytes.\<close>

definition only_tuple :: "page \<Rightarrow> page \<Rightarrow> nat \<Rightarrow> nat \<Rightarrow> bool" where
  "only_tuple p p' i c \<longleftrightarrow>
     num_slots p' = num_slots p \<and> hdr_page_id p' = hdr_page_id p \<and>
     hdr_free_start p' = hdr_free_start p \<and> hdr_free_end p' = hdr_free_end p \<and>
     se_offset (slot_nth p' i) = se_offset (slot_nth p i) \<and>
     (\<forall>j < slots p. j \<noteq> i \<longrightarrow> slot_nth p' j = slot_nth p j) \<and>
     (\<forall>off n. 64 + 4 * slots p \<le> off \<longrightarrow> off + n \<le> soff p i \<or> soff p i + c \<le> off \<longrightarrow>
        read_bytes p' off n = read_bytes p off n)"

lemma only_tuple_read:
  "only_tuple p p' i c \<Longrightarrow> 64 + 4 * slots p \<le> off \<Longrightarrow> off + n \<le> soff p i \<or> soff p i + c \<le> off \<Longrightarrow>
   read_bytes p' off n = read_bytes p off n"
  by (auto simp: only_tuple_def)

lemma own_space_self: "heap_wf p \<Longrightarrow> i < slots p \<Longrightarrow> live p i \<Longrightarrow> own_space p i (align8 (slen p i))"
  using heap_wfD(5,6) [of p] by (fastforce simp: own_space_def tuple_placed_def tuples_apart_def)

lemma only_tuple_wf:
  assumes "heap_wf p" "i < slots p" "live p i" "only_tuple p p' i c" "own_space p i c"
    "24 \<le> slen p' i" "align8 (slen p' i) \<le> c"
  shows "heap_wf p'" "\<And>j. j < num_slots p \<Longrightarrow> unat j \<noteq> i \<Longrightarrow> read_tuple p' j = read_tuple p j"
proof -
  note w = heap_wfD [OF assms(1)]
  have n: "slots p' = slots p" and other: "\<And>j. j < slots p \<Longrightarrow> j \<noteq> i \<Longrightarrow> slot_nth p' j = slot_nth p j"
    and off: "soff p' i = soff p i" and fe: "hdr_free_end p' = hdr_free_end p"
      "hdr_free_start p' = hdr_free_start p"
    using assms(4) by (auto simp: only_tuple_def)
  have here: "tuple_placed p' i"
    using w(5) [OF assms(2,3)] assms(5-7) off fe by (auto simp: tuple_placed_def own_space_def)
  have apart: "tuples_apart p' i j" if "j < slots p" "j \<noteq> i" "live p j" for j
    using assms(5,7) that other [of j] off by (auto simp: own_space_def tuples_apart_def)
  show wf': "heap_wf p'"
    unfolding heap_wf_def
  proof (intro conjI allI impI)
    fix j assume "j < slots p'" "live p' j"
    then show "tuple_placed p' j"
      using here w(5) [of j] other [of j] n fe tuple_placed_cong [of p' j p] by (cases "j = i") auto
  next
    fix j k assume "j < slots p'" "k < slots p'" "j \<noteq> k" "live p' j" "live p' k"
    then show "tuples_apart p' j k"
      using apart [of j] apart [of k] tuples_apart_sym [of p' j k] w(6) [of j k] n other
        tuples_apart_cong [of p' j p k] by (cases "j = i"; cases "k = i") auto
  qed (use w n fe in \<open>simp_all\<close>)
  show "read_tuple p' j = read_tuple p j" if j: "j < num_slots p" "unat j \<noteq> i" for j
  proof (rule read_tuple_frame [OF assms(1) wf' j(1)])
    have jn: "unat j < slots p" using j by (simp add: word_less_nat_alt)
    show "j < num_slots p'" using j(1) assms(4) by (simp add: only_tuple_def)
    show "slot_nth p' (unat j) = slot_nth p (unat j)" using other jn j(2) by simp
    show "read_bytes p' (soff p (unat j)) (slen p (unat j)) = read_bytes p (soff p (unat j)) (slen p (unat j))"
      if live: "live p (unat j)"
    proof -
      have "soff p (unat j) + slen p (unat j) \<le> soff p i \<or> soff p i + c \<le> soff p (unat j)"
        using assms(5) jn j(2) live align8_ge [of "slen p (unat j)"] by (fastforce simp: own_space_def)
      moreover have "64 + 4 * slots p \<le> soff p (unat j)"
        using w(2) w(5) [OF jn live] by (simp add: tuple_placed_def)
      ultimately show ?thesis using only_tuple_read [OF assms(4)] by simp
    qed
  qed
qed

lemma only_tuple_refl: "only_tuple p p i c"
  by (simp add: only_tuple_def)

lemma only_tuple_checksum:
  "only_tuple p p' i c \<Longrightarrow> only_tuple p (update_checksum crc p') i c"
  by (simp add: only_tuple_def num_slots_def)

lemma only_tuple_clear_flag: "only_tuple p (clear_all_visible p) i c"
  by (simp add: only_tuple_def num_slots_def)

lemma only_tuple_write:
  assumes "only_tuple p p' i c" "i < slots p" "64 + 4 * slots p \<le> soff p i"
    "soff p i \<le> off" "off + length bs \<le> soff p i + c"
  shows "only_tuple p (write_bytes p' off bs) i c"
proof -
  have h: "64 \<le> off" using assms(3,4) by linarith
  have s: "slot_nth (write_bytes p' off bs) j = slot_nth p' j" if "j < slots p" for j
  proof (rule slot_nth_write_high)
    have "4 * Suc j \<le> 4 * slots p" using that by simp
    then show "64 + 4 * Suc j \<le> off" using assms(3,4) by linarith
  qed
  have n: "num_slots (write_bytes p' off bs) = num_slots p'"
    by (simp add: num_slots_def write_high_hdr [OF h])
  have r: "read_bytes (write_bytes p' off bs) o' k = read_bytes p' o' k"
    if "o' + k \<le> soff p i \<or> soff p i + c \<le> o'" for o' k
    using that assms(4,5) by (intro read_write_other) linarith
  show ?thesis
    using assms(1,2) unfolding only_tuple_def n write_high_hdr [OF h] by (simp add: s r)
qed

lemma only_tuple_write_slot:
  assumes "only_tuple p p' (unat i) c" "se_offset e = se_offset (slot_nth p (unat i))" "i < num_slots p"
  shows "only_tuple p (write_slot p' i e) (unat i) c"
proof -
  have "4 * Suc (unat i) \<le> 4 * slots p" using assms(3) by (simp add: word_less_nat_alt Suc_le_eq)
  then have r: "read_bytes (write_slot p' i e) off k = read_bytes p' off k"
    if "64 + 4 * slots p \<le> off" for off k
    using that by (intro read_write_slot_other) linarith
  have n: "num_slots (write_slot p' i e) = num_slots p'" by (simp add: num_slots_def)
  show ?thesis
    using assms(1,2) unfolding only_tuple_def n by (simp add: slot_nth_write_slot r)
qed

subsection \<open>Deletion and its undo\<close>

lemma with_live_slot_wf:
  assumes "heap_wf p" "i < num_slots p"
  shows "with_live_slot p i k =
    (if live p (unat i) then k (slot_nth p (unat i)) else (p, Inl (already_deleted p i)))"
  using assms by (auto simp: with_live_slot_def read_slot_wf)

lemma clear_flag_wf [simp]: "heap_wf (clear_all_visible p) = heap_wf p"
  by (simp add: heap_wf_def num_slots_def tuple_placed_def tuples_apart_def)

lemma clear_flag_num [simp]: "num_slots (clear_all_visible p) = num_slots p"
  by (simp add: num_slots_def)

lemma clear_flag_read_tuple [simp]:
  assumes "heap_wf p" shows "read_tuple (clear_all_visible p) i = read_tuple p i"
proof (cases "i < num_slots p")
  case True
  then have "unat i < slots p" by (simp add: word_less_nat_alt)
  moreover have "64 \<le> soff p (unat i)" if "live p (unat i)"
    using heap_wfD(2,5) [OF assms] that \<open>unat i < slots p\<close> by (fastforce simp: tuple_placed_def)
  ultimately show ?thesis using True assms by (intro read_tuple_frame) simp_all
next
  case False
  then show ?thesis by (simp add: read_tuple_def invalid_slot_def not_less)
qed

lemma take_drop_image: "take n (drop k (read_bytes m off len)) = read_bytes m (off + k) (min n (len - k))"
  by (rule nth_equalityI) (auto simp: ac_simps)

text \<open>The transaction fields of the header of a live tuple, read where they are stored.\<close>

lemma header_fields:
  "row_header_of (read_bytes p off 24) =
     \<lparr>txn_id_created = get_u64 p off, txn_id_deleted = get_u64 p (off + 8),
      row_version = get_u32 p (off + 16), row_flags = get_u32 p (off + 20)\<rparr>"
  by (simp add: row_header_of_def get_u64_def get_u32_def take_drop_image)

text \<open>Overwriting the deleting transaction of a live tuple.\<close>

lemma put_deleted:
  fixes txn :: txn_id
  assumes "heap_wf p" "i < num_slots p" "live p (unat i)" "read_tuple p i = Inr (Some (h, d))"
  defines "p' \<equiv> put_u64 p (soff p (unat i) + 8) txn"
  shows "only_tuple p p' (unat i) (align8 (slen p (unat i)))" "heap_wf p'"
    "read_tuple p' i = Inr (Some (h\<lparr>txn_id_deleted := txn\<rparr>, d))"
    "\<And>j. j < num_slots p \<Longrightarrow> j \<noteq> i \<Longrightarrow> read_tuple p' j = read_tuple p j"
    "soff p (unat i) + 16 \<le> PAGE_SIZE" "get_u64 p (soff p (unat i) + 8) = txn_id_deleted h"
    "slot_nth p' (unat i) = slot_nth p (unat i)"
proof -
  let ?i = "unat i"
  have n: "?i < slots p" using assms(2) by (simp add: word_less_nat_alt)
  have pl: "tuple_placed p ?i" by (rule heap_wfD(5) [OF assms(1) n assms(3)])
  then have len: "24 \<le> slen p ?i" and high: "64 + 4 * slots p \<le> soff p ?i"
    and al: "slen p ?i \<le> align8 (slen p ?i)"
    using heap_wfD(2) [OF assms(1)] by (auto simp: tuple_placed_def align8_ge)
  show only: "only_tuple p p' ?i (align8 (slen p ?i))"
    unfolding p'_def put_u64_def using len al
    by (intro only_tuple_write only_tuple_refl n high) auto
  show s: "slot_nth p' ?i = slot_nth p ?i"
    unfolding p'_def put_u64_def
  proof (rule slot_nth_write_high)
    have "4 * Suc ?i \<le> 4 * slots p" using n by simp
    then show "64 + 4 * Suc ?i \<le> soff p ?i + 8" using high by linarith
  qed
  have keep: "24 \<le> slen p' ?i" "align8 (slen p' ?i) \<le> align8 (slen p ?i)" using len by (simp_all add: s)
  note tup = only_tuple_wf [OF assms(1) n assms(3) only own_space_self [OF assms(1) n assms(3)] keep]
  show wf': "heap_wf p'" by (rule tup(1))
  show "read_tuple p' j = read_tuple p j" if "j < num_slots p" "j \<noteq> i" for j
    using that by (intro tup(2)) (auto simp: unsigned_word_eqI)
  show "soff p ?i + 16 \<le> PAGE_SIZE" using pl al by (auto simp: tuple_placed_def)
  have rt: "h = row_header_of (take 24 (read_bytes p (soff p ?i) (slen p ?i)))"
      "d = drop 24 (read_bytes p (soff p ?i) (slen p ?i))"
    using read_tuple_wf [OF assms(1,2)] assms(3,4) by auto
  show "get_u64 p (soff p ?i + 8) = txn_id_deleted h" by (simp add: rt(1) header_fields len)
  have "i < num_slots p'" using assms(2) only by (simp add: only_tuple_def)
  then show "read_tuple p' i = Inr (Some (h\<lparr>txn_id_deleted := txn\<rparr>, d))"
    using assms(3) by (simp add: read_tuple_wf [OF wf'] s rt header_fields len)
      (simp add: p'_def page_simps)
qed

lemma checksum_num [simp]: "num_slots (update_checksum crc p) = num_slots p"
  by (simp add: num_slots_def)

lemma checksum_wf [simp]: "heap_wf (update_checksum crc p) = heap_wf p"
  by (simp add: heap_wf_def tuple_placed_def tuples_apart_def)

lemma checksum_read_tuple [simp]:
  assumes "heap_wf p" shows "read_tuple (update_checksum crc p) i = read_tuple p i"
proof (cases "i < num_slots p")
  case True
  then have "unat i < slots p" by (simp add: word_less_nat_alt)
  moreover have "64 \<le> soff p (unat i)" if "live p (unat i)"
    using heap_wfD(2,5) [OF assms] that \<open>unat i < slots p\<close> by (fastforce simp: tuple_placed_def)
  ultimately show ?thesis using True assms by (intro read_tuple_frame) simp_all
next
  case False
  then show ?thesis by (simp add: read_tuple_def invalid_slot_def not_less)
qed

lemma read_tuple_live:
  "heap_wf p \<Longrightarrow> read_tuple p i = Inr (Some t) \<Longrightarrow> i < num_slots p \<and> live p (unat i)"
proof (cases "i < num_slots p")
  case True
  then show "heap_wf p \<Longrightarrow> read_tuple p i = Inr (Some t) \<Longrightarrow> ?thesis"
    by (auto simp: read_tuple_wf split: if_splits)
next
  case False
  then show "heap_wf p \<Longrightarrow> read_tuple p i = Inr (Some t) \<Longrightarrow> ?thesis"
    by (simp add: read_tuple_def not_less)
qed

lemma delete_tuple_effect:
  assumes "heap_wf p" "read_tuple p i = Inr (Some (h, d))"
  shows "\<exists>p'. delete_tuple crc p i txn = (p', Inr ()) \<and> heap_wf p' \<and> verify_checksum crc p' = Inr () \<and>
    num_slots p' = num_slots p \<and> \<not> is_all_visible p' \<and>
    read_tuple p' i = Inr (Some (h\<lparr>txn_id_deleted := txn\<rparr>, d)) \<and>
    (\<forall>j. j \<noteq> i \<longrightarrow> j < num_slots p \<longrightarrow> read_tuple p' j = read_tuple p j) \<and>
    hdr_free_end p' = hdr_free_end p \<and> hdr_free_start p' = hdr_free_start p"
proof -
  let ?q = "clear_all_visible p"
  note lv = read_tuple_live [OF assms]
  have q: "heap_wf ?q" "i < num_slots ?q" "live ?q (unat i)" "read_tuple ?q i = Inr (Some (h, d))"
    using assms lv by simp_all
  note pd = put_deleted(1-4) [OF q, where txn = txn] put_deleted(5) [OF q]
  let ?p = "put_u64 ?q (soff ?q (unat i) + 8) txn"
  have "delete_tuple crc p i txn = (update_checksum crc ?p, Inr ())"
    using lv pd(5) assms(1)
    by (simp add: delete_tuple_def mark_deleted_def with_live_slot_wf [OF q(1,2)] Let_def)
  moreover have "\<not> is_all_visible ?p"
  proof -
    have "64 \<le> soff ?q (unat i)"
      using heap_wfD(2) [OF q(1)] heap_wfD(5) [OF q(1) _ q(3)] q(2)
      by (auto simp: tuple_placed_def word_less_nat_alt)
    then have "hdr_flags ?p = hdr_flags ?q" by (simp add: hdr_flags_def page_simps)
    then show ?thesis using clear_all_visible_clears [of p] by (simp add: is_all_visible_def)
  qed
  moreover have "num_slots ?p = num_slots p" "hdr_free_end ?p = hdr_free_end p" "hdr_free_start ?p = hdr_free_start p"
    using pd(1) by (simp_all add: only_tuple_def)
  ultimately show ?thesis
    using pd(2-4) assms(1) by (auto simp: is_all_visible_def)
qed

lemma clear_deletion_effect:
  assumes "heap_wf p" "read_tuple p i = Inr (Some (h, d))"
  shows "\<exists>p'. clear_deletion crc p i = (p', Inr ()) \<and> heap_wf p' \<and> num_slots p' = num_slots p \<and>
    read_tuple p' i = Inr (Some (h\<lparr>txn_id_deleted := 0\<rparr>, d)) \<and>
    (\<forall>j. j \<noteq> i \<longrightarrow> j < num_slots p \<longrightarrow> read_tuple p' j = read_tuple p j)"
proof -
  note lv = read_tuple_live [OF assms]
  note q = assms(1) lv [THEN conjunct1] lv [THEN conjunct2] assms(2)
  note pd = put_deleted(1-4) [OF q, where txn = 0] put_deleted(5,6) [OF q]
  let ?p = "put_u64 p (soff p (unat i) + 8) 0"
  have num: "num_slots ?p = num_slots p" using pd(1) by (simp add: only_tuple_def)
  have eq: "clear_deletion crc p i =
      (if txn_id_deleted h = 0 then (p, Inr ()) else (update_checksum crc ?p, Inr ()))"
    using lv pd(5,6) by (simp add: clear_deletion_def with_live_slot_wf [OF assms(1)] Let_def)
  show ?thesis
  proof (cases "txn_id_deleted h = 0")
    case True
    then have "h\<lparr>txn_id_deleted := 0\<rparr> = h" by simp
    with True eq assms show ?thesis by auto
  next
    case False
    with eq pd num show ?thesis by auto
  qed
qed

text \<open>Deleting a live tuple stamps the deleting transaction into its header and clears the
  all-visible flag of the page; its data and all other tuples are unchanged. Undoing the
  deletion of a row that was not deleted before restores every slot, and undoing it again
  changes nothing.\<close>

lemma delete_tuple_undo:
  assumes "heap_wf p" "read_tuple p i = Inr (Some (h, d))" "txn_id_deleted h = 0"
  shows "\<exists>p' p2. delete_tuple crc p i txn = (p', Inr ()) \<and> heap_wf p' \<and> verify_checksum crc p' = Inr () \<and>
    \<not> is_all_visible p' \<and> read_tuple p' i = Inr (Some (h\<lparr>txn_id_deleted := txn\<rparr>, d)) \<and>
    clear_deletion crc p' i = (p2, Inr ()) \<and> heap_wf p2 \<and> clear_deletion crc p2 i = (p2, Inr ()) \<and>
    (\<forall>j < num_slots p. (j \<noteq> i \<longrightarrow> read_tuple p' j = read_tuple p j) \<and> read_tuple p2 j = read_tuple p j)"
proof -
  from delete_tuple_effect [OF assms(1,2), of crc txn] obtain p' where p':
    "delete_tuple crc p i txn = (p', Inr ())" "heap_wf p'" "verify_checksum crc p' = Inr ()"
    "num_slots p' = num_slots p" "\<not> is_all_visible p'"
    "read_tuple p' i = Inr (Some (h\<lparr>txn_id_deleted := txn\<rparr>, d))"
    "\<And>j. j \<noteq> i \<Longrightarrow> j < num_slots p \<Longrightarrow> read_tuple p' j = read_tuple p j" by blast
  from clear_deletion_effect [OF p'(2,6), of crc] obtain p2 where p2:
    "clear_deletion crc p' i = (p2, Inr ())" "heap_wf p2"
    "read_tuple p2 i = Inr (Some (h\<lparr>txn_id_deleted := txn, txn_id_deleted := 0\<rparr>, d))"
    "\<And>j. j \<noteq> i \<Longrightarrow> j < num_slots p' \<Longrightarrow> read_tuple p2 j = read_tuple p' j" by blast
  have h: "h\<lparr>txn_id_deleted := txn, txn_id_deleted := 0\<rparr> = h" using assms(3) by simp
  then have undone: "read_tuple p2 i = Inr (Some (h, d))" using p2(3) by simp
  note lv = read_tuple_live [OF p2(2) undone]
  have "clear_deletion crc p2 i = (p2, Inr ())"
    using lv put_deleted(5,6) [OF p2(2) lv [THEN conjunct1] lv [THEN conjunct2] undone] assms(3)
    by (simp add: clear_deletion_def with_live_slot_wf [OF p2(2)] Let_def)
  moreover have "read_tuple p2 j = read_tuple p j" if "j < num_slots p" for j
    using that undone assms(2) p'(4,7) p2(4) by (cases "j = i") auto
  ultimately show ?thesis using p' p2 by blast
qed

subsection \<open>The space of a slot\<close>

lemma capacity_loop_spec:
  assumes "heap_wf p" "\<forall>j \<in> set js. j < num_slots p" "start \<le> upper"
  shows "\<exists>u. capacity_loop p i start js upper = Inr u \<and> start \<le> u \<and> u \<le> upper \<and>
    (\<forall>j \<in> set js. j \<noteq> i \<longrightarrow> live p (unat j) \<longrightarrow> soff p (unat j) \<le> start \<or> u \<le> soff p (unat j)) \<and>
    (\<forall>l \<le> upper. (\<forall>j \<in> set js. j \<noteq> i \<longrightarrow> live p (unat j) \<longrightarrow> soff p (unat j) \<le> start \<or> l \<le> soff p (unat j)) \<longrightarrow> l \<le> u)"
  using assms(2,3)
proof (induction js arbitrary: upper)
  case Nil
  then show ?case by simp
next
  case (Cons j js)
  let ?upper = "if j = i \<or> is_dead (slot_nth p (unat j)) then upper
    else if soff p (unat j) > start \<and> soff p (unat j) < upper then soff p (unat j) else upper"
  have "capacity_loop p i start (j # js) upper = capacity_loop p i start js ?upper"
    using Cons.prems(1) by (simp add: read_slot_wf [OF assms(1)] Let_def)
  moreover have "\<exists>u. capacity_loop p i start js ?upper = Inr u \<and> start \<le> u \<and> u \<le> ?upper \<and>
    (\<forall>j \<in> set js. j \<noteq> i \<longrightarrow> live p (unat j) \<longrightarrow> soff p (unat j) \<le> start \<or> u \<le> soff p (unat j)) \<and>
    (\<forall>l \<le> ?upper. (\<forall>j \<in> set js. j \<noteq> i \<longrightarrow> live p (unat j) \<longrightarrow> soff p (unat j) \<le> start \<or> l \<le> soff p (unat j)) \<longrightarrow> l \<le> u)"
    using Cons.prems by (intro Cons.IH) auto
  ultimately show ?case by (fastforce split: if_splits)
qed


lemma slot_capacity_spec:
  assumes "heap_wf p" "i < num_slots p" "live p (unat i)"
  shows "\<exists>c. slot_capacity p i = Inr c \<and> own_space p (unat i) c \<and> align8 (slen p (unat i)) \<le> c"
proof -
  let ?js = "map word_of_nat [0..<slots p] :: u16 list" and ?start = "soff p (unat i)"
  have n: "unat i < slots p" using assms(2) by (simp add: word_less_nat_alt)
  note w = heap_wfD [OF assms(1)]
  have pl: "24 \<le> slen p (unat i)" "?start + align8 (slen p (unat i)) \<le> PAGE_SIZE"
    using w(5) [OF n assms(3)] by (auto simp: tuple_placed_def)
  have inv: "unat (word_of_nat j :: u16) = j" "(word_of_nat j :: u16) < num_slots p" if "j < slots p" for j
  proof -
    show "unat (word_of_nat j :: u16) = j"
      using that unsigned_less [of "num_slots p", where ?'a = nat] by (intro unat_word_of_nat16) simp
    then show "(word_of_nat j :: u16) < num_slots p" using that by (simp add: word_less_nat_alt)
  qed
  have js: "\<forall>j \<in> set ?js. j < num_slots p" using inv(2) by auto
  from capacity_loop_spec [OF assms(1) js, of ?start PAGE_SIZE i] pl(2) obtain u where u:
    "capacity_loop p i ?start ?js PAGE_SIZE = Inr u" "?start \<le> u" "u \<le> PAGE_SIZE"
    "\<forall>j \<in> set ?js. j \<noteq> i \<longrightarrow> live p (unat j) \<longrightarrow> soff p (unat j) \<le> ?start \<or> u \<le> soff p (unat j)"
    "\<forall>l \<le> PAGE_SIZE. (\<forall>j \<in> set ?js. j \<noteq> i \<longrightarrow> live p (unat j) \<longrightarrow> soff p (unat j) \<le> ?start \<or> l \<le> soff p (unat j)) \<longrightarrow> l \<le> u"
    by auto
  have al: "align8 (slen p (unat i)) > 0" using pl(1) align8_ge [of "slen p (unat i)"] by linarith
  have cases: "soff p j + align8 (slen p j) \<le> ?start \<or> ?start + align8 (slen p (unat i)) \<le> soff p j"
    if "j < slots p" "j \<noteq> unat i" "live p j" for j
    using w(6) [OF n that(1)] that assms(3) by (auto simp: tuples_apart_def)
  have "own_space p (unat i) (u - ?start)"
    unfolding own_space_def
  proof (intro conjI allI impI)
    show "?start + (u - ?start) \<le> PAGE_SIZE" using u(2,3) by simp
    fix j assume j: "j < slots p" "j \<noteq> unat i" "live p j"
    then have "(word_of_nat j :: u16) \<in> set ?js" "(word_of_nat j :: u16) \<noteq> i" using inv(1) [of j] by auto
    then have "soff p j \<le> ?start \<or> u \<le> soff p j"
      using u(4) inv(1) [OF j(1)] j(3) by metis
    then show "soff p j + align8 (slen p j) \<le> ?start \<or> ?start + (u - ?start) \<le> soff p j"
      using cases [OF j] al u(2) by linarith
  qed
  moreover have "?start + align8 (slen p (unat i)) \<le> u"
  proof (rule u(5) [rule_format, OF pl(2)])
    fix j assume "j \<in> set ?js" "j \<noteq> i" "live p (unat j)"
    then show "soff p (unat j) \<le> ?start \<or> ?start + align8 (slen p (unat i)) \<le> soff p (unat j)"
      using cases [of "unat j"] js by (fastforce simp: word_less_nat_alt unsigned_word_eqI)
  qed
  ultimately show ?thesis
    using assms u(1,2) by (auto simp: slot_capacity_def read_slot_wf Let_def)
qed


text \<open>Writing a new tuple image into the space of a slot.\<close>

lemma put_image:
  assumes "heap_wf p" "i < num_slots p" "live p (unat i)" "own_space p (unat i) c"
    "24 \<le> length bs" "align8 (length bs) \<le> c" "only_tuple p p1 (unat i) c"
    "read_bytes p1 (soff p (unat i)) (length bs) = bs"
  defines "p' \<equiv> write_slot p1 i \<lparr>se_offset = se_offset (slot_nth p (unat i)), se_length = word_of_nat (length bs)\<rparr>"
  shows "only_tuple p p' (unat i) c" "heap_wf p'"
    "read_tuple p' i = Inr (Some (row_header_of (take 24 bs), drop 24 bs))"
    "\<And>j. j < num_slots p \<Longrightarrow> j \<noteq> i \<Longrightarrow> read_tuple p' j = read_tuple p j"
    "slot_nth p' (unat i) = \<lparr>se_offset = se_offset (slot_nth p (unat i)), se_length = word_of_nat (length bs)\<rparr>"
proof -
  have n: "unat i < slots p" using assms(2) by (simp add: word_less_nat_alt)
  have "length bs < 65536"
    using assms(4,6) align8_ge [of "length bs"] by (simp add: own_space_def PAGE_SIZE_def)
  then have len: "unat (word_of_nat (length bs) :: u16) = length bs" by (rule unat_word_of_nat16)
  show s: "slot_nth p' (unat i) = \<lparr>se_offset = se_offset (slot_nth p (unat i)), se_length = word_of_nat (length bs)\<rparr>"
    by (simp add: p'_def slot_nth_write_slot)
  show only: "only_tuple p p' (unat i) c"
    unfolding p'_def by (rule only_tuple_write_slot [OF assms(7) _ assms(2)]) simp
  have l: "slen p' (unat i) = length bs" and o: "soff p' (unat i) = soff p (unat i)" by (simp_all add: s len)
  note tup = only_tuple_wf [OF assms(1) n assms(3) only assms(4), unfolded l, OF assms(5,6)]
  show wf': "heap_wf p'" by (rule tup(1))
  show "read_tuple p' j = read_tuple p j" if "j < num_slots p" "j \<noteq> i" for j
    using that by (intro tup(2)) (auto simp: unsigned_word_eqI)
  have high: "64 + 4 * slots p \<le> soff p (unat i)"
    using heap_wfD(2) [OF assms(1)] heap_wfD(5) [OF assms(1) n assms(3)] by (simp add: tuple_placed_def)
  have "read_bytes p' (soff p (unat i)) (length bs) = bs"
  proof -
    have "4 * Suc (unat i) \<le> 4 * slots p" using n by simp
    then show ?thesis
      unfolding p'_def using high by (subst read_write_slot_other) (linarith, rule assms(8))
  qed
  moreover have "i < num_slots p'" using only assms(2) by (simp add: only_tuple_def)
  moreover have "live p' (unat i)" using l assms(5) by (auto simp: is_dead_def)
  ultimately show "read_tuple p' i = Inr (Some (row_header_of (take 24 bs), drop 24 bs))"
    using read_tuple_wf [OF wf', of i, unfolded l o] by simp
qed


lemma put_tuple_image:
  assumes "heap_wf p" "i < num_slots p" "live p (unat i)" "own_space p (unat i) c"
    "24 \<le> length bs" "align8 (length bs) \<le> c"
  shows "only_tuple p (write_bytes (write_bytes p (soff p (unat i)) bs) (soff p (unat i) + length bs)
      (replicate (c - length bs) 0)) (unat i) c" (is "only_tuple p ?p1 _ _")
    "read_bytes (write_bytes (write_bytes p (soff p (unat i)) bs) (soff p (unat i) + length bs)
      (replicate (c - length bs) 0)) (soff p (unat i)) (length bs) = bs"
proof -
  have n: "unat i < slots p" using assms(2) by (simp add: word_less_nat_alt)
  have high: "64 + 4 * slots p \<le> soff p (unat i)"
    using heap_wfD(2) [OF assms(1)] heap_wfD(5) [OF assms(1) n assms(3)] by (simp add: tuple_placed_def)
  have "length bs \<le> c" using assms(6) align8_ge [of "length bs"] by linarith
  then show "only_tuple p ?p1 (unat i) c"
    by (intro only_tuple_write only_tuple_refl n high) auto
  show "read_bytes ?p1 (soff p (unat i)) (length bs) = bs" by (simp add: mem_simps)
qed

text \<open>The capacity of a slot depends on the places of the live tuples only.\<close>

lemma capacity_loop_cong:
  assumes "heap_wf p" "heap_wf p'" "num_slots p' = num_slots p" "\<forall>j \<in> set js. j < num_slots p"
    "\<And>j. j < num_slots p \<Longrightarrow> j \<noteq> i \<Longrightarrow> slot_nth p' (unat j) = slot_nth p (unat j)"
  shows "capacity_loop p' i start js upper = capacity_loop p i start js upper"
  using assms(4)
proof (induction js arbitrary: upper)
  case (Cons j js)
  then show ?case using assms(3,5) by (simp add: read_slot_wf [OF assms(1)] read_slot_wf [OF assms(2)] Let_def)
qed simp

lemma slot_capacity_only:
  assumes "heap_wf p" "heap_wf p'" "only_tuple p p' (unat i) c" "i < num_slots p"
    "live p (unat i)" "live p' (unat i)"
  shows "slot_capacity p' i = slot_capacity p i"
proof -
  have o: "num_slots p' = num_slots p" "se_offset (slot_nth p' (unat i)) = se_offset (slot_nth p (unat i))"
    using assms(3) by (auto simp: only_tuple_def)
  have "capacity_loop p' i (soff p (unat i)) (map word_of_nat [0..<slots p]) PAGE_SIZE =
      capacity_loop p i (soff p (unat i)) (map word_of_nat [0..<slots p]) PAGE_SIZE"
  proof (rule capacity_loop_cong [OF assms(1,2) o(1)])
    have "(word_of_nat j :: u16) < num_slots p" if "j < slots p" for j
      using that unsigned_less [of "num_slots p", where ?'a = nat]
      by (simp add: word_less_nat_alt unat_word_of_nat16)
    then show "\<forall>j \<in> set (map word_of_nat [0..<slots p]). j < num_slots p" by auto
    show "slot_nth p' (unat j) = slot_nth p (unat j)" if "j < num_slots p" "j \<noteq> i" for j
      using assms(3) that by (auto simp: only_tuple_def word_less_nat_alt unsigned_word_eqI)
  qed
  then show ?thesis using assms(4-6) o assms(1,2) by (simp add: slot_capacity_def read_slot_wf Let_def not_le [symmetric])
qed


lemma write_bytes_append:
  "write_bytes (write_bytes m off as) (off + length as) bs = write_bytes m off (as @ bs)"
  by (auto simp: write_bytes_def nth_append fun_eq_iff)

subsection \<open>Rewriting a tuple in place\<close>

lemma restore_tuple_image_effect:
  assumes "heap_wf p" "i < num_slots p" "live p (unat i)" "slot_capacity p i = Inr c"
    "own_space p (unat i) c" "24 \<le> length img" "align8 (length img) \<le> c"
  shows "\<exists>p'. restore_tuple_image crc p i img = (p', Inr ()) \<and> heap_wf p' \<and> num_slots p' = num_slots p \<and>
    read_tuple p' i = Inr (Some (row_header_of (take 24 img), drop 24 img)) \<and>
    (\<forall>j < num_slots p. j \<noteq> i \<longrightarrow> read_tuple p' j = read_tuple p j)"
proof -
  note pi = put_image [OF assms(1-3,5-7) put_tuple_image [OF assms(1-3,5-7)]]
  from pi(1) have n: "num_slots (write_slot (write_bytes (write_bytes p (soff p (unat i)) img)
      (soff p (unat i) + length img) (replicate (c - length img) 0)) i
      \<lparr>se_offset = se_offset (slot_nth p (unat i)), se_length = word_of_nat (length img)\<rparr>) = num_slots p"
    by (simp add: only_tuple_def)
  show ?thesis
    using assms(2-4,7) pi(2-4) n
    by (simp add: restore_tuple_image_def restore_no_checksum_def with_live_slot_wf [OF assms(1)] Let_def)
qed

lemma rewrite_tuple_effect:
  assumes "heap_wf p" "i < num_slots p" "live p (unat i)" "slot_capacity p i = Inr c"
    "own_space p (unat i) c" "align8 (24 + length new) \<le> c" "p = clear_all_visible p0"
    "read_tuple p i = Inr (Some (h, d))"
  shows "\<exists>p'. rewrite_no_checksum p0 i new txn = (p', Inr (Some (read_bytes p (soff p (unat i)) (slen p (unat i))))) \<and>
    only_tuple p p' (unat i) c \<and> heap_wf p' \<and> live p' (unat i) \<and>
    read_tuple p' i = Inr (Some (\<lparr>txn_id_created = txn, txn_id_deleted = 0,
      row_version = saturating_succ32 (row_version h), row_flags = row_flags h\<rparr>, new)) \<and>
    (\<forall>j < num_slots p. j \<noteq> i \<longrightarrow> read_tuple p' j = read_tuple p j)"
proof -
  have n: "unat i < slots p" using assms(2) by (simp add: word_less_nat_alt)
  have pl: "24 \<le> slen p (unat i)" "soff p (unat i) + slen p (unat i) \<le> PAGE_SIZE"
    using heap_wfD(5) [OF assms(1) n assms(3)] align8_ge [of "slen p (unat i)"] by (auto simp: tuple_placed_def)
  let ?h = "\<lparr>txn_id_created = txn, txn_id_deleted = 0,
      row_version = saturating_succ32 (row_version h), row_flags = row_flags h\<rparr>"
  define bs where "bs = row_header_bytes ?h @ new"
  have bs: "length bs = 24 + length new" "24 \<le> length bs" "align8 (length bs) \<le> c"
    using assms(6) by (simp_all add: bs_def)
  note pi = put_image [OF assms(1-3,5) bs(2,3) put_tuple_image [OF assms(1-3,5) bs(2,3)]]
  have h: "h = row_header_of (read_bytes p (soff p (unat i)) 24)"
    using read_tuple_wf [OF assms(1,2)] assms(3,8) pl(1) by simp
  have w: "write_bytes (write_bytes p (soff p (unat i)) (row_header_bytes ?h)) (soff p (unat i) + 24) new =
      write_bytes p (soff p (unat i)) bs"
    using write_bytes_append [of p "soff p (unat i)" "row_header_bytes ?h" new] by (simp add: bs_def)
  let ?p' = "write_slot (write_bytes (write_bytes p (soff p (unat i)) bs) (soff p (unat i) + length bs)
      (replicate (c - length bs) 0)) i \<lparr>se_offset = se_offset (slot_nth p (unat i)), se_length = word_of_nat (length bs)\<rparr>"
  have "rewrite_no_checksum p0 i new txn = (?p', Inr (Some (read_bytes p (soff p (unat i)) (slen p (unat i)))))"
    using assms(2-4,6) pl w
    by (simp add: rewrite_no_checksum_def assms(7) [symmetric] with_live_slot_wf [OF assms(1)] Let_def h bs(1) add.assoc)
  moreover have "live ?p' (unat i)"
  proof -
    have "length bs < 65536"
      using assms(5) bs(3) align8_ge [of "length bs"] by (simp add: own_space_def PAGE_SIZE_def)
    then have "unat (word_of_nat (length bs) :: u16) = length bs" by (rule unat_word_of_nat16)
    then show ?thesis using pi(5) bs(2) by (auto simp: is_dead_def)
  qed
  ultimately show ?thesis using pi(1-4) by (simp add: bs_def)
qed


lemma rewrite_undo:
  assumes "heap_wf q" "i < num_slots q" "live q (unat i)" "only_tuple q p1 (unat i) c" "heap_wf p1"
    "live p1 (unat i)" "slot_capacity q i = Inr c" "own_space q (unat i) c" "24 \<le> length img"
    "align8 (length img) \<le> c"
  shows "\<exists>p2. restore_tuple_image crc (update_checksum crc p1) i img = (p2, Inr ()) \<and> heap_wf p2 \<and>
    read_tuple p2 i = Inr (Some (row_header_of (take 24 img), drop 24 img)) \<and>
    (\<forall>j < num_slots q. j \<noteq> i \<longrightarrow> read_tuple p2 j = read_tuple p1 j)"
proof -
  let ?p = "update_checksum crc p1"
  have wf: "heap_wf ?p" and lv: "live ?p (unat i)" using assms(5,6) by simp_all
  have only: "only_tuple q ?p (unat i) c" by (rule only_tuple_checksum [OF assms(4)])
  have num: "num_slots ?p = num_slots q" and off: "soff ?p (unat i) = soff q (unat i)"
    using only by (auto simp: only_tuple_def)
  have cap: "slot_capacity ?p i = Inr c"
    using slot_capacity_only [OF assms(1) wf only assms(2,3) lv] assms(7) by simp
  have own: "own_space ?p (unat i) c"
    using assms(8) only unfolding own_space_def num off by (auto simp: only_tuple_def)
  have i: "i < num_slots ?p" using assms(2) num by simp
  from restore_tuple_image_effect [OF wf i lv cap own assms(9,10), of crc] show ?thesis
    using num assms(5) by auto
qed

text \<open>C19: Rewriting a live tuple in place either reports that the new row does not fit into the space
  of its slot, which happens only for a longer row and changes no tuple, or it stores the new
  row under the updating transaction with the version counted up, touches no other slot, and
  returns the old image; restoring that image brings every slot back.\<close>

theorem rewrite_restore:
  assumes "heap_wf p" "read_tuple p i = Inr (Some (h, d))" "rewrite_tuple_same_slot crc p i new txn = (p', r)"
  shows "(r = Inr None \<and> length d < length new \<and> (\<forall>j. read_tuple p' j = read_tuple p j)) \<or>
    (\<exists>img p2. r = Inr (Some img) \<and> read_tuple_image p i = Inr (Some img) \<and> heap_wf p' \<and>
      verify_checksum crc p' = Inr () \<and>
      read_tuple p' i = Inr (Some (\<lparr>txn_id_created = txn, txn_id_deleted = 0,
        row_version = saturating_succ32 (row_version h), row_flags = row_flags h\<rparr>, new)) \<and>
      (\<forall>j < num_slots p. j \<noteq> i \<longrightarrow> read_tuple p' j = read_tuple p j) \<and>
      restore_tuple_image crc p' i img = (p2, Inr ()) \<and> heap_wf p2 \<and>
      (\<forall>j < num_slots p. read_tuple p2 j = read_tuple p j))"
proof -
  let ?q = "clear_all_visible p" and ?img = "read_bytes p (soff p (unat i)) (slen p (unat i))"
  note lv = read_tuple_live [OF assms(1,2)]
  have n: "unat i < slots p" using lv by (simp add: word_less_nat_alt)
  note pl = heap_wfD(5) [OF assms(1) n lv [THEN conjunct2]] heap_wfD(2) [OF assms(1)]
  have q: "heap_wf ?q" "i < num_slots ?q" "live ?q (unat i)" "read_tuple ?q i = Inr (Some (h, d))"
    and sq: "slot_nth ?q (unat i) = slot_nth p (unat i)" "num_slots ?q = num_slots p"
    using assms(1,2) lv by simp_all
  from slot_capacity_spec [OF q(1-3)] obtain c where c:
    "slot_capacity ?q i = Inr c" "own_space ?q (unat i) c" "align8 (slen p (unat i)) \<le> c" by auto
  have hd: "(h, d) = (row_header_of (take 24 ?img), drop 24 ?img)"
    using read_tuple_wf [OF assms(1), of i] assms(2) lv by simp
  have img: "read_bytes ?q (soff ?q (unat i)) (slen ?q (unat i)) = ?img"
    using pl by (simp add: tuple_placed_def)
  show ?thesis
  proof (cases "align8 (24 + length new) \<le> c")
    case False
    then have "(p', r) = (?q, Inr None)"
      using assms(3) c(1) q(2,3)
      by (simp add: rewrite_tuple_same_slot_def rewrite_no_checksum_def with_live_slot_wf [OF q(1)] Let_def)
    moreover have "length d < length new"
    proof -
      have "length d = slen p (unat i) - 24" using hd by simp
      moreover have "\<not> 24 + length new \<le> slen p (unat i)"
        using False c(3) align8_mono [of "24 + length new" "slen p (unat i)"] by linarith
      moreover have "24 \<le> slen p (unat i)" using pl(1) by (simp add: tuple_placed_def)
      ultimately show ?thesis by linarith
    qed
    ultimately show ?thesis using assms(1) by simp
  next
    case True
    from rewrite_tuple_effect [OF q(1-3) c(1,2) True refl q(4), of txn, unfolded img] obtain p1 where p1:
      "rewrite_no_checksum p i new txn = (p1, Inr (Some ?img))" "only_tuple ?q p1 (unat i) c" "heap_wf p1"
      "live p1 (unat i)" "read_tuple p1 i = Inr (Some (\<lparr>txn_id_created = txn, txn_id_deleted = 0,
        row_version = saturating_succ32 (row_version h), row_flags = row_flags h\<rparr>, new))"
      "\<And>j. j < num_slots p \<Longrightarrow> j \<noteq> i \<Longrightarrow> read_tuple p1 j = read_tuple p j"
      using assms(1) by auto
    then have r: "p' = update_checksum crc p1" "r = Inr (Some ?img)"
      using assms(3) by (simp_all add: rewrite_tuple_same_slot_def)
    have img': "read_tuple_image p i = Inr (Some ?img)"
      using pl lv align8_ge [of "slen p (unat i)"]
      by (auto simp: read_tuple_image_def read_slot_wf [OF assms(1)] tuple_placed_def Let_def not_le)
    from rewrite_undo [OF q(1-3) p1(2-4) c(1,2), of ?img crc] obtain p2 where p2:
      "restore_tuple_image crc p' i ?img = (p2, Inr ())" "heap_wf p2"
      "\<And>j. j < num_slots p \<Longrightarrow> j \<noteq> i \<Longrightarrow> read_tuple p2 j = read_tuple p1 j"
      "read_tuple p2 i = Inr (Some (row_header_of (take 24 ?img), drop 24 ?img))"
      using c(3) pl r by (auto simp: tuple_placed_def)
    have "read_tuple p2 j = read_tuple p j" if "j < num_slots p" for j
      using that p2(3,4) p1(6) assms(2) hd by (cases "j = i") auto
    with r p1 p2(1,2) img' show ?thesis by auto
  qed
qed

theorem rewrite_restore_witness:
  "\<exists>p p' p2 img. heap_wf p \<and> read_tuple p 0 = Inr (Some (fresh_header 9, [1, 2, 3])) \<and>
     rewrite_tuple_same_slot (\<lambda>_. 0) p 0 [7, 8] 12 = (p', Inr (Some img)) \<and>
     read_tuple p' 0 = Inr (Some (\<lparr>txn_id_created = 12, txn_id_deleted = 0, row_version = 1, row_flags = 0\<rparr>, [7, 8])) \<and>
     restore_tuple_image (\<lambda>_. 0) p' 0 img = (p2, Inr ()) \<and> read_tuple p2 0 = read_tuple p 0"
proof -
  obtain p where p: "heap_wf p" "num_slots p = 1" "read_tuple p 0 = Inr (Some (fresh_header 9, [1, 2, 3]))"
    using one_tuple_page [of "[1, 2, 3]" 9] by auto
  obtain p' r where r: "rewrite_tuple_same_slot (\<lambda>_. 0) p 0 [7, 8] 12 = (p', r)" by fastforce
  from rewrite_restore [OF p(1,3) r] r p show ?thesis
    by (fastforce simp: fresh_header_def saturating_succ32_def)
qed

end
