(* ===== verification/Heap_Scan.thy ===== *)
theory Heap_Scan
  imports Heap_Update
begin

text \<open>
  Scanning a heap page under a snapshot, and what an update of a row (MVCC deletion followed by
  an insertion on the same page) means for the scans of its own and of other transactions.
\<close>

subsection \<open>Scans\<close>

definition visible_entry :: "page \<Rightarrow> transaction_snapshot \<Rightarrow> u16 \<Rightarrow> (u16 \<times> u8 list) option" where
  "visible_entry p snap i =
     (case read_tuple p i of
        Inr (Some (h, d)) \<Rightarrow> if is_visible h snap then Some (i, d) else None
      | _ \<Rightarrow> None)"

abbreviation slot_ids :: "page \<Rightarrow> u16 list" where
  "slot_ids p \<equiv> map word_of_nat [0..<unat (num_slots p)]"

lemma slot_ids_lt: "i \<in> set (slot_ids p) \<Longrightarrow> i < num_slots p"
  using unsigned_less [of "num_slots p", where ?'a = nat]
  by (auto simp: word_less_nat_alt unat_word_of_nat16)

lemma scan_slots_filter:
  assumes "heap_wf p" "\<forall>i \<in> set ss. i < num_slots p"
  shows "scan_slots p snap ss = Inr (List.map_filter (visible_entry p snap) ss)"
  using assms(2)
proof (induction ss)
  case (Cons i ss)
  have u: "unat i < slots p" using Cons.prems by (simp add: word_less_nat_alt)
  have IH: "scan_slots p snap ss = Inr (List.map_filter (visible_entry p snap) ss)"
    using Cons by simp
  have at: "tuple_at p (slot_nth p (unat i)) = Inr t" if "read_tuple p i = Inr (Some t)" "live p (unat i)" for t
    using that Cons.prems by (auto simp: read_tuple_def read_slot_wf [OF assms(1)] not_le [symmetric] ebind_Inr_iff)
  obtain r where r: "read_tuple p i = Inr r" "r = None \<longleftrightarrow> is_dead (slot_nth p (unat i))"
    using read_tuple_wf [OF assms(1), of i] Cons.prems that by (cases "live p (unat i)") simp_all
  show ?case
    using Cons.prems IH at r
    by (cases r) (auto simp: read_slot_wf [OF assms(1)] visible_entry_def [of _ _ i] map_filter_simps split: prod.splits)
qed (simp add: map_filter_simps)

lemma scan_visible_filter:
  "heap_wf p \<Longrightarrow> scan_visible p snap = Inr (List.map_filter (visible_entry p snap) (slot_ids p))"
  unfolding scan_visible_def using slot_ids_lt by (intro scan_slots_filter) auto

lemma map_filter_cong:
  "(\<And>x. x \<in> set xs \<Longrightarrow> f x = g x) \<Longrightarrow> List.map_filter f xs = List.map_filter g xs"
  by (induction xs) (auto simp: map_filter_simps split: option.splits)

lemma map_filter_append: "List.map_filter f (xs @ ys) = List.map_filter f xs @ List.map_filter f ys"
  by (simp add: List.map_filter_def)

subsection \<open>Updates\<close>

lemma update_tuple_effect:
  assumes "heap_wf p" "read_tuple p i = Inr (Some (h, d))" "update_tuple crc p i new txn = (p', Inr slot)"
  shows "heap_wf p' \<and> slot = num_slots p \<and> num_slots p' = num_slots p + 1 \<and>
    read_tuple p' i = Inr (Some (h\<lparr>txn_id_deleted := txn\<rparr>, d)) \<and>
    read_tuple p' slot = Inr (Some (fresh_header txn, new)) \<and>
    (\<forall>j < num_slots p. j \<noteq> i \<longrightarrow> read_tuple p' j = read_tuple p j)"
proof -
  from delete_tuple_effect [OF assms(1,2), of crc txn] obtain q where q:
    "delete_tuple crc p i txn = (q, Inr ())" "heap_wf q" "num_slots q = num_slots p"
    "read_tuple q i = Inr (Some (h\<lparr>txn_id_deleted := txn\<rparr>, d))"
    "\<And>j. j \<noteq> i \<Longrightarrow> j < num_slots p \<Longrightarrow> read_tuple q j = read_tuple p j" by blast
  then have "insert_tuple crc q new txn = (p', Inr slot)" using assms(3) by (simp add: update_tuple_def)
  from insert_tuple_spec [OF q(2) this] q read_tuple_live [OF assms(1,2)] show ?thesis by auto
qed

lemma update_tuple_fits:
  assumes "heap_wf p" "read_tuple p i = Inr (Some (h, d))"
    "4 + align8 (24 + length new) \<le> unat (hdr_free_end p) - unat (hdr_free_start p)"
  shows "\<exists>p' slot. update_tuple crc p i new txn = (p', Inr slot)"
proof -
  from delete_tuple_effect [OF assms(1,2), of crc txn] obtain q where q:
    "delete_tuple crc p i txn = (q, Inr ())" "heap_wf q"
    "hdr_free_end q = hdr_free_end p" "hdr_free_start q = hdr_free_start p" by blast
  obtain p' r where r: "insert_tuple crc q new txn = (p', r)" by fastforce
  show ?thesis using insert_tuple_spec [OF q(2) r] r q assms(3) by (cases r) (auto simp: update_tuple_def)
qed

lemma slot_ids_snoc:
  assumes "heap_wf p" "num_slots p' = num_slots p + 1"
  shows "slot_ids p' = slot_ids p @ [num_slots p]"
proof -
  have "slots p < 16384" using heap_wfD(2,3) [OF assms(1)] by (simp add: PAGE_SIZE_def)
  then have "slots p' = Suc (slots p)" unfolding assms(2) by (simp add: unat_word_ariths)
  then show ?thesis by simp
qed

lemma map_filter_drop_one:
  assumes "\<And>x. x \<in> set xs \<Longrightarrow> x \<noteq> i \<Longrightarrow> f x = g x" "f i = None" "\<And>x y. g x = Some y \<Longrightarrow> fst y = x"
  shows "List.map_filter f xs = filter (\<lambda>y. fst y \<noteq> i) (List.map_filter g xs)"
  using assms(1)
proof (induction xs)
  case (Cons x xs)
  then show ?case using assms(2,3) by (cases "x = i"; cases "g x") (auto simp: map_filter_simps)
qed (simp add: map_filter_simps)

text \<open>C8: An update of a live row is seen by exactly those scans whose snapshot contains the updating
  transaction: their result loses the old version and gains the new one, and the page scan of
  every other snapshot is what it was before the update.\<close>

theorem update_tuple_scan:
  assumes "heap_wf p" "read_tuple p i = Inr (Some (h, d))" "txn_id_deleted h = 0" "txn \<noteq> 0"
    "update_tuple crc p i new txn = (p', Inr slot)" "scan_visible p snap = Inr rows"
  shows "scan_visible p' snap =
    (if in_snapshot snap txn then Inr (filter (\<lambda>r. fst r \<noteq> i) rows @ [(slot, new)]) else Inr rows)"
proof -
  note u = update_tuple_effect [OF assms(1,2,5)]
  let ?e = "visible_entry p snap" and ?e' = "visible_entry p' snap"
  have rows: "rows = List.map_filter ?e (slot_ids p)"
    using assms(6) scan_visible_filter [OF assms(1)] by simp
  have new: "?e' slot = (if in_snapshot snap txn then Some (slot, new) else None)"
    using u by (auto simp: visible_entry_def is_visible_in_snapshot fresh_header_def)
  have old: "?e' i = (if in_snapshot snap txn then None else ?e i)"
    using u assms(2-4) by (auto simp: visible_entry_def is_visible_in_snapshot)
  have other: "?e' j = ?e j" if "j \<in> set (slot_ids p)" "j \<noteq> i" for j
    using u that(2) slot_ids_lt [OF that(1)] by (simp add: visible_entry_def)
  have "scan_visible p' snap = Inr (List.map_filter ?e' (slot_ids p) @ List.map_filter ?e' [slot])"
    using u slot_ids_snoc [OF assms(1), of p'] by (simp only: scan_visible_filter map_filter_append)
  also have "\<dots> = (if in_snapshot snap txn then Inr (filter (\<lambda>r. fst r \<noteq> i) rows @ [(slot, new)]) else Inr rows)"
  proof (cases "in_snapshot snap txn")
    case True
    have "List.map_filter ?e' (slot_ids p) = filter (\<lambda>r. fst r \<noteq> i) (List.map_filter ?e (slot_ids p))"
      by (rule map_filter_drop_one) (use other old True in \<open>auto simp: visible_entry_def split: sum.splits option.splits if_splits\<close>)
    then show ?thesis using True new rows by (simp add: map_filter_simps)
  next
    case False
    have "List.map_filter ?e' (slot_ids p) = List.map_filter ?e (slot_ids p)"
      by (rule map_filter_cong) (metis other old False)
    then show ?thesis using False new rows by (simp add: map_filter_simps)
  qed
  finally show ?thesis .
qed

theorem update_tuple_scan_witness:
  "\<exists>p p' slot rows. read_tuple p 0 = Inr (Some (fresh_header 9, [1, 2, 3])) \<and>
     update_tuple (\<lambda>_. 0) p 0 [7, 8] 12 = (p', Inr slot) \<and>
     scan_visible p (snapshot_active 12 10) = Inr rows \<and>
     scan_visible p' (snapshot_active 12 10) = Inr (filter (\<lambda>r. fst r \<noteq> 0) rows @ [(slot, [7, 8])])"
proof -
  obtain p where p: "heap_wf p" "num_slots p = 1" "read_tuple p 0 = Inr (Some (fresh_header 9, [1, 2, 3]))"
    "unat (hdr_free_end p) - unat (hdr_free_start p) > 1000"
    using one_tuple_page [of "[1, 2, 3]" 9] by auto
  obtain p' slot where u: "update_tuple (\<lambda>_. 0) p 0 [7, 8] 12 = (p', Inr slot)"
    using update_tuple_fits [OF p(1,3), of "[7, 8]" "\<lambda>_. 0" 12] p(4) by (auto simp: align8_def)
  show ?thesis
    using update_tuple_scan [OF p(1,3) _ _ u scan_visible_filter [OF p(1)], of "snapshot_active 12 10"] p(3) u
      scan_visible_filter [OF p(1), of "snapshot_active 12 10"]
    by (auto simp: fresh_header_def in_snapshot_def snapshot_active_def)
qed

end
