(* ===== verification/Zone_Map.thy ===== *)
theory Zone_Map
  imports Heap_Scan
begin

text \<open>
  \<open>axiomdb-storage/src/zone_map.rs\<close>: the minimum and maximum of one numeric column, kept in the
  reserved bytes of a page header and used to skip pages in a scan. A 64-bit signed integer is a
  word read with \<open>sint\<close>.
\<close>

subsection \<open>Changes of the header that leave the rows alone\<close>

text \<open>The flags, the checksum and the reserved bytes may differ.\<close>

definition same_heap :: "page \<Rightarrow> page \<Rightarrow> bool" where
  "same_heap p p' \<longleftrightarrow> (\<forall>a. a < 9 \<or> 10 \<le> a \<and> a < 12 \<or> 16 \<le> a \<and> a < 36 \<or> 64 \<le> a \<longrightarrow> p' a = p a)"

lemma same_heap_refl [simp]: "same_heap p p"
  by (simp add: same_heap_def)

lemma same_heap_trans: "same_heap p q \<Longrightarrow> same_heap q r \<Longrightarrow> same_heap p r"
  by (simp add: same_heap_def)

lemma same_heap_read:
  assumes "same_heap p p'" "64 \<le> off \<or> 16 \<le> off \<and> off + n \<le> 36 \<or> 10 \<le> off \<and> off + n \<le> 12 \<or> off + n \<le> 9"
  shows "read_bytes p' off n = read_bytes p off n"
  using assms unfolding read_bytes_def same_heap_def by (auto intro!: map_cong)

lemma same_heap_hdr:
  assumes "same_heap p p'"
  shows "hdr_magic p' = hdr_magic p" "hdr_page_id p' = hdr_page_id p" "num_slots p' = num_slots p"
    "hdr_free_start p' = hdr_free_start p" "hdr_free_end p' = hdr_free_end p" "page_body p' = page_body p"
    "hdr_item_count p' = hdr_item_count p" "slot_nth p' i = slot_nth p i"
  using assms
  by (simp_all add: hdr_defs num_slots_def get_u64_def get_u16_def page_body_def HEADER_SIZE_def slot_nth_def same_heap_read)

lemma same_heap_wf: "same_heap p p' \<Longrightarrow> heap_wf p' = heap_wf p"
  by (simp add: heap_wf_def same_heap_hdr tuple_placed_def tuples_apart_def)

lemma same_heap_read_tuple:
  assumes "same_heap p p'" "heap_wf p"
  shows "read_tuple p' i = read_tuple p i"
proof (cases "i < num_slots p")
  case True
  show ?thesis
  proof (rule read_tuple_frame [OF assms(2) _ True])
    show "heap_wf p'" "i < num_slots p'" "slot_nth p' (unat i) = slot_nth p (unat i)"
      using assms True by (simp_all add: same_heap_wf same_heap_hdr)
    have i: "unat i < slots p" using True by (simp add: word_less_nat_alt)
    show "read_bytes p' (soff p (unat i)) (slen p (unat i)) = read_bytes p (soff p (unat i)) (slen p (unat i))"
      if "live p (unat i)"
      using heap_wfD(5) [OF assms(2) i that] heap_wfD(2) [OF assms(2)]
      by (intro same_heap_read [OF assms(1)]) (simp add: tuple_placed_def)
  qed
next
  case False
  then show ?thesis by (simp add: read_tuple_def invalid_slot_def same_heap_hdr [OF assms(1)] not_less)
qed

lemma same_heap_scan:
  assumes "same_heap p p'" "heap_wf p"
  shows "scan_visible p' snap = scan_visible p snap"
proof -
  have "visible_entry p' snap = visible_entry p snap"
    by (simp add: visible_entry_def fun_eq_iff same_heap_read_tuple [OF assms])
  then show ?thesis using assms(2) by (simp add: scan_visible_filter same_heap_wf [OF assms(1)] same_heap_hdr [OF assms(1)])
qed

lemma same_heap_checksum [simp]: "same_heap p (update_checksum crc p)"
  by (simp add: same_heap_def update_checksum_def page_simps)

lemma same_heap_put:
  "36 \<le> off \<Longrightarrow> off + 8 \<le> 64 \<Longrightarrow> same_heap p (put_u64 p off w)"
  "36 \<le> off \<Longrightarrow> off + 1 \<le> 64 \<Longrightarrow> same_heap p (put_u8 p off b)"
  "same_heap p (put_u8 p 9 b)"
  by (auto simp: same_heap_def page_simps)

text \<open>An insertion leaves the reserved bytes and the magic number alone.\<close>

lemma insert_tuple_reserved:
  assumes "heap_wf p" "insert_tuple crc p data txn = (p', Inr slot)" "a < 10 \<or> 36 \<le> a \<and> a < 64"
  shows "p' a = p a"
proof -
  note f = insert_tuple_fits [OF assms(1,2)]
  let ?nfe = "unat (hdr_free_end p) - align8 (24 + length data)"
  have low: "write_bytes m off bs a = m a" if "64 \<le> off" for m off bs
    using assms(3) that by (intro write_bytes_outside) auto
  have "64 \<le> ?nfe" "64 \<le> ?nfe + 24" "64 \<le> slot_abs_offset slot" using f(2) by (simp_all add: slot_abs_offset_def HEADER_SIZE_def)
  with assms(3) show ?thesis
    unfolding f(6) update_checksum_def write_slot_def by (elim disjE) (simp_all add: byte_put_other low)
qed

subsection \<open>The zone map\<close>

type_synonym i64 = "64 word"

record zone_map =
  zm_col_idx :: u8
  zm_min_val :: i64
  zm_max_val :: i64

datatype zone_map_predicate = ZEq i64 | ZGt i64 | ZGtEq i64 | ZLt i64 | ZLtEq i64 | ZBetween i64 i64

definition ZM_VERSION_OFFSET :: nat where "ZM_VERSION_OFFSET = 36 + 8"
definition ZM_COL_OFFSET :: nat where "ZM_COL_OFFSET = 36 + 9"
definition ZM_MIN_OFFSET :: nat where "ZM_MIN_OFFSET = 36 + 10"
definition ZM_MAX_OFFSET :: nat where "ZM_MAX_OFFSET = 36 + 18"
definition ZM_VERSION_1 :: u8 where "ZM_VERSION_1 = 1"

lemmas zm_offsets = ZM_VERSION_OFFSET_def ZM_COL_OFFSET_def ZM_MIN_OFFSET_def ZM_MAX_OFFSET_def

definition read_zone_map :: "page \<Rightarrow> zone_map option" where
  "read_zone_map p =
     (if p ZM_VERSION_OFFSET \<noteq> ZM_VERSION_1 then None
      else Some \<lparr>zm_col_idx = p ZM_COL_OFFSET, zm_min_val = get_u64 p ZM_MIN_OFFSET, zm_max_val = get_u64 p ZM_MAX_OFFSET\<rparr>)"

definition write_zone_map :: "page \<Rightarrow> zone_map \<Rightarrow> page" where
  "write_zone_map p zm =
     put_u64 (put_u64 (put_u8 (put_u8 p ZM_VERSION_OFFSET ZM_VERSION_1) ZM_COL_OFFSET (zm_col_idx zm))
       ZM_MIN_OFFSET (zm_min_val zm)) ZM_MAX_OFFSET (zm_max_val zm)"

definition clear_zone_map :: "page \<Rightarrow> page" where
  "clear_zone_map p = put_u8 p ZM_VERSION_OFFSET 0"

definition I64_MIN :: i64 where "I64_MIN = 0x8000000000000000"
definition I64_MAX :: i64 where "I64_MAX = 0x7FFFFFFFFFFFFFFF"

definition update_zone_map :: "page \<Rightarrow> u8 \<Rightarrow> i64 \<Rightarrow> page" where
  "update_zone_map p col_idx val =
     (let existing_slots = num_slots p in
      if p ZM_VERSION_OFFSET \<noteq> ZM_VERSION_1 \<or> p ZM_COL_OFFSET \<noteq> col_idx then
        let p1 = put_u8 (put_u8 p ZM_VERSION_OFFSET ZM_VERSION_1) ZM_COL_OFFSET col_idx in
        if existing_slots > 1 then put_u64 (put_u64 p1 ZM_MIN_OFFSET I64_MIN) ZM_MAX_OFFSET I64_MAX
        else put_u64 (put_u64 p1 ZM_MIN_OFFSET val) ZM_MAX_OFFSET val
      else
        let cur_min = get_u64 p ZM_MIN_OFFSET; cur_max = get_u64 p ZM_MAX_OFFSET;
            p1 = (if sint val < sint cur_min then put_u64 p ZM_MIN_OFFSET val else p)
        in if sint val > sint cur_max then put_u64 p1 ZM_MAX_OFFSET val else p1)"

primrec zone_map_might_match :: "zone_map \<Rightarrow> zone_map_predicate \<Rightarrow> bool" where
  "zone_map_might_match zm (ZEq v) \<longleftrightarrow> sint (zm_min_val zm) \<le> sint v \<and> sint v \<le> sint (zm_max_val zm)"
| "zone_map_might_match zm (ZGt v) \<longleftrightarrow> sint (zm_max_val zm) > sint v"
| "zone_map_might_match zm (ZGtEq v) \<longleftrightarrow> sint (zm_max_val zm) \<ge> sint v"
| "zone_map_might_match zm (ZLt v) \<longleftrightarrow> sint (zm_min_val zm) < sint v"
| "zone_map_might_match zm (ZLtEq v) \<longleftrightarrow> sint (zm_min_val zm) \<le> sint v"
| "zone_map_might_match zm (ZBetween lo hi) \<longleftrightarrow> sint (zm_min_val zm) \<le> sint hi \<and> sint (zm_max_val zm) \<ge> sint lo"

text \<open>The test of the scan: the page is skipped.\<close>

definition zone_skip :: "u8 \<Rightarrow> zone_map_predicate \<Rightarrow> page \<Rightarrow> bool" where
  "zone_skip pred_col zmp p =
     (case read_zone_map p of
        Some zm \<Rightarrow> zm_col_idx zm = pred_col \<and> \<not> zone_map_might_match zm zmp
      | None \<Rightarrow> False)"

subsection \<open>Soundness of skipping\<close>

text \<open>What a predicate means for a value.\<close>

primrec satisfies :: "zone_map_predicate \<Rightarrow> i64 \<Rightarrow> bool" where
  "satisfies (ZEq v) x \<longleftrightarrow> sint x = sint v"
| "satisfies (ZGt v) x \<longleftrightarrow> sint x > sint v"
| "satisfies (ZGtEq v) x \<longleftrightarrow> sint x \<ge> sint v"
| "satisfies (ZLt v) x \<longleftrightarrow> sint x < sint v"
| "satisfies (ZLtEq v) x \<longleftrightarrow> sint x \<le> sint v"
| "satisfies (ZBetween lo hi) x \<longleftrightarrow> sint lo \<le> sint x \<and> sint x \<le> sint hi"

text \<open>The zone map of the page, if it is for column \<open>col\<close>, covers the values \<open>vals\<close>.\<close>

definition zm_covers :: "u8 \<Rightarrow> page \<Rightarrow> i64 set \<Rightarrow> bool" where
  "zm_covers col p vals \<longleftrightarrow>
     (\<forall>zm v. read_zone_map p = Some zm \<longrightarrow> zm_col_idx zm = col \<longrightarrow> v \<in> vals \<longrightarrow>
        sint (zm_min_val zm) \<le> sint v \<and> sint v \<le> sint (zm_max_val zm))"

lemma zone_skip_sound: "zm_covers col p vals \<Longrightarrow> zone_skip col zmp p \<Longrightarrow> v \<in> vals \<Longrightarrow> \<not> satisfies zmp v"
  by (cases zmp) (auto simp: zone_skip_def zm_covers_def split: option.splits)

lemma zone_map_roundtrip: "read_zone_map (write_zone_map p zm) = Some zm"
  by (simp add: read_zone_map_def write_zone_map_def zm_offsets page_simps)

lemma sint_i64_range: "sint I64_MIN \<le> sint (v :: i64)" "sint (v :: i64) \<le> sint I64_MAX"
  using sint_greater_eq [of v] sint_less [of v] by (simp_all add: I64_MIN_def I64_MAX_def)

lemma update_zone_map_same: "same_heap p (update_zone_map p col v)"
  unfolding same_heap_def by (auto simp: update_zone_map_def zm_offsets Let_def byte_put_other)

lemma read_updated_zone_map:
  "read_zone_map (update_zone_map p col v) = Some
     (case read_zone_map p of
        Some zm \<Rightarrow>
          if zm_col_idx zm = col
          then zm\<lparr>zm_min_val := (if sint v < sint (zm_min_val zm) then v else zm_min_val zm),
                  zm_max_val := (if sint v > sint (zm_max_val zm) then v else zm_max_val zm)\<rparr>
          else if num_slots p > 1 then \<lparr>zm_col_idx = col, zm_min_val = I64_MIN, zm_max_val = I64_MAX\<rparr>
          else \<lparr>zm_col_idx = col, zm_min_val = v, zm_max_val = v\<rparr>
      | None \<Rightarrow>
          if num_slots p > 1 then \<lparr>zm_col_idx = col, zm_min_val = I64_MIN, zm_max_val = I64_MAX\<rparr>
          else \<lparr>zm_col_idx = col, zm_min_val = v, zm_max_val = v\<rparr>)"
  by (auto simp: read_zone_map_def update_zone_map_def zm_offsets Let_def page_simps)

lemma update_zone_map_covers:
  assumes "zm_covers col p vals" "num_slots p \<le> 1 \<longrightarrow> vals = {}"
  shows "zm_covers col (update_zone_map p col v) (insert v vals)"
  unfolding zm_covers_def
proof (intro allI impI)
  fix zm w
  assume zm: "read_zone_map (update_zone_map p col v) = Some zm" "zm_col_idx zm = col" "w \<in> insert v vals"
  have old: "w \<noteq> v \<Longrightarrow> read_zone_map p = Some z \<Longrightarrow> zm_col_idx z = col \<Longrightarrow>
      sint (zm_min_val z) \<le> sint w \<and> sint w \<le> sint (zm_max_val z)" for z
    using assms(1) zm(3) by (auto simp: zm_covers_def)
  have few: "w \<noteq> v \<Longrightarrow> num_slots p > 1" using assms(2) zm(3) by (auto simp: not_le)
  show "sint (zm_min_val zm) \<le> sint w \<and> sint w \<le> sint (zm_max_val zm)"
    using zm(1) old few sint_i64_range [of w] unfolding read_updated_zone_map
    by (cases "w = v"; cases "read_zone_map p") (auto split: if_splits)
qed

text \<open>C18: Skipping a page by its zone map is safe as long as every row is inserted together with its
  value: if the map covers the values of the rows on the page, then after inserting a row and
  updating the map with its value it covers the new value too, no row that satisfies a predicate
  is on a page that the predicate skips, and updating the map changes no row.\<close>

theorem zone_map_safe:
  assumes "heap_wf p" "zm_covers col p vals" "num_slots p = 0 \<longrightarrow> vals = {}"
    "insert_tuple crc p data txn = (p1, Inr slot)" "p' = update_zone_map p1 col v"
  shows "zm_covers col p' (insert v vals) \<and> heap_wf p' \<and>
    (zone_skip col zmp p' \<longrightarrow> (\<forall>w \<in> insert v vals. \<not> satisfies zmp w)) \<and>
    scan_visible p' snap = scan_visible p1 snap"
proof -
  have ins: "num_slots p1 = num_slots p + 1" "heap_wf p1"
    using insert_tuple_spec [OF assms(1,4)] by simp_all
  have n: "slots p1 = Suc (slots p)" by (rule insert_tuple_effect(1) [OF assms(1,4)])
  have "read_zone_map p1 = read_zone_map p"
    using insert_tuple_reserved [OF assms(1,4)]
    by (simp add: read_zone_map_def zm_offsets get_u64_def read_bytes_def)
  then have "zm_covers col p1 vals" using assms(2) by (simp add: zm_covers_def)
  moreover have "num_slots p1 \<le> 1 \<longrightarrow> vals = {}"
    using assms(3) n by (auto simp: word_le_nat_alt word_unat_eq_iff)
  ultimately have cov: "zm_covers col p' (insert v vals)" unfolding assms(5) by (rule update_zone_map_covers)
  moreover have "same_heap p1 p'" unfolding assms(5) by (rule update_zone_map_same)
  ultimately show ?thesis
    using zone_skip_sound [OF cov] ins(2) by (auto simp: same_heap_wf same_heap_scan)
qed

theorem zone_map_safe_witness:
  "\<exists>p1. insert_tuple (\<lambda>_. 0) (page_new (\<lambda>_. 0) Data 7) [1] 3 = (p1, Inr 0) \<and>
     zm_covers 0 (update_zone_map p1 0 50) {50} \<and> zone_skip 0 (ZGt 90) (update_zone_map p1 0 50)"
proof -
  let ?p = "page_new (\<lambda>_. 0) Data 7"
  have z: "?p ZM_VERSION_OFFSET = 0"
    by (simp add: page_new_def Let_def update_checksum_def zm_offsets byte_put_other write_bytes_def)
  have cov: "zm_covers 0 ?p {}" by (simp add: zm_covers_def)
  obtain p1 r where i: "insert_tuple (\<lambda>_. 0) ?p [1] 3 = (p1, r)" by fastforce
  have n: "num_slots ?p = 0" by (simp add: num_slots_def page_new_hdr)
  have r: "r = Inr 0" using insert_tuple_spec [OF page_new_wf i] n by (cases r) (auto simp: page_new_hdr align8_def)
  note i = i [unfolded r]
  have "p1 ZM_VERSION_OFFSET = 0" using insert_tuple_reserved [OF page_new_wf i, of ZM_VERSION_OFFSET] z by (simp add: zm_offsets)
  then have "zone_skip 0 (ZGt 90) (update_zone_map p1 0 50)"
    using insert_tuple_spec [OF page_new_wf i] n
    unfolding zone_skip_def read_updated_zone_map by (simp add: read_zone_map_def ZM_VERSION_1_def)
  then show ?thesis using zone_map_safe [OF page_new_wf cov _ i refl, of 50] i by auto
qed

end
