(* ===== verification/Heap_Chain.thy ===== *)
theory Heap_Chain
  imports Zone_Map Page_Batch "HOL-Library.Monad_Syntax" "HOL-Library.Product_Lexorder"
begin

text \<open>
  \<open>axiomdb-storage/src/heap_chain*.rs\<close>: a heap of several pages linked by the first reserved bytes of
  their headers. Walks along the links are \<open>partial_function\<close>s, undefined (\<open>None\<close>) on a cycle. An
  insertion is composed of the sections in which the source holds a page latch. Sorting is
  stable where the source sorts unstably, which differs only for repeated row ids.
\<close>

subsection \<open>Links\<close>

definition chain_next_page :: "page \<Rightarrow> page_id" where
  "chain_next_page p = get_u64 p 36"

definition chain_set_next_page :: "page \<Rightarrow> page_id \<Rightarrow> page" where
  "chain_set_next_page p next = put_u64 p 36 next"

text \<open>\<open>Page::from_bytes(*storage.read_page(id)?.as_bytes())?\<close>\<close>

definition load_page :: "checksum \<Rightarrow> mem_storage \<Rightarrow> page_id \<Rightarrow> db_error + page" where
  "load_page crc st pid = ebind (mem_read_page st pid) (page_from_bytes crc)"

partial_function (option) last_page_id :: "mem_storage \<Rightarrow> page_id \<Rightarrow> (db_error + page_id) option" where
  "last_page_id st cur =
     (case mem_read_page st cur of
        Inl e \<Rightarrow> Some (Inl e)
      | Inr p \<Rightarrow> if chain_next_page p = 0 then Some (Inr cur) else last_page_id st (chain_next_page p))"

subsection \<open>Insertion\<close>

text \<open>Under the latch of the last page: insert if it fits; \<open>None\<close> means that the page is full.\<close>

definition insert_in_tail ::
  "checksum \<Rightarrow> page_id \<Rightarrow> u8 list \<Rightarrow> txn_id \<Rightarrow> mem_storage \<Rightarrow> mem_storage \<times> (db_error + u16 option)" where
  "insert_in_tail crc pid data txn st =
     (case load_page crc st pid of
        Inl e \<Rightarrow> (st, Inl e)
      | Inr page \<Rightarrow>
          (case insert_tuple crc page data txn of
             (page', Inr slot) \<Rightarrow>
               (case mem_write_page crc pid (update_checksum crc page') st of
                  Inl e \<Rightarrow> (st, Inl e)
                | Inr st' \<Rightarrow> (st', Inr (Some slot)))
           | (_, Inl e) \<Rightarrow>
               (case e of HeapPageFull _ _ _ \<Rightarrow> (st, Inr None) | _ \<Rightarrow> (st, Inl e))))"

text \<open>A new page with the row, written before it is linked.\<close>

definition write_new_tail ::
  "checksum \<Rightarrow> nat \<Rightarrow> u8 list \<Rightarrow> txn_id \<Rightarrow> local_page_batch option \<Rightarrow> mem_storage \<Rightarrow>
   local_page_batch option \<times> mem_storage \<times> (db_error + page_id \<times> u16)" where
  "write_new_tail crc waiters data txn batch st =
     (case batch_alloc_page crc waiters Data batch st of
        (batch, st, Inl e) \<Rightarrow> (batch, st, Inl e)
      | (batch, st, Inr new_id) \<Rightarrow>
          (case insert_tuple crc (page_new crc Data new_id) data txn of
             (_, Inl e) \<Rightarrow> (batch, st, Inl e)
           | (page', Inr slot) \<Rightarrow>
               (case mem_write_page crc new_id (update_checksum crc page') st of
                  Inl e \<Rightarrow> (batch, st, Inl e)
                | Inr st \<Rightarrow> (batch, st, Inr (new_id, slot)))))"

text \<open>Under the latch of the old last page, taken again: overwrite its link.\<close>

definition link_tail :: "checksum \<Rightarrow> page_id \<Rightarrow> page_id \<Rightarrow> mem_storage \<Rightarrow> db_error + mem_storage" where
  "link_tail crc last_id new_id st =
     ebind (load_page crc st last_id) (\<lambda>prev.
       mem_write_page crc last_id (update_checksum crc (chain_set_next_page prev new_id)) st)"

definition insert_at ::
  "checksum \<Rightarrow> nat \<Rightarrow> page_id \<Rightarrow> u8 list \<Rightarrow> txn_id \<Rightarrow> local_page_batch option \<Rightarrow> mem_storage \<Rightarrow>
   local_page_batch option \<times> mem_storage \<times> (db_error + page_id \<times> u16)" where
  "insert_at crc waiters last_id data txn batch st =
     (case insert_in_tail crc last_id data txn st of
        (st, Inl e) \<Rightarrow> (batch, st, Inl e)
      | (st, Inr (Some slot)) \<Rightarrow> (batch, st, Inr (last_id, slot))
      | (st, Inr None) \<Rightarrow>
          (case write_new_tail crc waiters data txn batch st of
             (batch, st, Inl e) \<Rightarrow> (batch, st, Inl e)
           | (batch, st, Inr (new_id, slot)) \<Rightarrow>
               (case link_tail crc last_id new_id st of
                  Inl e \<Rightarrow> (batch, st, Inl e)
                | Inr st \<Rightarrow> (batch, st, Inr (new_id, slot)))))"

definition chain_insert ::
  "checksum \<Rightarrow> nat \<Rightarrow> page_id \<Rightarrow> u8 list \<Rightarrow> txn_id \<Rightarrow> local_page_batch option \<Rightarrow> mem_storage \<Rightarrow>
   (local_page_batch option \<times> mem_storage \<times> (db_error + page_id \<times> u16)) option" where
  "chain_insert crc waiters root data txn batch st =
     last_page_id st root \<bind> (\<lambda>r. case r of
         Inl e \<Rightarrow> Some (batch, st, Inl e)
       | Inr last_id \<Rightarrow> Some (insert_at crc waiters last_id data txn batch st))"

record heap_append_hint =
  hint_root :: page_id
  hint_tail :: page_id

definition resolve_tail_with_hint ::
  "page_id \<Rightarrow> heap_append_hint option \<Rightarrow> mem_storage \<Rightarrow> (heap_append_hint option \<times> (db_error + page_id)) option" where
  "resolve_tail_with_hint root hint st =
     (case hint of
        None \<Rightarrow> last_page_id st root \<bind> (\<lambda>r. Some (None, r))
      | Some h \<Rightarrow>
          let valid = (case mem_read_page st (hint_tail h) of Inr p \<Rightarrow> chain_next_page p = 0 | Inl _ \<Rightarrow> False) in
          if hint_root h = root \<and> valid then Some (Some h, Inr (hint_tail h))
          else last_page_id st root \<bind> (\<lambda>r. case r of
                 Inl e \<Rightarrow> Some (Some h, Inl e)
               | Inr t \<Rightarrow> Some (Some \<lparr>hint_root = root, hint_tail = t\<rparr>, Inr t)))"

definition insert_with_hint ::
  "checksum \<Rightarrow> nat \<Rightarrow> page_id \<Rightarrow> u8 list \<Rightarrow> txn_id \<Rightarrow> heap_append_hint option \<Rightarrow> local_page_batch option \<Rightarrow> mem_storage \<Rightarrow>
   (heap_append_hint option \<times> local_page_batch option \<times> mem_storage \<times> (db_error + page_id \<times> u16)) option" where
  "insert_with_hint crc waiters root data txn hint batch st =
     resolve_tail_with_hint root hint st \<bind> (\<lambda>(hint, r). case r of
         Inl e \<Rightarrow> Some (hint, batch, st, Inl e)
       | Inr last_id \<Rightarrow>
           (case insert_at crc waiters last_id data txn batch st of
              (batch, st, Inl e) \<Rightarrow> Some (hint, batch, st, Inl e)
            | (batch, st, Inr (pid, slot)) \<Rightarrow>
                Some (if pid = last_id then hint else map_option (\<lambda>_. \<lparr>hint_root = root, hint_tail = pid\<rparr>) hint,
                  batch, st, Inr (pid, slot))))"

subsection \<open>Deletion and lookup\<close>

definition chain_delete :: "checksum \<Rightarrow> page_id \<Rightarrow> u16 \<Rightarrow> txn_id \<Rightarrow> mem_storage \<Rightarrow> db_error + mem_storage" where
  "chain_delete crc pid slot txn st =
     ebind (load_page crc st pid) (\<lambda>page.
       case delete_tuple crc page slot txn of
         (_, Inl e) \<Rightarrow> Inl e
       | (page', Inr _) \<Rightarrow> mem_write_page crc pid (update_checksum crc page') st)"

definition read_row :: "checksum \<Rightarrow> mem_storage \<Rightarrow> page_id \<Rightarrow> u16 \<Rightarrow> db_error + u8 list option" where
  "read_row crc st pid slot =
     ebind (load_page crc st pid) (\<lambda>page.
       ebind (read_tuple page slot) (\<lambda>t. Inr (map_option snd t)))"

definition is_slot_visible :: "checksum \<Rightarrow> mem_storage \<Rightarrow> page_id \<Rightarrow> u16 \<Rightarrow> transaction_snapshot \<Rightarrow> db_error + bool" where
  "is_slot_visible crc st pid slot snap =
     ebind (load_page crc st pid) (\<lambda>page.
       ebind (read_tuple page slot) (\<lambda>t. case t of None \<Rightarrow> Inr False | Some (h, _) \<Rightarrow> Inr (is_visible h snap)))"

text \<open>All slots of one page in a batch deletion.\<close>

primrec delete_run ::
  "txn_id \<Rightarrow> page \<Rightarrow> (page_id \<times> u16) list \<Rightarrow> (page_id \<times> u16 \<times> u8 list) list \<Rightarrow>
   db_error + page \<times> (page_id \<times> u16 \<times> u8 list) list" where
  "delete_run txn page [] out = Inr (page, out)"
| "delete_run txn page (r # rs) out =
     ebind (read_tuple page (snd r)) (\<lambda>t. case t of
         None \<Rightarrow> Inl (AlreadyDeleted (fst r) (snd r))
       | Some (_, data) \<Rightarrow>
           (case mark_deleted page (snd r) txn of
              (_, Inl e) \<Rightarrow> Inl e
            | (page', Inr _) \<Rightarrow> delete_run txn page' rs (out @ [(fst r, snd r, data)])))"

function delete_pages ::
  "checksum \<Rightarrow> txn_id \<Rightarrow> (page_id \<times> u16) list \<Rightarrow> (page_id \<times> u16 \<times> u8 list) list \<Rightarrow> mem_storage \<Rightarrow>
   mem_storage \<times> (db_error + (page_id \<times> u16 \<times> u8 list) list)" where
  "delete_pages crc txn [] out st = (st, Inr out)"
| "delete_pages crc txn ((pid, slot) # rs) out st =
     (case load_page crc st pid of
        Inl e \<Rightarrow> (st, Inl e)
      | Inr page \<Rightarrow>
          (case delete_run txn page ((pid, slot) # takeWhile (\<lambda>r. fst r = pid) rs) out of
             Inl e \<Rightarrow> (st, Inl e)
           | Inr (page', out') \<Rightarrow>
               (case mem_write_page crc pid (update_checksum crc page') st of
                  Inl e \<Rightarrow> (st, Inl e)
                | Inr st' \<Rightarrow> delete_pages crc txn (dropWhile (\<lambda>r. fst r = pid) rs) out' st')))"
  by pat_completeness auto
termination
  by (relation "measure (\<lambda>(crc, txn, rs, out, st). length rs)") (auto simp: le_imp_less_Suc length_dropWhile_le)

definition delete_batch ::
  "checksum \<Rightarrow> (page_id \<times> u16) list \<Rightarrow> txn_id \<Rightarrow> mem_storage \<Rightarrow>
   mem_storage \<times> (db_error + (page_id \<times> u16 \<times> u8 list) list)" where
  "delete_batch crc rids txn st = (if rids = [] then (st, Inr []) else delete_pages crc txn (sort rids) [] st)"

text \<open>Batches whose results go back to the position of their request.\<close>

primrec rewrite_run ::
  "txn_id \<Rightarrow> page \<Rightarrow> bool \<Rightarrow> (nat \<times> page_id \<times> u16 \<times> u8 list) list \<Rightarrow> u8 list option list \<Rightarrow>
   db_error + page \<times> bool \<times> u8 list option list" where
  "rewrite_run txn page dirty [] out = Inr (page, dirty, out)"
| "rewrite_run txn page dirty (u # us) out =
     (case u of (orig, _, slot, new_row) \<Rightarrow>
        (case rewrite_no_checksum page slot new_row txn of
           (_, Inl e) \<Rightarrow> Inl e
         | (page', Inr (Some old_image)) \<Rightarrow> rewrite_run txn page' True us (out[orig := Some old_image])
         | (page', Inr None) \<Rightarrow> rewrite_run txn page' dirty us out))"

function rewrite_pages ::
  "checksum \<Rightarrow> txn_id \<Rightarrow> (nat \<times> page_id \<times> u16 \<times> u8 list) list \<Rightarrow> u8 list option list \<Rightarrow> mem_storage \<Rightarrow>
   mem_storage \<times> (db_error + u8 list option list)" where
  "rewrite_pages crc txn [] out st = (st, Inr out)"
| "rewrite_pages crc txn ((orig, pid, slot, new_row) # us) out st =
     (case mem_read_page st pid of
        Inl e \<Rightarrow> (st, Inl e)
      | Inr page \<Rightarrow>
          (case rewrite_run txn page False ((orig, pid, slot, new_row) # takeWhile (\<lambda>u. fst (snd u) = pid) us) out of
             Inl e \<Rightarrow> (st, Inl e)
           | Inr (page', dirty, out') \<Rightarrow>
               (case (if dirty then mem_write_page crc pid (update_checksum crc page') st else Inr st) of
                  Inl e \<Rightarrow> (st, Inl e)
                | Inr st' \<Rightarrow> rewrite_pages crc txn (dropWhile (\<lambda>u. fst (snd u) = pid) us) out' st')))"
  by pat_completeness auto
termination
  by (relation "measure (\<lambda>(crc, txn, us, out, st). length us)") (auto simp: le_imp_less_Suc length_dropWhile_le)

definition rewrite_batch_same_slot ::
  "checksum \<Rightarrow> (page_id \<times> u16 \<times> u8 list) list \<Rightarrow> txn_id \<Rightarrow> mem_storage \<Rightarrow>
   mem_storage \<times> (db_error + u8 list option list)" where
  "rewrite_batch_same_slot crc updates txn st =
     (if updates = [] then (st, Inr [])
      else rewrite_pages crc txn
        (sort_key (\<lambda>u. (fst (snd u), fst (snd (snd u)))) (zip [0..<length updates] updates))
        (replicate (length updates) None) st)"

primrec read_run ::
  "page \<Rightarrow> (nat \<times> page_id \<times> u16) list \<Rightarrow> u8 list option list \<Rightarrow> db_error + u8 list option list" where
  "read_run page [] out = Inr out"
| "read_run page (r # rs) out =
     ebind (read_tuple page (snd (snd r))) (\<lambda>t. case t of
         None \<Rightarrow> read_run page rs out
       | Some (_, data) \<Rightarrow> read_run page rs (out[fst r := Some data]))"

function read_pages ::
  "checksum \<Rightarrow> mem_storage \<Rightarrow> (nat \<times> page_id \<times> u16) list \<Rightarrow> u8 list option list \<Rightarrow> db_error + u8 list option list" where
  "read_pages crc st [] out = Inr out"
| "read_pages crc st ((orig, pid, slot) # rs) out =
     ebind (load_page crc st pid) (\<lambda>page.
       ebind (read_run page ((orig, pid, slot) # takeWhile (\<lambda>r. fst (snd r) = pid) rs) out) (\<lambda>out'.
         read_pages crc st (dropWhile (\<lambda>r. fst (snd r) = pid) rs) out'))"
  by pat_completeness auto
termination
  by (relation "measure (\<lambda>(crc, st, rs, out). length rs)") (auto simp: le_imp_less_Suc length_dropWhile_le)

definition read_rows_batch ::
  "checksum \<Rightarrow> mem_storage \<Rightarrow> (page_id \<times> u16) list \<Rightarrow> db_error + u8 list option list" where
  "read_rows_batch crc st rids =
     (if rids = [] then Inr []
      else read_pages crc st
        (sort_key (\<lambda>r. (fst (snd r), snd (snd r))) (zip [0..<length rids] rids)) (replicate (length rids) None))"

subsection \<open>Scans\<close>

text \<open>The slow path of a page: besides the visible rows, whether every live row is undeleted and older
  than the snapshot, and whether there is a live row at all.\<close>

primrec scan_track ::
  "page \<Rightarrow> transaction_snapshot \<Rightarrow> u16 list \<Rightarrow> bool \<Rightarrow> bool \<Rightarrow> (u16 \<times> u8 list) list \<Rightarrow>
   db_error + bool \<times> bool \<times> (u16 \<times> u8 list) list" where
  "scan_track p snap [] all_vis has_alive out = Inr (all_vis, has_alive, out)"
| "scan_track p snap (slot_id # rest) all_vis has_alive out =
     ebind (read_slot p slot_id) (\<lambda>e.
       if is_dead e then scan_track p snap rest all_vis has_alive out
       else ebind (tuple_at p e) (\<lambda>(h, data).
         let all_vis' = (if txn_id_deleted h \<noteq> 0 \<or> txn_id_created h \<ge> snapshot_id snap then False else all_vis) in
         scan_track p snap rest all_vis' True (if is_visible h snap then out @ [(slot_id, data)] else out)))"

definition scan_page ::
  "checksum \<Rightarrow> transaction_snapshot \<Rightarrow> page_id \<Rightarrow> page \<Rightarrow> mem_storage \<Rightarrow>
   mem_storage \<times> (db_error + (u16 \<times> u8 list) list)" where
  "scan_page crc snap cur page st =
     (if is_all_visible page then (st, scan_visible page snap)
      else case scan_track page snap (slot_ids page) True False [] of
             Inl e \<Rightarrow> (st, Inl e)
           | Inr (all_vis, has_alive, rows) \<Rightarrow>
               if all_vis \<and> has_alive \<and> hdr_item_count page > 0
               then (case mem_write_page crc cur (update_checksum crc (set_all_visible page)) st of
                       Inl e \<Rightarrow> (st, Inl e)
                     | Inr st' \<Rightarrow> (st', Inr rows))
               else (st, Inr rows))"

abbreviation on_page :: "page_id \<Rightarrow> (u16 \<times> u8 list) list \<Rightarrow> (page_id \<times> u16 \<times> u8 list) list" where
  "on_page pid rows \<equiv> map (\<lambda>(slot, data). (pid, slot, data)) rows"

partial_function (option) scan_loop ::
  "checksum \<Rightarrow> transaction_snapshot \<Rightarrow> page_id \<Rightarrow> (page_id \<times> u16 \<times> u8 list) list \<Rightarrow> mem_storage \<Rightarrow>
   (mem_storage \<times> (db_error + (page_id \<times> u16 \<times> u8 list) list)) option" where
  "scan_loop crc snap cur out st =
     (if cur = 0 then Some (st, Inr out)
      else case load_page crc st cur of
             Inl e \<Rightarrow> Some (st, Inl e)
           | Inr page \<Rightarrow>
               (case scan_page crc snap cur page st of (st', r) \<Rightarrow>
                 (case r of
                    Inl e \<Rightarrow> Some (st', Inl e)
                  | Inr rows \<Rightarrow> scan_loop crc snap (chain_next_page page) (out @ on_page cur rows) st')))"

definition chain_scan_visible ::
  "checksum \<Rightarrow> page_id \<Rightarrow> transaction_snapshot \<Rightarrow> mem_storage \<Rightarrow>
   (mem_storage \<times> (db_error + (page_id \<times> u16 \<times> u8 list) list)) option" where
  "chain_scan_visible crc root snap st = scan_loop crc snap root [] st"

partial_function (option) scan_rids_loop ::
  "checksum \<Rightarrow> transaction_snapshot \<Rightarrow> page_id \<Rightarrow> (page_id \<times> u16) list \<Rightarrow> mem_storage \<Rightarrow>
   (mem_storage \<times> (db_error + (page_id \<times> u16) list)) option" where
  "scan_rids_loop crc snap cur out st =
     (if cur = 0 then Some (st, Inr out)
      else case load_page crc st cur of
             Inl e \<Rightarrow> Some (st, Inl e)
           | Inr page \<Rightarrow>
               (case scan_page crc snap cur page st of (st', r) \<Rightarrow>
                 (case r of
                    Inl e \<Rightarrow> Some (st', Inl e)
                  | Inr rows \<Rightarrow>
                      scan_rids_loop crc snap (chain_next_page page) (out @ map (\<lambda>(slot, _). (cur, slot)) rows) st')))"

definition scan_rids_visible ::
  "checksum \<Rightarrow> page_id \<Rightarrow> transaction_snapshot \<Rightarrow> mem_storage \<Rightarrow> (mem_storage \<times> (db_error + (page_id \<times> u16) list)) option" where
  "scan_rids_visible crc root snap st = scan_rids_loop crc snap root [] st"

partial_function (option) scan_ro_loop ::
  "transaction_snapshot \<Rightarrow> mem_storage \<Rightarrow> page_id \<Rightarrow> (page_id \<times> u16 \<times> u8 list) list \<Rightarrow>
   (db_error + (page_id \<times> u16 \<times> u8 list) list) option" where
  "scan_ro_loop snap st cur out =
     (if cur = 0 then Some (Inr out)
      else case mem_read_page st cur of
             Inl e \<Rightarrow> Some (Inl e)
           | Inr page \<Rightarrow>
               (case scan_visible page snap of
                  Inl e \<Rightarrow> Some (Inl e)
                | Inr rows \<Rightarrow> scan_ro_loop snap st (chain_next_page page) (out @ on_page cur rows)))"

definition scan_visible_ro ::
  "mem_storage \<Rightarrow> page_id \<Rightarrow> transaction_snapshot \<Rightarrow> (db_error + (page_id \<times> u16 \<times> u8 list) list) option" where
  "scan_visible_ro st root snap = scan_ro_loop snap st root []"

text \<open>Counting reads only the headers, and passes over entries too short to have one.\<close>

primrec count_slots :: "page \<Rightarrow> transaction_snapshot \<Rightarrow> u16 list \<Rightarrow> u64 \<Rightarrow> db_error + u64" where
  "count_slots p snap [] n = Inr n"
| "count_slots p snap (slot_id # rest) n =
     ebind (read_slot p slot_id) (\<lambda>e.
       if is_dead e then count_slots p snap rest n
       else if unat (se_length e) < 24 then count_slots p snap rest n
       else ebind (tuple_at p e) (\<lambda>(h, _).
         count_slots p snap rest (if is_visible h snap then n + 1 else n)))"

partial_function (option) count_loop ::
  "transaction_snapshot \<Rightarrow> mem_storage \<Rightarrow> page_id \<Rightarrow> u64 \<Rightarrow> (db_error + u64) option" where
  "count_loop snap st cur n =
     (if cur = 0 then Some (Inr n)
      else case mem_read_page st cur of
             Inl e \<Rightarrow> Some (Inl e)
           | Inr page \<Rightarrow>
               (case count_slots page snap (slot_ids page) n of
                  Inl e \<Rightarrow> Some (Inl e)
                | Inr n' \<Rightarrow> count_loop snap st (chain_next_page page) n'))"

definition count_visible :: "mem_storage \<Rightarrow> page_id \<Rightarrow> transaction_snapshot \<Rightarrow> (db_error + u64) option" where
  "count_visible st root snap = count_loop snap st root 0"

subsection \<open>Batch insertion with zone maps\<close>

text \<open>The current last page and its number are carried along; a full page is written, linked to a new
  one, and the row goes to the new page.\<close>

definition note_value :: "(u8 \<times> i64) option \<Rightarrow> page \<Rightarrow> page" where
  "note_value zv p = (case zv of Some (col, v) \<Rightarrow> update_zone_map p col v | None \<Rightarrow> p)"

primrec insert_rows ::
  "checksum \<Rightarrow> nat \<Rightarrow> txn_id \<Rightarrow> (u8 list \<times> (u8 \<times> i64) option) list \<Rightarrow> page_id \<Rightarrow> page \<Rightarrow> (page_id \<times> u16) list \<Rightarrow>
   local_page_batch option \<Rightarrow> mem_storage \<Rightarrow>
   local_page_batch option \<times> mem_storage \<times> (db_error + page_id \<times> page \<times> (page_id \<times> u16) list)" where
  "insert_rows crc waiters txn [] last_id page out batch st = (batch, st, Inr (last_id, page, out))"
| "insert_rows crc waiters txn (row # rows) last_id page out batch st =
     (case row of (data, zv) \<Rightarrow>
        (case insert_tuple crc page data txn of
           (page', Inr slot) \<Rightarrow>
             insert_rows crc waiters txn rows last_id (note_value zv page') (out @ [(last_id, slot)]) batch st
         | (_, Inl err) \<Rightarrow>
             (case err of
                HeapPageFull _ _ _ \<Rightarrow>
                  (case mem_write_page crc last_id (update_checksum crc page) st of
                     Inl e \<Rightarrow> (batch, st, Inl e)
                   | Inr st \<Rightarrow>
                       (case batch_alloc_page crc waiters Data batch st of
                          (batch, st, Inl e) \<Rightarrow> (batch, st, Inl e)
                        | (batch, st, Inr new_id) \<Rightarrow>
                            (case link_tail crc last_id new_id st of
                               Inl e \<Rightarrow> (batch, st, Inl e)
                             | Inr st \<Rightarrow>
                                 (case insert_tuple crc (page_new crc Data new_id) data txn of
                                    (_, Inl e) \<Rightarrow> (batch, st, Inl e)
                                  | (page', Inr slot) \<Rightarrow>
                                      insert_rows crc waiters txn rows new_id (note_value zv page')
                                        (out @ [(new_id, slot)]) batch st))))
              | _ \<Rightarrow> (batch, st, Inl err))))"

definition insert_batch_with_zm ::
  "checksum \<Rightarrow> nat \<Rightarrow> page_id \<Rightarrow> u8 list list \<Rightarrow> txn_id \<Rightarrow> (u8 \<times> i64) option list \<Rightarrow> local_page_batch option \<Rightarrow> mem_storage \<Rightarrow>
   (local_page_batch option \<times> mem_storage \<times> (db_error + (page_id \<times> u16) list)) option" where
  "insert_batch_with_zm crc waiters root rows txn zm_values batch st =
     (if rows = [] then Some (batch, st, Inr [])
      else last_page_id st root \<bind> (\<lambda>r. case r of
          Inl e \<Rightarrow> Some (batch, st, Inl e)
        | Inr last_id \<Rightarrow>
            (case load_page crc st last_id of
               Inl e \<Rightarrow> Some (batch, st, Inl e)
             | Inr page \<Rightarrow>
                 (case insert_rows crc waiters txn
                     (zip rows (zm_values @ replicate (length rows - length zm_values) None)) last_id page [] batch st of
                    (batch, st, Inl e) \<Rightarrow> Some (batch, st, Inl e)
                  | (batch, st, Inr (last_id, page, out)) \<Rightarrow>
                      (case mem_write_page crc last_id (update_checksum crc page) st of
                         Inl e \<Rightarrow> Some (batch, st, Inl e)
                       | Inr st \<Rightarrow> Some (batch, st, Inr out))))))"

definition insert_batch ::
  "checksum \<Rightarrow> page_id \<Rightarrow> u8 list list \<Rightarrow> txn_id \<Rightarrow> mem_storage \<Rightarrow> (mem_storage \<times> (db_error + (page_id \<times> u16) list)) option" where
  "insert_batch crc root rows txn st =
     insert_batch_with_zm crc 0 root rows txn [] None st \<bind> (\<lambda>(_, st, r). Some (st, r))"

subsection \<open>Undoing a truncation\<close>

primrec clear_slots ::
  "checksum \<Rightarrow> txn_id \<Rightarrow> u16 list \<Rightarrow> page \<Rightarrow> bool \<Rightarrow> db_error + page \<times> bool" where
  "clear_slots crc txn [] page modified = Inr (page, modified)"
| "clear_slots crc txn (slot # rest) page modified =
     ebind (read_tuple_header page slot) (\<lambda>d.
       if d = Some txn then
         (case clear_deletion crc page slot of
            (page', Inr _) \<Rightarrow> clear_slots crc txn rest page' True
          | (page', Inl e) \<Rightarrow>
              (case e of AlreadyDeleted _ _ \<Rightarrow> clear_slots crc txn rest page' modified | _ \<Rightarrow> Inl e))
       else clear_slots crc txn rest page modified)"

partial_function (option) clear_deletions_by_txn ::
  "checksum \<Rightarrow> txn_id \<Rightarrow> page_id \<Rightarrow> mem_storage \<Rightarrow> (mem_storage \<times> (db_error + unit)) option" where
  "clear_deletions_by_txn crc txn cur st =
     (if cur = 0 then Some (st, Inr ())
      else case load_page crc st cur of
             Inl e \<Rightarrow> Some (st, Inl e)
           | Inr page \<Rightarrow>
               (case clear_slots crc txn (slot_ids page) page False of
                  Inl e \<Rightarrow> Some (st, Inl e)
                | Inr (page', modified) \<Rightarrow>
                    (case (if modified then mem_write_page crc cur page' st else Inr st) of
                       Inl e \<Rightarrow> Some (st, Inl e)
                     | Inr st' \<Rightarrow> clear_deletions_by_txn crc txn (chain_next_page page) st')))"

end
