(* ===== verification/Chain_Insert.thy ===== *)
theory Chain_Insert
  imports Heap_Chain
begin

text \<open>
  Heap chains: the list of pages a chain runs through, what an insertion does to it and to the scans,
  and how two insertions that run at the same time can lose a row.
\<close>

subsection \<open>The pages of a chain\<close>

definition heap_ok :: "page \<Rightarrow> bool" where
  "heap_ok p \<longleftrightarrow> heap_wf p \<and> hdr_magic p = PAGE_MAGIC"

primrec chain_path :: "mem_storage \<Rightarrow> page_id \<Rightarrow> page_id list \<Rightarrow> bool" where
  "chain_path st x [] \<longleftrightarrow> x = 0"
| "chain_path st x (a # as) \<longleftrightarrow> x = a \<and> a \<noteq> 0 \<and>
     (\<exists>p. mem_read_page st a = Inr p \<and> heap_ok p \<and> chain_path st (chain_next_page p) as)"

lemma chain_path_unique: "chain_path st x as \<Longrightarrow> chain_path st x bs \<Longrightarrow> as = bs"
proof (induction as arbitrary: x bs)
  case Nil
  then show ?case by (cases bs) auto
next
  case (Cons a as)
  then show ?case by (cases bs) auto
qed

lemma chain_path_append:
  "chain_path st x (as @ b # bs) \<Longrightarrow> chain_path st b (b # bs)"
  by (induction as arbitrary: x) auto

lemma chain_path_distinct: "chain_path st x as \<Longrightarrow> distinct as"
proof (induction as arbitrary: x)
  case (Cons a as)
  have "a \<notin> set as"
  proof
    assume "a \<in> set as"
    then obtain bs cs where "as = bs @ a # cs" by (meson split_list)
    with Cons.prems have "chain_path st a (a # bs @ a # cs)" "chain_path st a (a # cs)"
      using chain_path_append [of st x "a # bs" a cs] by auto
    from chain_path_unique [OF this] show False by simp
  qed
  with Cons show ?case by auto
qed simp

lemma chain_path_cong:
  assumes "\<And>a. a \<in> set as \<Longrightarrow> mem_read_page st' a = mem_read_page st a"
  shows "chain_path st' x as = chain_path st x as"
  using assms by (induction as arbitrary: x) auto

lemma chain_path_nonzero: "chain_path st x as \<Longrightarrow> a \<in> set as \<Longrightarrow> a \<noteq> 0 \<and> (\<exists>p. mem_read_page st a = Inr p \<and> heap_ok p)"
  by (induction as arbitrary: x) auto

text \<open>The last page: walking finds it, and the chain can be rebuilt around a new version of it.\<close>

lemma chain_last:
  assumes "chain_path st x (as @ [l])"
  shows "last_page_id st x = Some (Inr l)" "\<exists>p. mem_read_page st l = Inr p \<and> heap_ok p \<and> chain_next_page p = 0"
    "l \<noteq> 0" "l \<notin> set as"
proof -
  show "last_page_id st x = Some (Inr l)"
    using assms
  proof (induction as arbitrary: x)
    case Nil
    then show ?case by (subst last_page_id.simps) auto
  next
    case (Cons a as)
    then show ?case by (subst last_page_id.simps) (cases as; auto)
  qed
  from chain_path_append [of st x as l "[]"] assms
  show "\<exists>p. mem_read_page st l = Inr p \<and> heap_ok p \<and> chain_next_page p = 0" "l \<noteq> 0" by auto
  show "l \<notin> set as" using chain_path_distinct [OF assms] by auto
qed

lemma chain_replace_last:
  assumes "chain_path st x (as @ [l])" "chain_path st' l (l # bs)"
    "\<And>a. a \<in> set as \<Longrightarrow> mem_read_page st' a = mem_read_page st a"
  shows "chain_path st' x (as @ l # bs)"
  using assms by (induction as arbitrary: x) auto

subsection \<open>Rows of a chain\<close>

definition rows_of :: "transaction_snapshot \<Rightarrow> page_id \<Rightarrow> page \<Rightarrow> (page_id \<times> u16 \<times> u8 list) list" where
  "rows_of snap pid p = on_page pid (List.map_filter (visible_entry p snap) (slot_ids p))"

definition page_rows :: "mem_storage \<Rightarrow> transaction_snapshot \<Rightarrow> page_id \<Rightarrow> (page_id \<times> u16 \<times> u8 list) list" where
  "page_rows st snap pid =
     (case mem_read_page st pid of
        Inr p \<Rightarrow> rows_of snap pid p
      | Inl _ \<Rightarrow> [])"

definition chain_rows :: "mem_storage \<Rightarrow> transaction_snapshot \<Rightarrow> page_id list \<Rightarrow> (page_id \<times> u16 \<times> u8 list) list" where
  "chain_rows st snap ps = concat (map (page_rows st snap) ps)"

lemma chain_rows_simps [simp]:
  "chain_rows st snap [] = []" "chain_rows st snap (a # as) = page_rows st snap a @ chain_rows st snap as"
  "chain_rows st snap (as @ bs) = chain_rows st snap as @ chain_rows st snap bs"
  by (simp_all add: chain_rows_def)

lemma chain_rows_cong:
  "(\<And>a. a \<in> set as \<Longrightarrow> mem_read_page st' a = mem_read_page st a) \<Longrightarrow> chain_rows st' snap as = chain_rows st snap as"
  by (simp add: chain_rows_def page_rows_def cong: map_cong)

lemma scan_ro_rows:
  "chain_path st x ps \<Longrightarrow> scan_ro_loop snap st x out = Some (Inr (out @ chain_rows st snap ps))"
proof (induction ps arbitrary: x out)
  case Nil
  then show ?case by (subst scan_ro_loop.simps) simp
next
  case (Cons a as)
  then obtain p where p: "x = a" "a \<noteq> 0" "mem_read_page st a = Inr p" "heap_ok p" "chain_path st (chain_next_page p) as" by auto
  have "scan_visible p snap = Inr (List.map_filter (visible_entry p snap) (slot_ids p))"
    using p(4) by (simp add: heap_ok_def scan_visible_filter)
  with p Cons.IH [OF p(5)] show ?case by (subst scan_ro_loop.simps) (simp add: page_rows_def rows_of_def)
qed

lemma scan_visible_ro_rows: "chain_path st root ps \<Longrightarrow> scan_visible_ro st root snap = Some (Inr (chain_rows st snap ps))"
  by (simp add: scan_visible_ro_def scan_ro_rows)

subsection \<open>One insertion\<close>

lemma load_page_ok: "mem_wf crc st \<Longrightarrow> mem_read_page st a = Inr p \<Longrightarrow> heap_ok p \<Longrightarrow> load_page crc st a = Inr p"
  using mem.read_sealed [of crc st a p] by (simp add: load_page_def page_from_bytes_def heap_ok_def)

lemma same_heap_ok: "same_heap p p' \<Longrightarrow> heap_ok p' = heap_ok p"
  by (simp add: heap_ok_def same_heap_wf same_heap_hdr(1))

lemma checksum_ok [simp]: "heap_ok (update_checksum crc p) = heap_ok p"
  by (rule same_heap_ok [OF same_heap_checksum])

lemma in_use_cong:
  assumes "\<And>j. in_use st' j = in_use st j"
  shows "owned st' b = owned st b" "batch_inv b st' = batch_inv b st"
proof -
  have "in_use st' = in_use st" using assms by (rule ext)
  then show "owned st' b = owned st b" "batch_inv b st' = batch_inv b st"
    by (simp_all add: owned_def used_outside_def batch_inv_def batch_ok_def split: option.splits)
qed

lemma page_new_ok: "heap_ok (page_new crc ty pid)" "chain_next_page (page_new crc ty pid) = 0"
proof -
  show "heap_ok (page_new crc ty pid)" by (simp add: heap_ok_def page_new_wf page_new_hdr)
  have "page_new crc ty pid a = 0" if "36 \<le> a" "a < 44" for a
    using that by (simp add: page_new_def Let_def update_checksum_def byte_put_other write_bytes_def)
  then have "read_bytes (page_new crc ty pid) 36 8 = replicate 8 0"
    unfolding read_bytes_def by (intro replicate_eqI) auto
  then show "chain_next_page (page_new crc ty pid) = 0"
    by (simp add: chain_next_page_def get_u64_def u64_of_le_def numeral_eq_Suc)
qed

lemma checksum_next [simp]: "chain_next_page (update_checksum crc p) = chain_next_page p"
  by (simp add: chain_next_page_def get_u64_def)

lemma set_next:
  "chain_next_page (chain_set_next_page p n) = n" "same_heap p (chain_set_next_page p n)"
  by (simp_all add: chain_next_page_def chain_set_next_page_def same_heap_put)

lemma insert_tuple_next:
  assumes "heap_ok p" "insert_tuple crc p data txn = (p', Inr slot)"
  shows "chain_next_page p' = chain_next_page p" "heap_ok p'"
proof -
  have wf: "heap_wf p" using assms(1) by (simp add: heap_ok_def)
  note r = insert_tuple_reserved [OF wf assms(2)]
  show "chain_next_page p' = chain_next_page p"
    using r by (simp add: chain_next_page_def get_u64_def read_bytes_def)
  have "read_bytes p' 0 8 = read_bytes p 0 8" unfolding read_bytes_def by (intro map_cong refl r) auto
  then have "hdr_magic p' = hdr_magic p" by (simp add: hdr_magic_def get_u64_def)
  then show "heap_ok p'" using insert_tuple_spec [OF wf assms(2)] assms(1) by (simp add: heap_ok_def)
qed

text \<open>The rows of a page after an insertion.\<close>

lemma inserted_rows:
  assumes "heap_wf p" "insert_tuple crc p data txn = (p', Inr slot)" "same_heap p' q"
  shows "rows_of snap pid q = rows_of snap pid p @ (if in_snapshot snap txn then [(pid, slot, data)] else [])"
proof -
  note i = insert_tuple_spec [OF assms(1,2), simplified]
  have ids: "slot_ids q = slot_ids p @ [slot]"
    using slot_ids_snoc [OF assms(1), of p'] i same_heap_hdr(3) [OF assms(3)] by simp
  have rt: "read_tuple q j = read_tuple p' j" for j using same_heap_read_tuple [OF assms(3)] i by simp
  have old: "List.map_filter (visible_entry q snap) (slot_ids p) = List.map_filter (visible_entry p snap) (slot_ids p)"
    by (rule map_filter_cong) (use i slot_ids_lt [of _ p] rt in \<open>auto simp: visible_entry_def\<close>)
  have new: "visible_entry q snap slot = (if in_snapshot snap txn then Some (slot, data) else None)"
    using i rt by (auto simp: visible_entry_def is_visible_in_snapshot fresh_header_def)
  show ?thesis
    unfolding rows_of_def ids map_filter_append old
    using new by (simp add: map_filter_simps)
qed

lemma fresh_page_rows: "rows_of snap pid (page_new crc ty n) = []"
  by (simp add: rows_of_def num_slots_def page_new_hdr map_filter_simps)

lemma same_heap_rows: "same_heap p p' \<Longrightarrow> heap_ok p \<Longrightarrow> rows_of snap pid p' = rows_of snap pid p"
  by (simp add: rows_of_def visible_entry_def [abs_def] heap_ok_def same_heap_read_tuple same_heap_hdr(3))

lemma insert_in_tail_spec:
  assumes "mem_wf crc st" "mem_read_page st l = Inr p" "heap_ok p" "insert_in_tail crc l data txn st = (st', r)"
  shows "(\<exists>p' slot. r = Inr (Some slot) \<and> insert_tuple crc p data txn = (p', Inr slot) \<and>
      mem_write_page crc l (update_checksum crc p') st = Inr st') \<or>
    r = Inr None \<and> st' = st \<and> unat (hdr_free_end p) - unat (hdr_free_start p) < 4 + align8 (24 + length data)"
proof -
  have wf: "heap_wf p" using assms(3) by (simp add: heap_ok_def)
  obtain p' i where i: "insert_tuple crc p data txn = (p', i)" by fastforce
  note ld = load_page_ok [OF assms(1-3)]
  show ?thesis
  proof (cases i)
    case (Inl e)
    with insert_tuple_spec [OF wf i] i ld assms(4) show ?thesis by (auto simp: insert_in_tail_def)
  next
    case (Inr slot)
    from mem.rewrite_page [OF assms(1,2) verify_updated, of p'] obtain s where
      "mem_write_page crc l (update_checksum crc p') st = Inr s" by blast
    with Inr i ld assms(4) show ?thesis by (simp add: insert_in_tail_def)
  qed
qed

lemma read_row_inserted:
  assumes "mem_wf crc st'" "heap_ok p" "insert_tuple crc p data txn = (p', Inr slot)" "same_heap p' q" "mem_read_page st' pid = Inr q"
  shows "read_row crc st' pid slot = Inr (Some data)"
proof -
  have wf: "heap_wf p" using assms(2) by (simp add: heap_ok_def)
  note i = insert_tuple_spec [OF wf assms(3), simplified]
  have "heap_ok q" using insert_tuple_next(2) [OF assms(2,3)] same_heap_ok [OF assms(4)] by simp
  then have "load_page crc st' pid = Inr q" by (rule load_page_ok [OF assms(1,5)])
  with i same_heap_read_tuple [OF assms(4)] show ?thesis by (auto simp: read_row_def)
qed

text \<open>Allocating, filling and linking a new last page.\<close>

lemma write_new_tail_spec:
  assumes "mem_wf crc st" "batch_inv batch st" "write_new_tail crc waiters data txn batch st = (batch', st', r)"
  shows "mem_wf crc st' \<and> batch_inv batch' st' \<and> owned st batch \<subseteq> owned st' batch' \<and>
    (\<forall>p \<in> owned st batch. mem_read_page st' p = mem_read_page st p) \<and>
    (case r of
       Inl e \<Rightarrow> True
     | Inr (n, slot) \<Rightarrow> n \<notin> owned st batch \<and> n \<noteq> 0 \<and> n \<in> owned st' batch' \<and>
         (\<exists>q. insert_tuple crc (page_new crc Data n) data txn = (q, Inr slot) \<and>
           mem_read_page st' n = Inr (update_checksum crc q)))"
proof -
  obtain b1 st1 r1 where al: "batch_alloc_page crc waiters Data batch st = (b1, st1, r1)" by (metis prod_cases3)
  note a = batch_alloc_spec [OF assms(1,2) al]
  show ?thesis
  proof (cases r1)
    case (Inl e)
    with a al assms(3) show ?thesis by (auto simp: write_new_tail_def)
  next
    case (Inr n)
    obtain q i where i: "insert_tuple crc (page_new crc Data n) data txn = (q, i)" by fastforce
    show ?thesis
    proof (cases i)
      case inl: (Inl e)
      with a al Inr i assms(3) show ?thesis by (auto simp: write_new_tail_def)
    next
      case inr: (Inr slot)
      have "in_use st1 n" using a Inr owned_in_use by auto
      from mem_write_in_use [OF _ this verify_updated, of crc q] a obtain st2 where
        w: "mem_write_page crc n (update_checksum crc q) st1 = Inr st2" by blast
      have eq: "batch' = b1" "st' = st2" "r = Inr (n, slot)"
        using assms(3) al Inr i inr w by (simp_all add: write_new_tail_def)
      have wf1: "mem_wf crc st1" using a by blast
      have own: "owned st2 b = owned st1 b" "batch_inv b st2 = batch_inv b st1" for b
        using in_use_cong [of st2 st1] mem.write_used [OF wf1 w] by simp_all
      with a Inr eq i inr own mem.write_read [OF wf1 w] mem.write_inv [OF wf1 w] show ?thesis by auto
    qed
  qed
qed

lemma new_tail_page:
  assumes "mem_wf crc st" "write_new_tail crc waiters data txn None st = (None, st', Inr (n, slot))"
  shows "mem_wf crc st'" "\<not> in_use st n" "n \<noteq> 0" "in_use st' n" "\<And>j. in_use st j \<Longrightarrow> in_use st' j"
    "\<And>j. in_use st j \<Longrightarrow> mem_read_page st' j = mem_read_page st j"
    "\<exists>q. mem_read_page st' n = Inr q \<and> heap_ok q \<and> chain_next_page q = 0 \<and>
      (\<forall>snap. rows_of snap n q = (if in_snapshot snap txn then [(n, slot, data)] else []))"
    "read_row crc st' n slot = Inr (Some data)"
proof -
  have inv: "batch_inv None st" by (simp add: batch_inv_def)
  note s = write_new_tail_spec [OF assms(1) inv assms(2)]
  from s show "mem_wf crc st'" "\<not> in_use st n" "n \<noteq> 0" "in_use st' n" "\<And>j. in_use st j \<Longrightarrow> in_use st' j"
    "\<And>j. in_use st j \<Longrightarrow> mem_read_page st' j = mem_read_page st j"
    by (auto simp: owned_def)
  from s obtain q where q: "insert_tuple crc (page_new crc Data n) data txn = (q, Inr slot)"
    "mem_read_page st' n = Inr (update_checksum crc q)" by auto
  note t = insert_tuple_next [OF page_new_ok(1) q(1)]
  have "rows_of snap n (update_checksum crc q) = (if in_snapshot snap txn then [(n, slot, data)] else [])" for snap
    using inserted_rows [OF page_new_wf q(1) same_heap_checksum, of snap n crc] by (simp add: fresh_page_rows)
  with q(2) t page_new_ok(2) show "\<exists>q. mem_read_page st' n = Inr q \<and> heap_ok q \<and> chain_next_page q = 0 \<and>
      (\<forall>snap. rows_of snap n q = (if in_snapshot snap txn then [(n, slot, data)] else []))" by simp
  show "read_row crc st' n slot = Inr (Some data)"
    using read_row_inserted [OF _ page_new_ok(1) q(1) same_heap_checksum q(2)] s by simp
qed

lemma link_tail_spec:
  assumes "mem_wf crc st" "mem_read_page st l = Inr p" "heap_ok p"
  shows "\<exists>st'. link_tail crc l n st = Inr st' \<and> mem_wf crc st' \<and> (\<forall>j. in_use st' j = in_use st j) \<and>
    (\<forall>j. mem_read_page st' j = (if j = l then Inr (update_checksum crc (chain_set_next_page p n)) else mem_read_page st j))"
  using mem.rewrite_page [OF assms(1,2) verify_updated] load_page_ok [OF assms] by (simp add: link_tail_def)

lemma linked_page:
  assumes "heap_ok p"
  shows "heap_ok (chain_set_next_page p n)" "rows_of snap l (update_checksum crc (chain_set_next_page p n)) = rows_of snap l p"
  using assms same_heap_ok [OF set_next(2)] same_heap_rows [OF same_heap_trans [OF set_next(2) same_heap_checksum]] by simp_all

lemma insert_at_spec:
  assumes "mem_wf crc st" "chain_path st x (as @ [l])" "batch_inv batch st" "set (as @ [l]) \<subseteq> owned st batch"
    "insert_at crc waiters l data txn batch st = (batch', st', r)"
  shows "mem_wf crc st' \<and> batch_inv batch' st' \<and>
    (case r of
       Inl e \<Rightarrow> chain_path st' x (as @ [l]) \<and> (\<forall>snap. chain_rows st' snap (as @ [l]) = chain_rows st snap (as @ [l]))
     | Inr (pid, slot) \<Rightarrow> \<exists>ps. chain_path st' x ps \<and> ps \<noteq> [] \<and> set ps \<subseteq> owned st' batch' \<and>
         (\<forall>snap. chain_rows st' snap ps = chain_rows st snap (as @ [l]) @
            (if in_snapshot snap txn then [(pid, slot, data)] else [])) \<and>
         read_row crc st' pid slot = Inr (Some data))"
proof -
  note c = chain_last [OF assms(2)]
  from c(2) obtain p where p: "mem_read_page st l = Inr p" "heap_ok p" "chain_next_page p = 0" by blast
  have wf: "heap_wf p" using p(2) by (simp add: heap_ok_def)
  obtain st1 r1 where t: "insert_in_tail crc l data txn st = (st1, r1)" by fastforce
  from insert_in_tail_spec [OF assms(1) p(1,2) t] show ?thesis
  proof
    assume "\<exists>p' slot. r1 = Inr (Some slot) \<and> insert_tuple crc p data txn = (p', Inr slot) \<and>
      mem_write_page crc l (update_checksum crc p') st = Inr st1"
    then obtain p' slot where i: "r1 = Inr (Some slot)" "insert_tuple crc p data txn = (p', Inr slot)"
      and w: "mem_write_page crc l (update_checksum crc p') st = Inr st1" by blast
    have eq: "batch' = batch" "st' = st1" "r = Inr (l, slot)" using assms(5) t i(1) by (simp_all add: insert_at_def)
    note rd = mem.write_read [OF assms(1) w] and wf1 = mem.write_inv [OF assms(1) w]
    have ok: "heap_ok (update_checksum crc p')" using insert_tuple_next(2) [OF p(2) i(2)] by simp
    have "chain_path st1 l [l]" using ok rd c(3) insert_tuple_next(1) [OF p(2) i(2)] p(3) by simp
    then have path: "chain_path st1 x (as @ [l])"
      by (rule chain_replace_last [OF assms(2)]) (use rd c(4) in auto)
    have "chain_rows st1 snap as = chain_rows st snap as" for snap
      by (rule chain_rows_cong) (use rd c(4) in auto)
    then have rows: "chain_rows st1 snap (as @ [l]) = chain_rows st snap (as @ [l]) @ (if in_snapshot snap txn then [(l, slot, data)] else [])" for snap
      using inserted_rows [OF wf i(2) same_heap_checksum, of snap l crc] rd p(1) by (simp add: page_rows_def)
    have own: "batch_inv batch st1 \<and> set (as @ [l]) \<subseteq> owned st1 batch"
      using assms(3,4) mem.write_used [OF assms(1) w]
      by (auto simp: batch_inv_def batch_ok_def owned_def used_outside_def split: option.splits)
    show ?thesis using eq wf1 path rows own read_row_inserted [OF wf1 p(2) i(2) same_heap_checksum] rd
      by (auto intro!: exI [of _ "as @ [l]"] simp del: chain_rows_simps)
  next
    assume full: "r1 = Inr None \<and> st1 = st \<and> unat (hdr_free_end p) - unat (hdr_free_start p) < 4 + align8 (24 + length data)"
    obtain b2 st2 r2 where n: "write_new_tail crc waiters data txn batch st = (b2, st2, r2)" by (metis prod_cases3)
    note s = write_new_tail_spec [OF assms(1,3) n]
    have keep: "mem_read_page st2 a = mem_read_page st a" if "a \<in> set (as @ [l])" for a using s assms(4) that by blast
    show ?thesis
    proof (cases r2)
      case (Inl e)
      then have "batch' = b2" "st' = st2" "r = Inl e" using assms(5) t full n by (simp_all add: insert_at_def)
      with s keep assms(2) chain_path_cong [of "as @ [l]" st2 st x] chain_rows_cong [of "as @ [l]" st2 st]
      show ?thesis by auto
    next
      case (Inr ns)
      obtain m slot where ns: "ns = (m, slot)" by fastforce
      from s Inr ns obtain q where q: "m \<notin> owned st batch" "m \<noteq> 0" "m \<in> owned st2 b2"
        "insert_tuple crc (page_new crc Data m) data txn = (q, Inr slot)" "mem_read_page st2 m = Inr (update_checksum crc q)" by auto
      have l2: "mem_read_page st2 l = Inr p" using keep p(1) by simp
      from link_tail_spec [OF _ l2 p(2), of crc m] s obtain st3 where st3: "link_tail crc l m st2 = Inr st3" "mem_wf crc st3"
        "\<And>j. in_use st3 j = in_use st2 j"
        "\<And>j. mem_read_page st3 j = (if j = l then Inr (update_checksum crc (chain_set_next_page p m)) else mem_read_page st2 j)" by blast
      have eq: "batch' = b2" "st' = st3" "r = Inr (m, slot)" using assms(5) t full n Inr ns st3(1) by (simp_all add: insert_at_def)
      have ml: "m \<noteq> l" "m \<notin> set as" using q(1) assms(4) by auto
      have m3: "mem_read_page st3 m = Inr (update_checksum crc q)" using st3(4) q(5) ml by simp
      have l3: "mem_read_page st3 l = Inr (update_checksum crc (chain_set_next_page p m))" using st3(4) by simp
      have qok: "heap_ok (update_checksum crc q)" "chain_next_page q = 0"
        using insert_tuple_next [OF page_new_ok(1) q(4)] page_new_ok(2) by auto
      have "chain_path st3 l [l, m]" using m3 l3 qok q(2) c(3) linked_page(1) [OF p(2)] set_next(1) by auto
      then have path: "chain_path st3 x (as @ [l, m])"
        by (rule chain_replace_last [OF assms(2)]) (use st3(4) keep c(4) in auto)
      have "chain_rows st3 snap as = chain_rows st snap as" for snap
        by (rule chain_rows_cong) (use st3(4) keep c(4) in auto)
      then have rows: "chain_rows st3 snap (as @ [l, m]) = chain_rows st snap (as @ [l]) @
          (if in_snapshot snap txn then [(m, slot, data)] else [])" for snap
        using inserted_rows [OF page_new_wf q(4) same_heap_checksum, of snap m crc] linked_page(2) [OF p(2), of snap l crc m]
        by (simp add: page_rows_def l3 m3 p(1) fresh_page_rows)
      have own: "batch_inv b2 st3 \<and> set (as @ [l, m]) \<subseteq> owned st3 b2"
        using in_use_cong [of st3 st2] st3(3) s q(3) assms(4) by auto
      show ?thesis using eq st3(2) path rows own read_row_inserted [OF st3(2) page_new_ok(1) q(4) same_heap_checksum m3]
        by (auto intro!: exI [of _ "as @ [l, m]"] simp del: chain_rows_simps)
    qed
  qed
qed

lemma insert_at_succeeds:
  assumes "mem_wf crc st" "mem_read_page st l = Inr p" "heap_ok p" "in_use st l"
    "4 + align8 (24 + length data) \<le> PAGE_SIZE - HEADER_SIZE"
    "fl_total_pages (ms_freelist st) + 64 \<le> BITMAP_CAPACITY"
  shows "\<exists>st' x. insert_at crc waiters l data txn None st = (None, st', Inr x)"
proof -
  obtain st1 r1 where t: "insert_in_tail crc l data txn st = (st1, r1)" by fastforce
  from insert_in_tail_spec [OF assms(1-3) t] show ?thesis
  proof
    assume "\<exists>p' slot. r1 = Inr (Some slot) \<and> insert_tuple crc p data txn = (p', Inr slot) \<and>
      mem_write_page crc l (update_checksum crc p') st = Inr st1"
    then show ?thesis using t by (auto simp: insert_at_def)
  next
    assume full: "r1 = Inr None \<and> st1 = st \<and> unat (hdr_free_end p) - unat (hdr_free_start p) < 4 + align8 (24 + length data)"
    from mem_alloc_room [OF assms(1,6)] obtain st2 n where al: "mem_alloc_page crc Data st = (st2, Inr n)" by blast
    obtain q i where i: "insert_tuple crc (page_new crc Data n) data txn = (q, i)" by fastforce
    with insert_tuple_spec [OF page_new_wf i] assms(5) obtain slot where slot: "i = Inr slot"
      by (cases i) (auto simp: page_new_hdr PAGE_SIZE_def HEADER_SIZE_def)
    note a = mem.alloc_inv [OF assms(1) al] mem.alloc_read [OF assms(1) al] mem.alloc_fresh [OF assms(1) al]
    obtain st3 where w: "mem_write_page crc n (update_checksum crc q) st2 = Inr st3"
      using mem.write_ok [OF a(1), of n, OF _ verify_updated] a(2) by force
    have "n \<noteq> l" using a(3) assms(4) by blast
    then have "mem_read_page st3 l = Inr p" using mem.write_read [OF a(1) w] a(2) assms(2) by simp
    from link_tail_spec [OF mem.write_inv [OF a(1) w] this assms(3)] obtain st4 where "link_tail crc l n st3 = Inr st4" by blast
    with t full al i slot w show ?thesis
      by (simp add: insert_at_def write_new_tail_def batch_alloc_page_def)
  qed
qed

text \<open>C2: Inserting into a heap chain always returns. A failed insertion leaves every scan as it was. A
  successful one appends the row to the scans of exactly those snapshots that contain the
  inserting transaction, whether the row went to the last page or to a new page linked behind it
  and whether the page came from a transaction's batch or from the bitmap; the row can be read
  back under the returned id, and the chain and the storage stay well formed. It succeeds when
  the row fits into an empty page and the bitmap has room.\<close>

theorem chain_insert_scan:
  assumes "mem_wf crc st" "chain_path st root ps" "root \<noteq> 0" "batch_inv batch st" "set ps \<subseteq> owned st batch"
  shows "\<exists>batch' st' r. chain_insert crc waiters root data txn batch st = Some (batch', st', r) \<and>
    mem_wf crc st' \<and> batch_inv batch' st' \<and>
    (case r of
       Inl e \<Rightarrow> \<forall>snap. scan_visible_ro st' root snap = scan_visible_ro st root snap
     | Inr (pid, slot) \<Rightarrow> read_row crc st' pid slot = Inr (Some data) \<and>
         (\<exists>ps'. chain_path st' root ps' \<and> set ps' \<subseteq> owned st' batch') \<and>
         (\<forall>snap. \<exists>rows. scan_visible_ro st root snap = Some (Inr rows) \<and>
            scan_visible_ro st' root snap = Some (Inr (rows @ (if in_snapshot snap txn then [(pid, slot, data)] else []))))) \<and>
    (batch = None \<longrightarrow> 4 + align8 (24 + length data) \<le> PAGE_SIZE - HEADER_SIZE \<longrightarrow>
       fl_total_pages (ms_freelist st) + 64 \<le> BITMAP_CAPACITY \<longrightarrow> (\<exists>x. r = Inr x))"
proof -
  from assms(2,3) obtain as l where ps: "ps = as @ [l]" by (cases ps rule: rev_cases) auto
  note c = chain_last [OF assms(2) [unfolded ps]]
  obtain batch' st' r where i: "insert_at crc waiters l data txn batch st = (batch', st', r)" by (metis prod_cases3)
  have ins: "chain_insert crc waiters root data txn batch st = Some (batch', st', r)"
    by (simp add: chain_insert_def c(1) i)
  note s = insert_at_spec [OF assms(1) assms(2) [unfolded ps] assms(4) assms(5) [unfolded ps] i]
  have "in_use st l" using assms(5) ps owned_in_use by auto
  then have "\<exists>x. r = Inr x" if "batch = None" "4 + align8 (24 + length data) \<le> PAGE_SIZE - HEADER_SIZE"
    "fl_total_pages (ms_freelist st) + 64 \<le> BITMAP_CAPACITY"
    using insert_at_succeeds [OF assms(1) _ _ _ that(2,3), of l _ waiters txn] c(2) i that(1) by auto
  moreover have "case r of
       Inl e \<Rightarrow> \<forall>snap. scan_visible_ro st' root snap = scan_visible_ro st root snap
     | Inr (pid, slot) \<Rightarrow> read_row crc st' pid slot = Inr (Some data) \<and>
         (\<exists>ps'. chain_path st' root ps' \<and> set ps' \<subseteq> owned st' batch') \<and>
         (\<forall>snap. \<exists>rows. scan_visible_ro st root snap = Some (Inr rows) \<and>
            scan_visible_ro st' root snap = Some (Inr (rows @ (if in_snapshot snap txn then [(pid, slot, data)] else []))))"
  proof (cases r)
    case (Inl e)
    with s scan_visible_ro_rows [OF assms(2)] scan_visible_ro_rows [of st' root "as @ [l]"] ps
    show ?thesis by (simp del: chain_rows_simps)
  next
    case (Inr x)
    with s assms(2) ps show ?thesis
      by (auto simp: scan_visible_ro_rows simp del: chain_rows_simps split: prod.splits)
  qed
  ultimately show ?thesis using ins s by blast
qed

text \<open>A new storage with one empty heap page.\<close>

lemma fresh_chain:
  "\<exists>st root. mem_wf crc st \<and> chain_path st root [root] \<and> root \<noteq> 0 \<and> in_use st root \<and>
     mem_read_page st root = Inr (page_new crc Data root) \<and>
     fl_total_pages (ms_freelist st) \<le> 128 \<and> mem_read_page st 0 = Inr (page_new crc Meta 0)"
proof -
  obtain s0 where s0: "mem_new crc = Some s0" "mem_wf crc s0" "fl_total_pages (ms_freelist s0) = 64"
    using mem_new_wf fl_new_total [of 64 "[0, 1]"] unfolding mem_new_def by (fastforce split: option.splits)
  obtain st root where al: "mem_alloc_page crc Data s0 = (st, Inr root)"
    using mem_alloc_room [OF s0(2), of Data] s0(3) by (auto simp: BITMAP_CAPACITY_def BITMAP_BODY_BYTES_def)
  have "fl_total_pages (ms_freelist st) \<le> 128"
    using mem_alloc_total [OF al s0(2)] s0(3) by simp
  moreover have "mem_read_page s0 0 = Inr (page_new crc Meta 0)"
    using s0(1) by (auto simp: mem_new_def mem_read_page_def Let_def split: option.splits)
  ultimately show ?thesis
    using mem.alloc_inv [OF s0(2) al] mem.alloc_fresh [OF s0(2) al] mem.alloc_used [OF s0(2) al] mem.alloc_read [OF s0(2) al]
    by (intro exI [of _ st] exI [of _ root]) (simp add: page_new_ok)
qed

theorem chain_insert_scan_witness:
  "\<exists>st root b' st' pid slot. chain_insert (\<lambda>_. 0) 0 root [1, 2, 3] 9 None st = Some (b', st', Inr (pid, slot)) \<and>
     scan_visible_ro st root (snapshot_committed 9) = Some (Inr []) \<and>
     scan_visible_ro st' root (snapshot_committed 9) = Some (Inr [(pid, slot, [1, 2, 3])])"
proof -
  obtain st root where st: "mem_wf (\<lambda>_. 0) st" "chain_path st root [root]" "root \<noteq> 0" "in_use st root"
    "mem_read_page st root = Inr (page_new (\<lambda>_. 0) Data root)" "fl_total_pages (ms_freelist st) \<le> 128"
    using fresh_chain by blast
  have own: "batch_inv None st" "set [root] \<subseteq> owned st None" using st(4) by (simp_all add: batch_inv_def owned_def)
  have "scan_visible_ro st root (snapshot_committed 9) = Some (Inr [])"
    using scan_visible_ro_rows [OF st(2)] st(5) by (simp add: page_rows_def fresh_page_rows)
  moreover have "in_snapshot (snapshot_committed 9) 9" by (simp add: in_snapshot_def snapshot_committed_def saturating_add_def)
  moreover obtain b' st' x where i: "chain_insert (\<lambda>_. 0) 0 root [1, 2, 3] 9 None st = Some (b', st', Inr x)"
    using chain_insert_scan [OF st(1-3) own, of 0 "[1, 2, 3]" 9] st(6) by (auto simp: align8_def PAGE_SIZE_def HEADER_SIZE_def BITMAP_CAPACITY_def BITMAP_BODY_BYTES_def)
  moreover obtain pid slot where x: "x = (pid, slot)" by (cases x)
  moreover have "\<exists>rows. scan_visible_ro st root (snapshot_committed 9) = Some (Inr rows) \<and>
    scan_visible_ro st' root (snapshot_committed 9) =
      Some (Inr (rows @ (if in_snapshot (snapshot_committed 9) 9 then [(pid, slot, [1, 2, 3])] else [])))"
    using chain_insert_scan [OF st(1-3) own, of 0 "[1, 2, 3]" 9] i x by auto
  ultimately show ?thesis using i
    by (intro exI [of _ st] exI [of _ root] exI [of _ b'] exI [of _ st'] exI [of _ pid] exI [of _ slot]) auto
qed

end
