(* ===== verification/Chain_Scan.thy ===== *)
theory Chain_Scan
  imports Chain_Insert
begin

text \<open>
  The scans of a heap chain. All of them return what the read-only scan returns, the flag a scan may
  set on its way changes no later scan, and a batch of point reads is the reads one by one.
\<close>

subsection \<open>One slot\<close>

lemma slot_cases:
  assumes "heap_wf p" "i < num_slots p"
  obtains (dead) e where "read_slot p i = Inr e" "is_dead e" "read_tuple p i = Inr None"
  | (live) e h d where "read_slot p i = Inr e" "\<not> is_dead e" "tuple_at p e = Inr (h, d)" "24 \<le> unat (se_length e)"
      "read_tuple p i = Inr (Some (h, d))"
proof -
  have s: "read_slot p i = Inr (slot_nth p (unat i))" using assms by (rule read_slot_wf)
  have i: "unat i < slots p" using assms(2) by (simp add: word_less_nat_alt)
  show thesis
  proof (cases "is_dead (slot_nth p (unat i))")
    case True
    with s assms(2) show ?thesis by (intro dead) (auto simp: read_tuple_def)
  next
    case False
    then obtain h d where r: "read_tuple p i = Inr (Some (h, d))" using read_tuple_wf [OF assms] by fastforce
    then have t: "tuple_at p (slot_nth p (unat i)) = Inr (h, d)"
      using assms(2) s False by (auto simp: read_tuple_def ebind_Inr_iff split: if_splits)
    then have "24 \<le> unat (se_length (slot_nth p (unat i)))"
      by (auto simp: tuple_at_def Let_def split: if_splits)
    with s False t r show ?thesis by (intro live) auto
  qed
qed

lemma scan_track_rows:
  assumes "heap_wf p" "\<forall>i \<in> set ss. i < num_slots p"
  shows "\<exists>a b. scan_track p snap ss all_vis has_alive out = Inr (a, b, out @ List.map_filter (visible_entry p snap) ss)"
  using assms(2)
proof (induction ss arbitrary: all_vis has_alive out)
  case (Cons i ss)
  then have i: "i < num_slots p" by simp
  show ?case
  proof (rule slot_cases [OF assms(1) i])
    fix e h d
    assume "read_slot p i = Inr e" "\<not> is_dead e" "tuple_at p e = Inr (h, d)" "read_tuple p i = Inr (Some (h, d))"
    then show ?thesis
      using Cons.IH [of _ True "out @ [(i, d)]"] Cons.IH [of _ True out] Cons.prems
      by (simp add: map_filter_simps visible_entry_def [of _ _ i] Let_def)
  qed (use Cons in \<open>simp add: map_filter_simps visible_entry_def [of _ _ i]\<close>)
qed (simp add: map_filter_simps)

lemma count_slots_rows:
  assumes "heap_wf p" "\<forall>i \<in> set ss. i < num_slots p"
  shows "count_slots p snap ss n = Inr (n + of_nat (length (List.map_filter (visible_entry p snap) ss)))"
  using assms(2)
proof (induction ss arbitrary: n)
  case (Cons i ss)
  then have i: "i < num_slots p" by simp
  show ?case
    by (rule slot_cases [OF assms(1) i]) (use Cons in \<open>auto simp: map_filter_simps visible_entry_def [of _ _ i]\<close>)
qed (simp add: map_filter_simps)

subsection \<open>One page\<close>

lemma set_all_visible_same: "same_heap p (set_all_visible p)"
  by (simp add: set_all_visible_def same_heap_def byte_put_other)

lemma set_all_visible_next: "chain_next_page (set_all_visible p) = chain_next_page p"
  by (simp add: set_all_visible_def chain_next_page_def get_u64_def read_put_other)

text \<open>Two storages with the same links and rows.\<close>

definition same_chains :: "mem_storage \<Rightarrow> mem_storage \<Rightarrow> bool" where
  "same_chains st st' \<longleftrightarrow>
     (\<forall>j p. mem_read_page st j = Inr p \<longrightarrow> (\<exists>q. mem_read_page st' j = Inr q \<and> same_heap p q \<and> chain_next_page q = chain_next_page p))"

lemma same_chainsD:
  assumes "same_chains st st'" "mem_read_page st j = Inr p"
  obtains q where "mem_read_page st' j = Inr q" "same_heap p q" "chain_next_page q = chain_next_page p"
  using assms by (auto simp: same_chains_def)

lemma same_chains_refl [simp]: "same_chains st st"
  by (auto simp: same_chains_def)

lemma same_chains_trans: "same_chains st st' \<Longrightarrow> same_chains st' st'' \<Longrightarrow> same_chains st st''"
proof -
  assume a: "same_chains st st'" and b: "same_chains st' st''"
  show ?thesis unfolding same_chains_def
  proof (intro allI impI)
    fix j p
    assume "mem_read_page st j = Inr p"
    then obtain q where q: "mem_read_page st' j = Inr q" "same_heap p q" "chain_next_page q = chain_next_page p"
      by (rule same_chainsD [OF a])
    from q(1) obtain r where "mem_read_page st'' j = Inr r" "same_heap q r" "chain_next_page r = chain_next_page q"
      by (rule same_chainsD [OF b])
    with q show "\<exists>r. mem_read_page st'' j = Inr r \<and> same_heap p r \<and> chain_next_page r = chain_next_page p"
      using same_heap_trans by auto
  qed
qed

lemma same_chains_path: "same_chains st st' \<Longrightarrow> chain_path st x ps \<Longrightarrow> chain_path st' x ps"
proof (induction ps arbitrary: x)
  case (Cons a as)
  then obtain p where p: "mem_read_page st a = Inr p" "heap_ok p" "chain_path st (chain_next_page p) as" "x = a" "a \<noteq> 0"
    by auto
  obtain q where "mem_read_page st' a = Inr q" "same_heap p q" "chain_next_page q = chain_next_page p"
    by (rule same_chainsD [OF Cons.prems(1) p(1)])
  with p Cons.IH [OF Cons.prems(1) p(3)] same_heap_ok show ?case by simp
qed simp

lemma same_chains_rows:
  "same_chains st st' \<Longrightarrow> chain_path st x ps \<Longrightarrow> chain_rows st' snap ps = chain_rows st snap ps"
proof (induction ps arbitrary: x)
  case (Cons a as)
  then obtain p where p: "mem_read_page st a = Inr p" "heap_ok p" "chain_path st (chain_next_page p) as" by auto
  obtain q where "mem_read_page st' a = Inr q" "same_heap p q"
    by (rule same_chainsD [OF Cons.prems(1) p(1)])
  with p Cons.IH [OF Cons.prems(1) p(3)] same_heap_rows show ?case by (simp add: page_rows_def)
qed simp

lemma same_chains_scan:
  assumes "same_chains st st'" "chain_path st root ps"
  shows "scan_visible_ro st' root snap = scan_visible_ro st root snap"
  by (simp add: scan_visible_ro_rows [OF assms(2)] scan_visible_ro_rows [OF same_chains_path [OF assms]] same_chains_rows [OF assms])

lemma scan_page_spec:
  assumes "mem_wf crc st" "mem_read_page st a = Inr p" "heap_ok p"
  shows "\<exists>st'. scan_page crc snap a p st = (st', Inr (List.map_filter (visible_entry p snap) (slot_ids p))) \<and>
    mem_wf crc st' \<and> same_chains st st'"
proof -
  have wf: "heap_wf p" using assms(3) by (simp add: heap_ok_def)
  have lt: "\<forall>i \<in> set (slot_ids p). i < num_slots p" using slot_ids_lt by blast
  obtain b c where t: "scan_track p snap (slot_ids p) True False [] =
      Inr (b, c, List.map_filter (visible_entry p snap) (slot_ids p))"
    using scan_track_rows [OF wf lt, of snap True False "[]"] by auto
  from mem.rewrite_page [OF assms(1,2) verify_updated, of "set_all_visible p"] obtain st1 where
    st1: "mem_write_page crc a (update_checksum crc (set_all_visible p)) st = Inr st1" "mem_wf crc st1"
      "\<And>j. mem_read_page st1 j = (if j = a then Inr (update_checksum crc (set_all_visible p)) else mem_read_page st j)"
    by blast
  have "same_chains st st1"
    using st1(3) assms(2) same_heap_trans [OF set_all_visible_same same_heap_checksum] set_all_visible_next
    by (auto simp: same_chains_def)
  with st1 t assms(1) scan_visible_filter [OF wf, of snap] show ?thesis
    by (simp add: scan_page_def)
qed

subsection \<open>The chain\<close>

lemma scan_loop_rows:
  assumes "mem_wf crc st" "chain_path st x ps"
  shows "\<exists>st'. scan_loop crc snap x out st = Some (st', Inr (out @ chain_rows st snap ps)) \<and>
    mem_wf crc st' \<and> same_chains st st'"
  using assms
proof (induction ps arbitrary: x out st)
  case Nil
  then show ?case by (subst scan_loop.simps) simp
next
  case (Cons a as)
  then obtain p where p: "x = a" "a \<noteq> 0" "mem_read_page st a = Inr p" "heap_ok p" "chain_path st (chain_next_page p) as" by auto
  obtain st1 where st1: "scan_page crc snap a p st = (st1, Inr (List.map_filter (visible_entry p snap) (slot_ids p)))"
    "mem_wf crc st1" "same_chains st st1" using scan_page_spec [OF Cons.prems(1) p(3,4)] by blast
  from Cons.IH [OF st1(2) same_chains_path [OF st1(3) p(5)], of "out @ rows_of snap a p"] obtain st2 where
    "scan_loop crc snap (chain_next_page p) (out @ rows_of snap a p) st1 = Some (st2, Inr (out @ rows_of snap a p @ chain_rows st1 snap as))"
    "mem_wf crc st2" "same_chains st1 st2" by auto
  moreover from this(3) have "same_chains st st2" by (rule same_chains_trans [OF st1(3)])
  ultimately
  show ?case by (subst scan_loop.simps)
    (simp add: p st1 load_page_ok [OF Cons.prems(1) p(3,4)] same_chains_rows [OF st1(3) p(5)] page_rows_def rows_of_def)
qed

abbreviation rid_of :: "page_id \<times> u16 \<times> u8 list \<Rightarrow> page_id \<times> u16" where
  "rid_of r \<equiv> (fst r, fst (snd r))"

lemma rids_of_rows: "map (\<lambda>(slot, _). (pid, slot)) (List.map_filter (visible_entry p snap) ss) = map rid_of (on_page pid (List.map_filter (visible_entry p snap) ss))"
  by (simp add: case_prod_unfold)

lemma scan_rids_loop_rows:
  assumes "mem_wf crc st" "chain_path st x ps"
  shows "\<exists>st'. scan_rids_loop crc snap x out st = Some (st', Inr (out @ map rid_of (chain_rows st snap ps))) \<and>
    mem_wf crc st' \<and> same_chains st st'"
  using assms
proof (induction ps arbitrary: x out st)
  case Nil
  then show ?case by (subst scan_rids_loop.simps) simp
next
  case (Cons a as)
  then obtain p where p: "x = a" "a \<noteq> 0" "mem_read_page st a = Inr p" "heap_ok p" "chain_path st (chain_next_page p) as" by auto
  obtain st1 where st1: "scan_page crc snap a p st = (st1, Inr (List.map_filter (visible_entry p snap) (slot_ids p)))"
    "mem_wf crc st1" "same_chains st st1" using scan_page_spec [OF Cons.prems(1) p(3,4)] by blast
  from Cons.IH [OF st1(2) same_chains_path [OF st1(3) p(5)], of "out @ map rid_of (rows_of snap a p)"] obtain st2 where
    "scan_rids_loop crc snap (chain_next_page p) (out @ map rid_of (rows_of snap a p)) st1 =
       Some (st2, Inr (out @ map rid_of (rows_of snap a p @ chain_rows st1 snap as)))"
    "mem_wf crc st2" "same_chains st1 st2" by auto
  moreover from this(3) have "same_chains st st2" by (rule same_chains_trans [OF st1(3)])
  ultimately
  show ?case by (subst scan_rids_loop.simps)
    (simp add: p st1 load_page_ok [OF Cons.prems(1) p(3,4)] same_chains_rows [OF st1(3) p(5)] page_rows_def rows_of_def rids_of_rows
      del: map_map map_append)
qed

lemma count_loop_rows:
  "chain_path st x ps \<Longrightarrow> count_loop snap st x n = Some (Inr (n + of_nat (length (chain_rows st snap ps))))"
proof (induction ps arbitrary: x n)
  case Nil
  then show ?case by (subst count_loop.simps) simp
next
  case (Cons a as)
  then obtain p where p: "x = a" "a \<noteq> 0" "mem_read_page st a = Inr p" "heap_ok p" "chain_path st (chain_next_page p) as" by auto
  have "count_slots p snap (slot_ids p) n = Inr (n + of_nat (length (rows_of snap a p)))"
    using p(4) slot_ids_lt count_slots_rows [of p "slot_ids p" snap n] by (simp add: heap_ok_def rows_of_def)
  with p Cons.IH [OF p(5)] show ?case by (subst count_loop.simps) (simp add: page_rows_def)
qed

text \<open>C11: On a chain of well-formed pages all scans terminate without an error and agree: the scan with
  the lazy flag returns the rows of the read-only scan, the scan for row ids their ids, and the
  count their number. The flags that the scans write on their way leave the storage well formed and
  change no later scan, under any snapshot.\<close>

theorem scans_agree:
  assumes "mem_wf crc st" "chain_path st root ps"
  shows "\<exists>rows st1 st2.
    scan_visible_ro st root snap = Some (Inr rows) \<and>
    chain_scan_visible crc root snap st = Some (st1, Inr rows) \<and>
    scan_rids_visible crc root snap st = Some (st2, Inr (map (\<lambda>r. (fst r, fst (snd r))) rows)) \<and>
    count_visible st root snap = Some (Inr (of_nat (length rows))) \<and>
    mem_wf crc st1 \<and> mem_wf crc st2 \<and>
    (\<forall>snap'. scan_visible_ro st1 root snap' = scan_visible_ro st root snap' \<and>
      scan_visible_ro st2 root snap' = scan_visible_ro st root snap')"
proof -
  obtain st1 where st1: "scan_loop crc snap root [] st = Some (st1, Inr ([] @ chain_rows st snap ps))" "mem_wf crc st1" "same_chains st st1"
    using scan_loop_rows [OF assms] by blast
  obtain st2 where st2: "scan_rids_loop crc snap root [] st = Some (st2, Inr ([] @ map rid_of (chain_rows st snap ps)))"
    "mem_wf crc st2" "same_chains st st2"
    using scan_rids_loop_rows [OF assms] by blast
  show ?thesis
    using st1 st2 scan_visible_ro_rows [OF assms(2)] count_loop_rows [OF assms(2), of snap 0]
      same_chains_scan [OF st1(3) assms(2)] same_chains_scan [OF st2(3) assms(2)]
    by (intro exI [of _ "chain_rows st snap ps"] exI [of _ st1] exI [of _ st2])
      (simp add: chain_scan_visible_def scan_rids_visible_def count_visible_def)
qed

lemma one_row_chain:
  "\<exists>st root ps pid slot. mem_wf crc st \<and> chain_path st root ps \<and>
     scan_visible_ro st root (snapshot_committed 9) = Some (Inr [(pid, slot, [1, 2, 3])])"
proof -
  obtain st root where st: "mem_wf crc st" "chain_path st root [root]" "root \<noteq> 0" "in_use st root"
    "mem_read_page st root = Inr (page_new crc Data root)" "fl_total_pages (ms_freelist st) \<le> 128"
    using fresh_chain by blast
  have own: "batch_inv None st" "set ([] @ [root]) \<subseteq> owned st None" using st(4) by (simp_all add: batch_inv_def owned_def)
  obtain b' st' r where i: "insert_at crc 0 root [1, 2, 3] 9 None st = (b', st', r)" by (metis prod_cases3)
  then obtain pid slot where r: "r = Inr (pid, slot)"
    using insert_at_succeeds [OF st(1,5) page_new_ok(1) st(4), of "[1, 2, 3]" 0 9] st(6)
    by (auto simp: align8_def PAGE_SIZE_def HEADER_SIZE_def BITMAP_CAPACITY_def BITMAP_BODY_BYTES_def)
  have "in_snapshot (snapshot_committed 9) 9" by (simp add: in_snapshot_def snapshot_committed_def saturating_add_def)
  moreover have "chain_rows st (snapshot_committed 9) [root] = []" using st(5) by (simp add: page_rows_def fresh_page_rows)
  moreover have path: "chain_path st root ([] @ [root])" using st(2) by simp
  note s = insert_at_spec [OF st(1) path own i]
  from s r obtain ps where ps: "chain_path st' root ps"
    "\<forall>snap. chain_rows st' snap ps = chain_rows st snap ([] @ [root]) @ (if in_snapshot snap 9 then [(pid, slot, [1, 2, 3])] else [])"
    by auto
  have "scan_visible_ro st' root (snapshot_committed 9) = Some (Inr (chain_rows st' (snapshot_committed 9) ps))"
    by (rule scan_visible_ro_rows [OF ps(1)])
  ultimately show ?thesis using s ps by (intro exI [of _ st'] exI [of _ root] exI [of _ ps] exI [of _ pid] exI [of _ slot]) simp
qed

theorem scans_agree_witness:
  "\<exists>st root st1 pid slot. chain_scan_visible (\<lambda>_. 0) root (snapshot_committed 9) st = Some (st1, Inr [(pid, slot, [1, 2, 3])]) \<and>
     count_visible st root (snapshot_committed 9) = Some (Inr 1)"
proof -
  obtain st root ps pid slot where st: "mem_wf (\<lambda>_. 0) st" "chain_path st root ps"
    "scan_visible_ro st root (snapshot_committed 9) = Some (Inr [(pid, slot, [1, 2, 3])])"
    using one_row_chain by blast
  from scans_agree [OF st(1,2), of "snapshot_committed 9"] st(3)
  have "\<exists>st1. chain_scan_visible (\<lambda>_. 0) root (snapshot_committed 9) st = Some (st1, Inr [(pid, slot, [1, 2, 3])])"
    "count_visible st root (snapshot_committed 9) = Some (Inr 1)" by auto
  then show ?thesis by blast
qed

subsection \<open>Batches of point reads\<close>

primrec read_each ::
  "checksum \<Rightarrow> mem_storage \<Rightarrow> (nat \<times> page_id \<times> u16) list \<Rightarrow> u8 list option list \<Rightarrow> db_error + u8 list option list" where
  "read_each crc st [] out = Inr out"
| "read_each crc st (r # rs) out =
     ebind (read_row crc st (fst (snd r)) (snd (snd r))) (\<lambda>v.
       read_each crc st rs (case v of None \<Rightarrow> out | Some d \<Rightarrow> out[fst r := Some d]))"

lemma read_each_append: "read_each crc st (xs @ ys) out = ebind (read_each crc st xs out) (read_each crc st ys)"
  by (induction xs arbitrary: out) (auto simp: ebind_def split: sum.splits)

lemma read_run_each:
  assumes "load_page crc st pid = Inr page" "\<forall>r \<in> set rs. fst (snd r) = pid"
  shows "read_run page rs out = read_each crc st rs out"
  using assms(2)
proof (induction rs arbitrary: out)
  case (Cons r rs)
  then show ?case using assms(1)
    by (auto simp: read_row_def ebind_def split: sum.splits option.splits)
qed simp

lemma read_pages_each: "read_pages crc st rs out = read_each crc st rs out"
proof (induction crc st rs out rule: read_pages.induct)
  case (2 crc st orig pid slot rs out)
  show ?case
  proof (cases "load_page crc st pid")
    case (Inl e)
    then show ?thesis by (simp add: read_row_def)
  next
    case (Inr page)
    let ?run = "(orig, pid, slot) # takeWhile (\<lambda>r. fst (snd r) = pid) rs"
    have run: "read_run page ?run out = read_each crc st ?run out"
      by (rule read_run_each [OF Inr]) (auto dest: set_takeWhileD)
    have "read_each crc st ((orig, pid, slot) # rs) out =
        read_each crc st (?run @ dropWhile (\<lambda>r. fst (snd r) = pid) rs) out" by simp
    also have "\<dots> = ebind (read_each crc st ?run out) (read_each crc st (dropWhile (\<lambda>r. fst (snd r) = pid) rs))"
      by (rule read_each_append)
    finally have each: "read_each crc st ((orig, pid, slot) # rs) out =
      ebind (read_each crc st ?run out) (read_each crc st (dropWhile (\<lambda>r. fst (snd r) = pid) rs))" .
    show ?thesis
    proof (cases "read_each crc st ?run out")
      case l: (Inl e)
      show ?thesis unfolding each l by (simp add: Inr run l del: read_run.simps read_each.simps)
    next
      case r: (Inr out')
      have IH: "read_pages crc st (dropWhile (\<lambda>r. fst (snd r) = pid) rs) out' = read_each crc st (dropWhile (\<lambda>r. fst (snd r) = pid) rs) out'"
        by (rule "2.IH")
      show ?thesis unfolding each r by (simp add: Inr run r IH del: read_run.simps read_each.simps)
    qed
  qed
qed simp

lemma read_each_Inl:
  "read_each crc st rs out = Inl e \<Longrightarrow> \<exists>r \<in> set rs. read_row crc st (fst (snd r)) (snd (snd r)) = Inl e"
  by (induction rs arbitrary: out) (auto simp: ebind_def split: sum.splits)

lemma read_each_Inr:
  assumes "read_each crc st rs out = Inr out'" "distinct (map fst rs)" "\<forall>r \<in> set rs. fst r < length out \<and> out ! fst r = None"
  shows "length out' = length out \<and> (\<forall>r \<in> set rs. read_row crc st (fst (snd r)) (snd (snd r)) = Inr (out' ! fst r)) \<and>
    (\<forall>i. i \<notin> fst ` set rs \<longrightarrow> out' ! i = out ! i)"
  using assms
proof (induction rs arbitrary: out)
  case (Cons r rs)
  then obtain v where v: "read_row crc st (fst (snd r)) (snd (snd r)) = Inr v" by (auto simp: ebind_Inr_iff)
  let ?o = "case v of None \<Rightarrow> out | Some d \<Rightarrow> out[fst r := Some d]"
  have o: "length ?o = length out" "?o ! fst r = v" "i \<noteq> fst r \<Longrightarrow> ?o ! i = out ! i" for i
    using Cons.prems(3) by (auto split: option.splits)
  have step: "read_each crc st rs ?o = Inr out'" using Cons.prems(1) v by simp
  have ne: "fst q \<noteq> fst r" if "q \<in> set rs" for q
    using Cons.prems(2) that by (simp add: image_iff) metis
  then have "\<forall>q \<in> set rs. fst q < length ?o \<and> ?o ! fst q = None" using Cons.prems(3) o by simp
  from Cons.IH [OF step _ this] Cons.prems(2) have IH: "length out' = length ?o"
    "\<And>q. q \<in> set rs \<Longrightarrow> read_row crc st (fst (snd q)) (snd (snd q)) = Inr (out' ! fst q)"
    "\<And>i. i \<notin> fst ` set rs \<Longrightarrow> out' ! i = ?o ! i" by auto
  have "fst r \<notin> fst ` set rs" using Cons.prems(2) by simp
  then have "out' ! fst r = v" using IH(3) o(2) by simp
  with IH v o show ?case by auto
qed simp

text \<open>C21: A batch of point reads, which sorts the row ids so as to load each page once, returns for
  every id, in the order of the request, what a single read of it returns; it fails only with the
  error of one of the single reads.\<close>

theorem read_rows_batch_pointwise:
  "case read_rows_batch crc st rids of
     Inr out \<Rightarrow> list_all2 (\<lambda>rid v. read_row crc st (fst rid) (snd rid) = Inr v) rids out
   | Inl e \<Rightarrow> \<exists>rid \<in> set rids. read_row crc st (fst rid) (snd rid) = Inl e"
proof (cases "rids = []")
  case False
  let ?z = "zip [0..<length rids] rids" and ?s = "sort_key (\<lambda>r. (fst (snd r), snd (snd r))) (zip [0..<length rids] rids)"
  let ?none = "replicate (length rids) None"
  have eq: "read_rows_batch crc st rids = read_each crc st ?s ?none"
    using False by (simp add: read_rows_batch_def read_pages_each)
  have "distinct (map fst ?z)" by simp
  then have d: "distinct (map fst ?s)" unfolding distinct_map set_sort by (simp add: distinct_sort distinct_zipI1)
  show ?thesis
  proof (cases "read_each crc st ?s ?none")
    case (Inl e)
    from read_each_Inl [OF this] obtain r where "r \<in> set ?z" "read_row crc st (fst (snd r)) (snd (snd r)) = Inl e" by auto
    then show ?thesis unfolding eq Inl using set_zip_rightD [of "fst r" "snd r"] by auto
  next
    case (Inr out)
    have "\<forall>r \<in> set ?s. fst r < length ?none \<and> ?none ! fst r = None" by (auto simp: set_zip)
    from read_each_Inr [OF Inr d this] have l: "length out = length rids"
      and rd: "\<And>r. r \<in> set ?z \<Longrightarrow> read_row crc st (fst (snd r)) (snd (snd r)) = Inr (out ! fst r)" by auto
    have "read_row crc st (fst (rids ! i)) (snd (rids ! i)) = Inr (out ! i)" if "i < length rids" for i
    proof -
      have "(i, rids ! i) \<in> set ?z" unfolding set_zip using that by force
      from rd [OF this] show ?thesis by simp
    qed
    with l show ?thesis unfolding eq Inr by (simp add: list_all2_conv_all_nth)
  qed
qed (simp add: read_rows_batch_def)

end
