(* ===== verification/Chain_Hazards.thy ===== *)
theory Chain_Hazards
  imports Chain_Scan
begin

text \<open>
  Two behaviours of heap chains that lose rows: insertions that run at the same time and find the
  same last page full, and single-row insertions into a page that has a zone map.
\<close>

subsection \<open>Two insertions at a full page\<close>

text \<open>C32: Two transactions that insert at the same time and both find the last page of the chain full
  both write a page of their own and then both overwrite the link of the old last page. The row of
  the first is stored and can be read under its id, but no scan of the table returns it any more,
  whatever the snapshot; the scans gain the row of the second only.\<close>

theorem lost_insert:
  assumes "mem_wf crc st" "chain_path st root (as @ [l])" "\<forall>a \<in> set (as @ [l]). in_use st a"
    and "insert_in_tail crc l d1 t1 st = (st, Inr None)" "insert_in_tail crc l d2 t2 st = (st, Inr None)"
    and n1: "write_new_tail crc waiters d1 t1 None st = (None, st1, Inr (n1, s1))"
    and n2: "write_new_tail crc waiters d2 t2 None st1 = (None, st2, Inr (n2, s2))"
    and l1: "link_tail crc l n1 st2 = Inr st3" and l2: "link_tail crc l n2 st3 = Inr st4"
  shows "read_row crc st4 n1 s1 = Inr (Some d1) \<and> n1 \<noteq> n2 \<and>
    (\<forall>snap. \<exists>rows. scan_visible_ro st root snap = Some (Inr rows) \<and>
      scan_visible_ro st4 root snap = Some (Inr (rows @ (if in_snapshot snap t2 then [(n2, s2, d2)] else []))))"
proof -
  from chain_last [OF assms(2)] obtain p where p: "mem_read_page st l = Inr p" "heap_ok p" "l \<noteq> 0" "l \<notin> set as" by blast
  note a = new_tail_page [OF assms(1) n1] and b = new_tail_page [OF new_tail_page(1) [OF assms(1) n1] n2]
  have l: "in_use st l" "in_use st1 l" "l \<noteq> n1" "l \<noteq> n2" "n1 \<noteq> n2" using assms(3) a(2,4,5) b(2) by auto
  have "mem_read_page st2 l = Inr p" using p(1) l a(6) b(6) by simp
  from link_tail_spec [OF b(1) this p(2), of n1] l1 have s3: "mem_wf crc st3"
    "\<And>j. mem_read_page st3 j = (if j = l then Inr (update_checksum crc (chain_set_next_page p n1)) else mem_read_page st2 j)" by auto
  let ?p1 = "update_checksum crc (chain_set_next_page p n1)"
  have p1: "mem_read_page st3 l = Inr ?p1" "heap_ok ?p1" using s3 linked_page(1) [OF p(2)] by simp_all
  from link_tail_spec [OF s3(1) p1, of n2] l2 have s4: "mem_wf crc st4"
    "\<And>j. mem_read_page st4 j = (if j = l then Inr (update_checksum crc (chain_set_next_page ?p1 n2)) else mem_read_page st3 j)" by auto
  obtain q where q: "mem_read_page st4 n2 = Inr q" "heap_ok q" "chain_next_page q = 0"
    "\<And>snap. rows_of snap n2 q = (if in_snapshot snap t2 then [(n2, s2, d2)] else [])"
    using b(7) s3(2) s4(2) l(4) by auto
  have old: "mem_read_page st4 j = mem_read_page st j" if "j \<in> set as" for j
    using that assms(3) a(5,6) b(6) s3(2) s4(2) p(4) by auto
  have "chain_path st4 l [l, n2]"
    using s4(2) linked_page(1) [OF p1(2)] q p(3) b(3) l(4) by (simp add: set_next)
  then have path: "chain_path st4 root (as @ [l, n2])"
    by (rule chain_replace_last [OF assms(2)]) (rule old)
  have "chain_rows st4 snap (as @ [l, n2]) = chain_rows st snap (as @ [l]) @ (if in_snapshot snap t2 then [(n2, s2, d2)] else [])" for snap
    using chain_rows_cong [of as st4 st, OF old] s4(2) p(1) q linked_page(2) [OF p1(2)] linked_page(2) [OF p(2)] l(4)
    by (simp add: page_rows_def)
  then have scan: "\<forall>snap. \<exists>rows. scan_visible_ro st root snap = Some (Inr rows) \<and>
      scan_visible_ro st4 root snap = Some (Inr (rows @ (if in_snapshot snap t2 then [(n2, s2, d2)] else [])))"
    using scan_visible_ro_rows [OF path] scan_visible_ro_rows [OF assms(2)] by simp
  have "mem_read_page st4 n1 = mem_read_page st1 n1" using s4(2) s3(2) l(3) b(6) [OF a(4)] by simp
  then have "read_row crc st4 n1 s1 = read_row crc st1 n1 s1" by (simp add: read_row_def load_page_def)
  with scan a(8) l(5) show ?thesis by simp
qed

lemma mem_write_freelist: "mem_write_page crc pid p st = Inr st' \<Longrightarrow> ms_freelist st' = ms_freelist st"
  by (auto simp: mem_write_page_def ebind_Inr_iff Let_def split: if_splits)

lemma new_tail_succeeds:
  assumes "mem_wf crc st" "4 + align8 (24 + length data) \<le> PAGE_SIZE - HEADER_SIZE" "fl_total_pages (ms_freelist st) + 64 \<le> BITMAP_CAPACITY"
  shows "\<exists>st' n slot. write_new_tail crc waiters data txn None st = (None, st', Inr (n, slot)) \<and>
    fl_total_pages (ms_freelist st') \<le> fl_total_pages (ms_freelist st) + 64"
proof -
  from mem_alloc_room [OF assms(1,3)] obtain st1 n where al: "mem_alloc_page crc Data st = (st1, Inr n)" by blast
  obtain q i where i: "insert_tuple crc (page_new crc Data n) data txn = (q, i)" by fastforce
  with insert_tuple_spec [OF page_new_wf i] assms(2) obtain slot where slot: "i = Inr slot"
    by (cases i) (auto simp: page_new_hdr PAGE_SIZE_def HEADER_SIZE_def)
  note a = mem.alloc_inv [OF assms(1) al] mem.alloc_read [OF assms(1) al]
  obtain st2 where w: "mem_write_page crc n (update_checksum crc q) st1 = Inr st2"
    using mem.write_ok [OF a(1), of n, OF _ verify_updated] a(2) by force
  with mem_write_freelist [OF w] al i slot w mem_alloc_total [OF al assms(1)] show ?thesis
    by (simp add: write_new_tail_def batch_alloc_page_def)
qed

lemma full_chain:
  "\<exists>st root. mem_wf crc st \<and> chain_path st root [root] \<and> in_use st root \<and> fl_total_pages (ms_freelist st) \<le> 128 \<and>
     (\<forall>data txn. length data = 300 \<longrightarrow> insert_in_tail crc root data txn st = (st, Inr None))"
proof -
  obtain st root where st: "mem_wf crc st" "root \<noteq> 0" "in_use st root"
    "mem_read_page st root = Inr (page_new crc Data root)" "fl_total_pages (ms_freelist st) \<le> 128"
    using fresh_chain by blast
  let ?p = "page_new crc Data root"
  obtain big :: "u8 list" where big: "length big = 16000" by (rule that [OF length_replicate])
  have al: "align8 (24 + length big) = 16024" by (simp add: big align8_def)
  obtain p r where i: "insert_tuple crc ?p big 9 = (p, r)" by fastforce
  obtain slot where r: "r = Inr slot" using insert_tuple_spec [OF page_new_wf i]
    by (cases r) (simp_all add: page_new_hdr al)
  note i = i [unfolded r]
  let ?q = "update_checksum crc p"
  have room: "unat (hdr_free_end p) - unat (hdr_free_start p) < 320"
    using insert_tuple_effect(4,5) [OF page_new_wf i] by (simp add: page_new_hdr num_slots_def al)
  obtain st1 where w: "mem_write_page crc root ?q st = Inr st1" and wf: "mem_wf crc st1"
    and rd: "\<And>j. mem_read_page st1 j = (if j = root then Inr ?q else mem_read_page st j)" and us: "\<And>j. in_use st1 j = in_use st j"
    using mem.rewrite_page [OF st(1,4) verify_updated] by blast
  have ok: "heap_ok ?q" "chain_next_page ?q = 0" using insert_tuple_next [OF page_new_ok(1) i] page_new_ok(2) by simp_all
  have "insert_in_tail crc root data txn st1 = (st1, Inr None)" if len: "length data = 300" for data txn
  proof -
    obtain st2 r2 where t: "insert_in_tail crc root data txn st1 = (st2, r2)" by fastforce
    have q: "heap_wf ?q" using ok(1) by (simp add: heap_ok_def)
    have "insert_tuple crc ?q data txn \<noteq> (q', Inr slot)" for q' slot
    proof
      assume i: "insert_tuple crc ?q data txn = (q', Inr slot)"
      have "align8 (24 + length data) = 328" by (simp add: len align8_def)
      with insert_tuple_fits(2,3) [OF q i] room heap_wfD(1) [OF q] show False by simp
    qed
    with insert_in_tail_spec [OF wf _ ok(1) t] rd t show ?thesis by auto
  qed
  moreover have "ms_freelist st1 = ms_freelist st" using w by (rule mem_write_freelist)
  ultimately show ?thesis using wf rd us ok st(2,3,5) by (intro exI [of _ st1] exI [of _ root]) simp
qed

theorem lost_insert_witness:
  "\<exists>st root d1 d2 st1 st2 st3 st4 n1 n2 s1 s2.
     insert_in_tail (\<lambda>_. 0) root d1 5 st = (st, Inr None) \<and> insert_in_tail (\<lambda>_. 0) root d2 6 st = (st, Inr None) \<and>
     write_new_tail (\<lambda>_. 0) 0 d1 5 None st = (None, st1, Inr (n1, s1)) \<and>
     write_new_tail (\<lambda>_. 0) 0 d2 6 None st1 = (None, st2, Inr (n2, s2)) \<and>
     link_tail (\<lambda>_. 0) root n1 st2 = Inr st3 \<and> link_tail (\<lambda>_. 0) root n2 st3 = Inr st4 \<and>
     read_row (\<lambda>_. 0) st4 n1 s1 = Inr (Some d1) \<and> n1 \<noteq> n2 \<and>
     (\<exists>rows. scan_visible_ro st root (snapshot_committed 9) = Some (Inr rows) \<and>
       scan_visible_ro st4 root (snapshot_committed 9) = Some (Inr (rows @ [(n2, s2, d2)])))"
proof -
  let ?c = "\<lambda>_ :: u8 list. 0 :: u32"
  obtain st root where st: "mem_wf ?c st" "chain_path st root [root]" "in_use st root" "fl_total_pages (ms_freelist st) \<le> 128"
    "\<forall>data txn. length data = 300 \<longrightarrow> insert_in_tail ?c root data txn st = (st, Inr None)" using full_chain by blast
  obtain d :: "u8 list" where d: "length d = 300" by (rule that [OF length_replicate])
  have fit: "4 + align8 (24 + length d) \<le> PAGE_SIZE - HEADER_SIZE" by (simp add: d align8_def PAGE_SIZE_def HEADER_SIZE_def)
  have cap: "BITMAP_CAPACITY = 130560" by (simp add: BITMAP_CAPACITY_def BITMAP_BODY_BYTES_def)
  obtain st1 n1 s1 where n1: "write_new_tail ?c 0 d 5 None st = (None, st1, Inr (n1, s1))" "fl_total_pages (ms_freelist st1) \<le> 192"
    using new_tail_succeeds [OF st(1) fit, of 0 5] st(4) cap by fastforce
  note a = new_tail_page [OF st(1) n1(1)]
  obtain st2 n2 s2 where n2: "write_new_tail ?c 0 d 6 None st1 = (None, st2, Inr (n2, s2))"
    using new_tail_succeeds [OF a(1) fit, of 0 6] n1(2) cap by fastforce
  note b = new_tail_page [OF a(1) n2]
  obtain p where p: "mem_read_page st root = Inr p" "heap_ok p" using st(2) by auto
  have "mem_read_page st2 root = Inr p" using p(1) a(5,6) b(6) st(3) by simp
  from link_tail_spec [OF b(1) this p(2), of n1] obtain st3 where l1: "link_tail ?c root n1 st2 = Inr st3" "mem_wf ?c st3"
    "mem_read_page st3 root = Inr (update_checksum ?c (chain_set_next_page p n1))" by auto
  from link_tail_spec [OF l1(2,3), of n2] linked_page(1) [OF p(2)] obtain st4 where l2: "link_tail ?c root n2 st3 = Inr st4" by auto
  have use: "\<forall>a \<in> set ([] @ [root]). in_use st a" using st(3) by simp
  have snap: "in_snapshot (snapshot_committed 9) 6" by (simp add: in_snapshot_def snapshot_committed_def saturating_add_def)
  have path: "chain_path st root ([] @ [root])" using st(2) by simp
  have full: "insert_in_tail ?c root d t st = (st, Inr None)" for t using st(5) d by blast
  note lost = lost_insert [OF st(1) path use full full n1(1) n2 l1(1) l2]
  then have "\<exists>rows. scan_visible_ro st root (snapshot_committed 9) = Some (Inr rows) \<and>
      scan_visible_ro st4 root (snapshot_committed 9) = Some (Inr (rows @ (if in_snapshot (snapshot_committed 9) 6 then [(n2, s2, d)] else [])))"
    by blast
  then have "\<exists>rows. scan_visible_ro st root (snapshot_committed 9) = Some (Inr rows) \<and>
      scan_visible_ro st4 root (snapshot_committed 9) = Some (Inr (rows @ [(n2, s2, d)]))"
    unfolding if_P [OF snap] .
  with full n1(1) n2 l1(1) l2 lost show ?thesis by blast
qed

subsection \<open>Single rows and zone maps\<close>

lemma zone_map_cong: "(\<And>a. 36 \<le> a \<Longrightarrow> a < 64 \<Longrightarrow> q a = p a) \<Longrightarrow> zone_skip col zmp q = zone_skip col zmp p"
  by (simp add: zone_skip_def read_zone_map_def zm_offsets get_u64_def read_bytes_def)

lemma checksum_zone [simp]: "zone_skip col zmp (update_checksum crc p) = zone_skip col zmp p"
  by (rule zone_map_cong) (simp add: update_checksum_def byte_put_other)

lemma inserted_visible:
  assumes "heap_wf p" "insert_tuple crc p data txn = (p', Inr slot)" "in_snapshot snap txn"
  shows "(slot, data) \<in> set (List.map_filter (visible_entry p' snap) (slot_ids p'))"
proof -
  note i = insert_tuple_spec [OF assms(1,2), simplified]
  have "visible_entry p' snap slot = Some (slot, data)"
    using i assms(3) by (auto simp: visible_entry_def is_visible_in_snapshot fresh_header_def)
  moreover have "slot_ids p' = slot_ids p @ [slot]" using slot_ids_snoc [OF assms(1), of p'] i by simp
  ultimately show ?thesis by (simp add: map_filter_append map_filter_simps)
qed

text \<open>C33: A single-row insertion does not maintain the zone map. When a filter skips the last page of the
  chain by its zone map, it still skips it after a row was inserted there, whatever the value of
  that row, although every snapshot that contains the inserting transaction sees the row on the
  page.\<close>

theorem stale_zone_map_hides_row:
  assumes "mem_wf crc st" "chain_path st root (as @ [l])" "mem_read_page st l = Inr p" "zone_skip col zmp p"
    "chain_insert crc waiters root data txn batch st = Some (batch', st', Inr (l, slot))"
    "set (as @ [l]) \<subseteq> owned st batch" "batch_inv batch st"
  shows "\<exists>p'. mem_read_page st' l = Inr p' \<and> zone_skip col zmp p' \<and>
    (\<forall>snap. in_snapshot snap txn \<longrightarrow> (\<exists>rows. scan_visible p' snap = Inr rows \<and> (slot, data) \<in> set rows))"
proof -
  from chain_last [OF assms(2)] assms(3) have c: "last_page_id st root = Some (Inr l)" "heap_ok p" "chain_next_page p = 0" by auto
  have wf: "heap_wf p" using c(2) by (simp add: heap_ok_def)
  have i: "insert_at crc waiters l data txn batch st = (batch', st', Inr (l, slot))"
    using assms(5) c(1) by (simp add: chain_insert_def)
  obtain st1 r1 where t: "insert_in_tail crc l data txn st = (st1, r1)" by fastforce
  have "r1 \<noteq> Inr None"
  proof
    assume r1: "r1 = Inr None"
    then have st1: "st1 = st" using insert_in_tail_spec [OF assms(1,3) c(2) t] by auto
    obtain b2 st2 r2 where n: "write_new_tail crc waiters data txn batch st = (b2, st2, r2)" by (metis prod_cases3)
    with i t r1 st1 obtain s2 where "r2 = Inr (l, s2)"
      by (auto simp: insert_at_def split: sum.splits prod.splits)
    with write_new_tail_spec [OF assms(1,7) n] assms(6) show False by auto
  qed
  with insert_in_tail_spec [OF assms(1,3) c(2) t] obtain p' s1 where p': "insert_tuple crc p data txn = (p', Inr s1)"
    and w: "mem_write_page crc l (update_checksum crc p') st = Inr st1" and r1: "r1 = Inr (Some s1)" by auto
  then have eq: "st' = st1" "s1 = slot" using i t by (simp_all add: insert_at_def)
  note ins = insert_tuple_spec [OF wf p', simplified]
  have rd: "mem_read_page st' l = Inr (update_checksum crc p')" using mem.write_read [OF assms(1) w] eq by simp
  have "zone_skip col zmp p' = zone_skip col zmp p"
    by (rule zone_map_cong) (rule insert_tuple_reserved [OF wf p'], simp)
  moreover have "(slot, data) \<in> set (List.map_filter (visible_entry p' snap) (slot_ids p'))" if "in_snapshot snap txn" for snap
    using inserted_visible [OF wf p' that] eq(2) by simp
  ultimately show ?thesis using rd assms(4) ins
    by (intro exI [of _ "update_checksum crc p'"]) (simp add: scan_visible_filter visible_entry_def [abs_def])
qed

lemma zoned_chain:
  "\<exists>st root q. mem_wf crc st \<and> chain_path st root [root] \<and> in_use st root \<and> mem_read_page st root = Inr q \<and>
     zone_skip 0 (ZGt 90) q \<and> 100 \<le> unat (hdr_free_end q) - unat (hdr_free_start q)"
proof -
  obtain st root where st: "mem_wf crc st" "root \<noteq> 0" "in_use st root" "mem_read_page st root = Inr (page_new crc Data root)"
    using fresh_chain by blast
  let ?p = "page_new crc Data root"
  obtain p r where i: "insert_tuple crc ?p [50] 3 = (p, r)" by fastforce
  have n: "num_slots ?p = 0" by (simp add: num_slots_def page_new_hdr)
  have r: "r = Inr 0" using insert_tuple_spec [OF page_new_wf i] n by (cases r) (auto simp: page_new_hdr align8_def)
  note i = i [unfolded r]
  have "?p ZM_VERSION_OFFSET = 0"
    by (simp add: page_new_def Let_def update_checksum_def zm_offsets byte_put_other write_bytes_def)
  then have "p ZM_VERSION_OFFSET = 0" using insert_tuple_reserved [OF page_new_wf i, of ZM_VERSION_OFFSET] by (simp add: zm_offsets)
  then have z: "zone_skip 0 (ZGt 90) (update_zone_map p 0 50)"
    using insert_tuple_spec [OF page_new_wf i] n
    unfolding zone_skip_def read_updated_zone_map by (simp add: read_zone_map_def ZM_VERSION_1_def)
  let ?q = "update_checksum crc (update_zone_map p 0 50)"
  have same: "same_heap p ?q" by (rule same_heap_trans [OF update_zone_map_same same_heap_checksum])
  have room: "100 \<le> unat (hdr_free_end ?q) - unat (hdr_free_start ?q)"
    using insert_tuple_effect(4,5) [OF page_new_wf i] same_heap_hdr(4,5) [OF same] by (simp add: page_new_hdr num_slots_def align8_def)
  have "chain_next_page (update_zone_map p 0 50) = chain_next_page p"
    by (simp add: chain_next_page_def update_zone_map_def zm_offsets Let_def page_simps)
  then have ok: "heap_ok ?q" "chain_next_page ?q = 0"
    using insert_tuple_next [OF page_new_ok(1) i] page_new_ok(2) same_heap_ok [OF same] by simp_all
  obtain st1 where "mem_wf crc st1" "in_use st1 root" "mem_read_page st1 root = Inr ?q"
    using mem.rewrite_page [OF st(1,4) verify_updated, of "update_zone_map p 0 50"] st(3) by force
  with z room ok st(2) show ?thesis by (intro exI [of _ st1] exI [of _ root] exI [of _ ?q]) simp
qed

theorem stale_zone_map_hides_row_witness:
  "\<exists>st root slot st' p'. chain_insert (\<lambda>_. 0) 0 root [95] 7 None st = Some (None, st', Inr (root, slot)) \<and>
     mem_read_page st' root = Inr p' \<and> zone_skip 0 (ZGt 90) p' \<and>
     (\<exists>rows. scan_visible p' (snapshot_committed 9) = Inr rows \<and> (slot, [95]) \<in> set rows)"
proof -
  let ?c = "\<lambda>_ :: u8 list. 0 :: u32"
  obtain st root q where st: "mem_wf ?c st" "chain_path st root [root]" "in_use st root" "mem_read_page st root = Inr q"
    "zone_skip 0 (ZGt 90) q" "100 \<le> unat (hdr_free_end q) - unat (hdr_free_start q)" using zoned_chain by blast
  have path: "chain_path st root ([] @ [root])" using st(2) by simp
  have q: "heap_ok q" using st(2,4) by simp
  obtain st' r where t: "insert_in_tail ?c root [95] 7 st = (st', r)" by fastforce
  with insert_in_tail_spec [OF st(1,4) q t] st(6) obtain slot where r: "r = Inr (Some slot)" by (auto simp: align8_def)
  then have i: "chain_insert ?c 0 root [95] 7 None st = Some (None, st', Inr (root, slot))"
    using chain_last(1) [OF path] t by (simp add: chain_insert_def insert_at_def)
  have own: "set ([] @ [root]) \<subseteq> owned st None" "batch_inv None st" using st(3) by (simp_all add: owned_def batch_inv_def)
  have "in_snapshot (snapshot_committed 9) 7" by (simp add: in_snapshot_def snapshot_committed_def saturating_add_def)
  with stale_zone_map_hides_row [OF st(1) path st(4,5) i own] i show ?thesis by blast
qed

end
