(* ===== verification/Clustered_Leaf.thy ===== *)
theory Clustered_Leaf
  imports Heap_Tuples "HOL-Library.Monad_Syntax" "HOL-Library.List_Lexorder"
begin

text \<open>
  \<open>axiomdb-storage/src/clef_access.rs\<close>, \<open>clef_write.rs\<close>, \<open>clef_modify.rs\<close>: the leaf page of a clustered
  table. Behind a small header in the page body stands an array of cell pointers in the order of
  the keys; the cells fill the body from its end downwards, and the space of removed cells is
  kept in a chain of free blocks. Offsets of cells and free blocks are relative to the body. Walks
  along the free-block chain are \<open>partial_function\<close>s, undefined (\<open>None\<close>) on a cycle; slices out of the page
  are \<open>Panic\<close>.
\<close>

subsection \<open>Sizes\<close>

definition BODY_SIZE :: nat where "BODY_SIZE = PAGE_SIZE - HEADER_SIZE"
definition CL_HEADER_SIZE :: nat where "CL_HEADER_SIZE = 16"
definition CELL_PTR_START :: nat where "CELL_PTR_START = CL_HEADER_SIZE"
definition CELL_PTR_SIZE :: nat where "CELL_PTR_SIZE = 2"
definition CELL_META_SIZE :: nat where "CELL_META_SIZE = 6"
definition ROW_HEADER_SIZE :: nat where "ROW_HEADER_SIZE = 24"
definition OVERFLOW_PTR_SIZE :: nat where "OVERFLOW_PTR_SIZE = 8"
definition MIN_FREEBLOCK :: nat where "MIN_FREEBLOCK = 4"
definition NULL_PAGE :: page_id where "NULL_PAGE = - 1"

lemmas cl_sizes = BODY_SIZE_def CL_HEADER_SIZE_def CELL_PTR_START_def CELL_PTR_SIZE_def CELL_META_SIZE_def
  ROW_HEADER_SIZE_def OVERFLOW_PTR_SIZE_def MIN_FREEBLOCK_def PAGE_SIZE_def HEADER_SIZE_def

definition max_inline_key_bytes :: nat where
  "max_inline_key_bytes = BODY_SIZE - CL_HEADER_SIZE - CELL_PTR_SIZE - CELL_META_SIZE - ROW_HEADER_SIZE"

definition max_overflow_key_bytes :: nat where
  "max_overflow_key_bytes = max_inline_key_bytes - OVERFLOW_PTR_SIZE"

definition page_capacity_bytes :: nat where
  "page_capacity_bytes = BODY_SIZE - CL_HEADER_SIZE"

definition max_inline_row_bytes :: "nat \<Rightarrow> nat option" where
  "max_inline_row_bytes key_len =
     (let overflow_fixed = CELL_PTR_SIZE + CELL_META_SIZE + ROW_HEADER_SIZE + key_len + OVERFLOW_PTR_SIZE;
          quarter_target = page_capacity_bytes div 4;
          local_budget = quarter_target - overflow_fixed
      in if overflow_fixed > page_capacity_bytes then None else Some local_budget)"

definition local_row_len :: "nat \<Rightarrow> nat \<Rightarrow> nat" where
  "local_row_len key_len total_row_len =
     (case max_inline_row_bytes key_len of Some budget \<Rightarrow> min total_row_len budget | None \<Rightarrow> 0)"

definition requires_overflow :: "nat \<Rightarrow> nat \<Rightarrow> bool" where
  "requires_overflow key_len total_row_len \<longleftrightarrow> local_row_len key_len total_row_len < total_row_len"

definition cell_footprint :: "nat \<Rightarrow> nat \<Rightarrow> nat" where
  "cell_footprint key_len total_row_len =
     (let local_len = local_row_len key_len total_row_len;
          overflow = (if total_row_len > local_len then OVERFLOW_PTR_SIZE else 0)
      in CELL_PTR_SIZE + CELL_META_SIZE + ROW_HEADER_SIZE + key_len + local_len + overflow)"

definition fits_inline :: "nat \<Rightarrow> nat \<Rightarrow> bool" where
  "fits_inline key_len row_len \<longleftrightarrow> cell_footprint key_len row_len \<le> page_capacity_bytes"

subsection \<open>Header and cell pointers\<close>

definition num_cells :: "page \<Rightarrow> u16" where "num_cells p = get_u16 p (HEADER_SIZE + 2)"
definition set_num_cells :: "page \<Rightarrow> u16 \<Rightarrow> page" where "set_num_cells p n = put_u16 p (HEADER_SIZE + 2) n"
definition cell_content_start :: "page \<Rightarrow> u16" where "cell_content_start p = get_u16 p (HEADER_SIZE + 4)"
definition set_cell_content_start :: "page \<Rightarrow> u16 \<Rightarrow> page" where "set_cell_content_start p v = put_u16 p (HEADER_SIZE + 4) v"
definition freeblock_offset :: "page \<Rightarrow> u16" where "freeblock_offset p = get_u16 p (HEADER_SIZE + 6)"
definition set_freeblock_offset :: "page \<Rightarrow> u16 \<Rightarrow> page" where "set_freeblock_offset p v = put_u16 p (HEADER_SIZE + 6) v"
definition next_leaf :: "page \<Rightarrow> page_id" where "next_leaf p = get_u64 p (HEADER_SIZE + 8)"
definition set_next_leaf :: "page \<Rightarrow> page_id \<Rightarrow> page" where "set_next_leaf p pid = put_u64 p (HEADER_SIZE + 8) pid"

lemmas cl_header_defs = num_cells_def set_num_cells_def cell_content_start_def set_cell_content_start_def
  freeblock_offset_def set_freeblock_offset_def next_leaf_def set_next_leaf_def

definition cell_ptr_abs :: "nat \<Rightarrow> nat" where
  "cell_ptr_abs i = HEADER_SIZE + CELL_PTR_START + i * CELL_PTR_SIZE"

definition cell_ptr_at :: "page \<Rightarrow> nat \<Rightarrow> db_error + u16" where
  "cell_ptr_at p i = (if cell_ptr_abs i + 2 \<le> PAGE_SIZE then Inr (get_u16 p (cell_ptr_abs i)) else Inl Panic)"

definition set_cell_ptr_at :: "page \<Rightarrow> nat \<Rightarrow> u16 \<Rightarrow> page" where
  "set_cell_ptr_at p i off = put_u16 p (cell_ptr_abs i) off"

definition cell_ptr_array_end :: "page \<Rightarrow> nat" where
  "cell_ptr_array_end p = CELL_PTR_START + unat (num_cells p) * CELL_PTR_SIZE"

subsection \<open>Reading cells\<close>

record cl_cell =
  cc_key :: "u8 list"
  cc_header :: row_header
  cc_total_row_len :: nat
  cc_row_data :: "u8 list"
  cc_overflow :: "page_id option"

text \<open>The size of a cell with the given metadata.\<close>

definition cell_len :: "nat \<Rightarrow> nat \<Rightarrow> nat" where
  "cell_len key_len total_row_len =
     (let local_len = local_row_len key_len total_row_len;
          overflow = (if total_row_len > local_len then OVERFLOW_PTR_SIZE else 0)
      in CELL_META_SIZE + ROW_HEADER_SIZE + key_len + local_len + overflow)"

definition cell_size_at :: "page \<Rightarrow> u16 \<Rightarrow> db_error + nat" where
  "cell_size_at p body_off =
     (let abs = HEADER_SIZE + unat body_off in
      if PAGE_SIZE < abs + 6 then Inl Panic
      else Inr (cell_len (unat (get_u16 p abs)) (unat (get_u32 p (abs + 2)))))"

definition cell_key_at :: "page \<Rightarrow> u16 \<Rightarrow> db_error + u8 list" where
  "cell_key_at p body_off =
     (let abs = HEADER_SIZE + unat body_off in
      if PAGE_SIZE < abs + 2 then Inl Panic
      else
        let key_len = unat (get_u16 p abs); key_start = abs + CELL_META_SIZE + ROW_HEADER_SIZE in
        if PAGE_SIZE < key_start + key_len then Inl Panic else Inr (read_bytes p key_start key_len))"

definition read_cell_at_offset :: "page \<Rightarrow> u16 \<Rightarrow> db_error + cl_cell" where
  "read_cell_at_offset p body_off =
     (let abs = HEADER_SIZE + unat body_off in
      if PAGE_SIZE < abs + CELL_META_SIZE + ROW_HEADER_SIZE then Inl (OtherError ''clustered_leaf: cell header truncated'')
      else
        let key_len = unat (get_u16 p abs); total_row_len = unat (get_u32 p (abs + 2));
            hdr_start = abs + CELL_META_SIZE; key_start = hdr_start + ROW_HEADER_SIZE; row_start = key_start + key_len;
            local_len = local_row_len key_len total_row_len; row_end = row_start + local_len;
            overflow_end = row_end + (if total_row_len > local_len then OVERFLOW_PTR_SIZE else 0)
        in if PAGE_SIZE < overflow_end then Inl (OtherError ''clustered_leaf: cell data truncated'')
           else Inr \<lparr>cc_key = read_bytes p key_start key_len, cc_header = row_header_of (read_bytes p hdr_start ROW_HEADER_SIZE),
             cc_total_row_len = total_row_len, cc_row_data = read_bytes p row_start local_len,
             cc_overflow = (if total_row_len > local_len then Some (get_u64 p row_end) else None)\<rparr>)"

definition read_cell :: "page \<Rightarrow> nat \<Rightarrow> db_error + cl_cell" where
  "read_cell p idx =
     (if unat (num_cells p) \<le> idx then Inl (OtherError ''clustered_leaf: cell index out of range'')
      else ebind (cell_ptr_at p idx) (read_cell_at_offset p))"

primrec row_headers_from :: "page \<Rightarrow> nat list \<Rightarrow> db_error + row_header list" where
  "row_headers_from p [] = Inr []"
| "row_headers_from p (i # rest) =
     ebind (cell_ptr_at p i) (\<lambda>body_off.
       let hdr_abs = HEADER_SIZE + unat body_off + CELL_META_SIZE in
       if PAGE_SIZE < hdr_abs + ROW_HEADER_SIZE then Inl (OtherError ''clustered_leaf: row header truncated'')
       else ebind (row_headers_from p rest) (\<lambda>hs. Inr (row_header_of (read_bytes p hdr_abs ROW_HEADER_SIZE) # hs)))"

text \<open>The headers that the callback of \<open>for_each_row_header\<close> is called with.\<close>

definition for_each_row_header :: "page \<Rightarrow> db_error + row_header list" where
  "for_each_row_header p = row_headers_from p [0..<unat (num_cells p)]"

definition init_clustered_leaf :: "page \<Rightarrow> page" where
  "init_clustered_leaf p =
     (let p1 = put_u8 p 8 (page_type_byte ClusteredLeaf);
          p2 = put_u8 (put_u8 p1 HEADER_SIZE 1) (HEADER_SIZE + 1) 0
      in set_next_leaf (set_freeblock_offset (set_cell_content_start (set_num_cells p2 0) (word_of_nat BODY_SIZE)) 0) NULL_PAGE)"

subsection \<open>Binary search\<close>

datatype search_result = Found nat | NotFound nat

function search_loop :: "page \<Rightarrow> u8 list \<Rightarrow> nat \<Rightarrow> nat \<Rightarrow> db_error + search_result" where
  "search_loop p key lo hi =
     (if lo < hi then
        let mid = lo + (hi - lo) div 2 in
        ebind (cell_ptr_at p mid) (\<lambda>cell_off.
          ebind (cell_key_at p cell_off) (\<lambda>cell_key.
            if cell_key = key then Inr (Found mid)
            else if cell_key < key then search_loop p key (mid + 1) hi
            else search_loop p key lo mid))
      else Inr (NotFound lo))"
  by pat_completeness auto
termination
  by (relation "measure (\<lambda>(p, key, lo, hi). hi - lo)") auto

declare search_loop.simps [simp del]

definition search :: "page \<Rightarrow> u8 list \<Rightarrow> db_error + search_result" where
  "search p key =
     (let n = unat (num_cells p) in if n = 0 then Inr (NotFound 0) else search_loop p key 0 n)"

subsection \<open>Space\<close>

definition gap_space :: "page \<Rightarrow> nat" where
  "gap_space p = unat (cell_content_start p) - cell_ptr_array_end p"

partial_function (option) freeblock_sum :: "page \<Rightarrow> u16 \<Rightarrow> nat \<Rightarrow> nat option" where
  "freeblock_sum p fb_off tot =
     (if fb_off = 0 then Some tot
      else
        let abs = HEADER_SIZE + unat fb_off in
        if PAGE_SIZE < abs + MIN_FREEBLOCK then Some tot
        else freeblock_sum p (get_u16 p abs) (tot + unat (get_u16 p (abs + 2))))"

definition total_freeblock_space :: "page \<Rightarrow> nat option" where
  "total_freeblock_space p = freeblock_sum p (freeblock_offset p) 0"

definition cl_free_space :: "page \<Rightarrow> nat option" where
  "cl_free_space p = total_freeblock_space p \<bind> (\<lambda>fb. Some (gap_space p + fb))"

definition add_freeblock :: "page \<Rightarrow> u16 \<Rightarrow> nat \<Rightarrow> page \<times> (db_error + unit)" where
  "add_freeblock p body_off sz =
     (if sz < MIN_FREEBLOCK then (p, Inr ())
      else
        let old_head = freeblock_offset p; abs = HEADER_SIZE + unat body_off in
        if PAGE_SIZE < abs + sz then (p, Inl Panic)
        else
          let p1 = put_u16 (put_u16 p abs old_head) (abs + 2) (word_of_nat sz);
              p2 = write_bytes p1 (abs + MIN_FREEBLOCK) (replicate (sz - MIN_FREEBLOCK) 0)
          in (set_freeblock_offset p2 body_off, Inr ()))"

text \<open>Where the link to a free block is stored: in its predecessor or in the header.\<close>

definition set_link :: "page \<Rightarrow> u16 option \<Rightarrow> u16 \<Rightarrow> page" where
  "set_link p prev v =
     (case prev of
        Some q \<Rightarrow> put_u16 p (HEADER_SIZE + unat q) v
      | None \<Rightarrow> set_freeblock_offset p v)"

partial_function (option) freeblock_loop ::
  "nat \<Rightarrow> page \<Rightarrow> u16 option \<Rightarrow> u16 \<Rightarrow> (page \<times> (db_error + u16 option)) option" where
  "freeblock_loop sz p prev fb_off =
     (if fb_off = 0 then Some (p, Inr None)
      else
        let abs = HEADER_SIZE + unat fb_off in
        if PAGE_SIZE < abs + MIN_FREEBLOCK then Some (p, Inr None)
        else
          let nxt = get_u16 p abs; block_size = unat (get_u16 p (abs + 2)) in
          if sz \<le> block_size then
            let remainder = block_size - sz in
            if MIN_FREEBLOCK \<le> remainder then
              let new_fb_off = fb_off + word_of_nat sz; new_abs = HEADER_SIZE + unat new_fb_off in
              if PAGE_SIZE < new_abs + 4 then Some (p, Inl Panic)
              else Some (set_link (put_u16 (put_u16 p new_abs nxt) (new_abs + 2) (word_of_nat remainder)) prev new_fb_off,
                     Inr (Some fb_off))
            else Some (set_link p prev nxt, Inr (Some fb_off))
          else freeblock_loop sz p (Some fb_off) nxt)"

definition allocate_from_freeblocks :: "page \<Rightarrow> nat \<Rightarrow> (page \<times> (db_error + u16 option)) option" where
  "allocate_from_freeblocks p sz = freeblock_loop sz p None (freeblock_offset p)"

subsection \<open>Cell images\<close>

definition validate_cell_descriptor :: "u8 list \<Rightarrow> nat \<Rightarrow> u8 list \<Rightarrow> page_id option \<Rightarrow> db_error + unit" where
  "validate_cell_descriptor key total_row_len local_row_data overflow_first_page =
     (if length key > 65535 then Inl (KeyTooLong (length key) 65535)
      else if total_row_len > 2 ^ 32 - 1 then Inl (ValueTooLarge total_row_len (2 ^ 32 - 1))
      else
        let expected_local_len = local_row_len (length key) total_row_len in
        if length local_row_data \<noteq> expected_local_len
        then Inl (OtherError ''clustered_leaf: descriptor local length mismatch'')
        else if (total_row_len > expected_local_len) \<noteq> (overflow_first_page \<noteq> None)
        then Inl (OtherError ''clustered_leaf: descriptor overflow mismatch'')
        else if cell_footprint (length key) total_row_len > page_capacity_bytes
        then Inl (HeapPageFull 0 (cell_footprint (length key) total_row_len) page_capacity_bytes)
        else Inr ())"

text \<open>The bytes of a cell, written piece by piece by \<open>insert_cell_with_overflow\<close> and as an image by
  \<open>encode_cell_image\<close>.\<close>

definition cell_bytes :: "u8 list \<Rightarrow> row_header \<Rightarrow> nat \<Rightarrow> u8 list \<Rightarrow> page_id option \<Rightarrow> u8 list" where
  "cell_bytes key h total_row_len local_row_data overflow_first_page =
     u16_le (word_of_nat (length key)) @ u32_le (word_of_nat total_row_len) @ row_header_bytes h @ key @ local_row_data @
     (case overflow_first_page of Some pid \<Rightarrow> u64_le pid | None \<Rightarrow> [])"

definition encode_cell_image :: "u8 list \<Rightarrow> row_header \<Rightarrow> nat \<Rightarrow> u8 list \<Rightarrow> page_id option \<Rightarrow> db_error + u8 list" where
  "encode_cell_image key h total_row_len local_row_data overflow_first_page =
     ebind (validate_cell_descriptor key total_row_len local_row_data overflow_first_page) (\<lambda>_.
       Inr (cell_bytes key h total_row_len local_row_data overflow_first_page))"

definition cell_image_at :: "page \<Rightarrow> u16 \<Rightarrow> db_error + u8 list" where
  "cell_image_at p body_off =
     ebind (cell_size_at p body_off) (\<lambda>sz.
       let abs = HEADER_SIZE + unat body_off in
       if PAGE_SIZE < abs + sz then Inl (OtherError ''clustered_leaf: cell image extends beyond page boundary'')
       else Inr (read_bytes p abs sz))"

definition write_cell_image :: "page \<Rightarrow> u16 \<Rightarrow> u8 list \<Rightarrow> db_error + page" where
  "write_cell_image p body_off img =
     (let abs = HEADER_SIZE + unat body_off in
      if PAGE_SIZE < abs + length img then Inl Panic else Inr (write_bytes p abs img))"

subsection \<open>Inserting and removing cells\<close>

text \<open>The space for a cell: a free block if one is large enough, else the gap. The pointer always comes
  from the gap.\<close>

definition reserve_cell :: "page \<Rightarrow> nat \<Rightarrow> (page \<times> (db_error + u16)) option" where
  "reserve_cell p cell_size =
     allocate_from_freeblocks p cell_size \<bind> (\<lambda>(p1, r). case r of
         Inl e \<Rightarrow> Some (p1, Inl e)
       | Inr (Some fb_off) \<Rightarrow>
           if gap_space p1 < CELL_PTR_SIZE then Some (p1, Inl (HeapPageFull (hdr_page_id p1) CELL_PTR_SIZE (gap_space p1)))
           else Some (p1, Inr fb_off)
       | Inr None \<Rightarrow>
           let total_need = cell_size + CELL_PTR_SIZE; gap = gap_space p1 in
           if gap < total_need then Some (p1, Inl (HeapPageFull (hdr_page_id p1) total_need gap))
           else
             let new_start = unat (cell_content_start p1) - cell_size in
             Some (set_cell_content_start p1 (word_of_nat new_start), Inr (word_of_nat new_start)))"

definition copy_within :: "page \<Rightarrow> nat \<Rightarrow> nat \<Rightarrow> nat \<Rightarrow> db_error + page" where
  "copy_within p src count dst =
     (if count = 0 then Inr p
      else if PAGE_SIZE < src + count \<or> PAGE_SIZE < dst + count then Inl Panic
      else Inr (write_bytes p dst (read_bytes p src count)))"

definition insert_cell_with_overflow ::
  "page \<Rightarrow> nat \<Rightarrow> u8 list \<Rightarrow> row_header \<Rightarrow> nat \<Rightarrow> u8 list \<Rightarrow> page_id option \<Rightarrow> (page \<times> (db_error + unit)) option" where
  "insert_cell_with_overflow p pos key h total_row_len local_row_data overflow_first_page =
     (case validate_cell_descriptor key total_row_len local_row_data overflow_first_page of
        Inl e \<Rightarrow> Some (p, Inl e)
      | Inr _ \<Rightarrow>
          let img = cell_bytes key h total_row_len local_row_data overflow_first_page;
              n = unat (num_cells p)
          in if n < pos then Some (p, Inl (OtherError ''clustered_leaf: insert pos > num_cells''))
             else reserve_cell p (length img) \<bind> (\<lambda>(p1, r). case r of
                 Inl e \<Rightarrow> Some (p1, Inl e)
               | Inr cell_offset \<Rightarrow>
                   (case ebind (write_cell_image p1 cell_offset img) (\<lambda>p2.
                      copy_within p2 (cell_ptr_abs pos) ((n - pos) * CELL_PTR_SIZE) (cell_ptr_abs (pos + 1))) of
                      Inl e \<Rightarrow> Some (p1, Inl e)
                    | Inr p3 \<Rightarrow>
                        if PAGE_SIZE < cell_ptr_abs pos + 2 then Some (p3, Inl Panic)
                        else Some (set_num_cells (set_cell_ptr_at p3 pos cell_offset) (word_of_nat (n + 1)), Inr ()))))"

definition insert_cell :: "page \<Rightarrow> nat \<Rightarrow> u8 list \<Rightarrow> row_header \<Rightarrow> u8 list \<Rightarrow> (page \<times> (db_error + unit)) option" where
  "insert_cell p pos key h row_data =
     (if requires_overflow (length key) (length row_data)
      then Some (p, Inl (ValueTooLarge (length row_data) (case max_inline_row_bytes (length key) of Some b \<Rightarrow> b | None \<Rightarrow> 0)))
      else insert_cell_with_overflow p pos key h (length row_data) row_data None)"

definition remove_cell :: "page \<Rightarrow> nat \<Rightarrow> page \<times> (db_error + unit)" where
  "remove_cell p pos =
     (let n = unat (num_cells p) in
      if n \<le> pos then (p, Inl (OtherError ''clustered_leaf: remove pos >= num_cells''))
      else
        case ebind (cell_ptr_at p pos) (\<lambda>body_off. ebind (cell_size_at p body_off) (\<lambda>csize. Inr (body_off, csize))) of
          Inl e \<Rightarrow> (p, Inl e)
        | Inr (body_off, csize) \<Rightarrow>
            (case add_freeblock p body_off csize of
               (p1, Inl e) \<Rightarrow> (p1, Inl e)
             | (p1, Inr _) \<Rightarrow>
                 (case copy_within p1 (cell_ptr_abs (pos + 1)) ((n - 1 - pos) * CELL_PTR_SIZE) (cell_ptr_abs pos) of
                    Inl e \<Rightarrow> (p1, Inl e)
                  | Inr p2 \<Rightarrow> (set_num_cells p2 (word_of_nat (n - 1)), Inr ()))))"

subsection \<open>Rewriting and patching cells\<close>

primrec collect_cells_from :: "page \<Rightarrow> nat list \<Rightarrow> db_error + cl_cell list" where
  "collect_cells_from p [] = Inr []"
| "collect_cells_from p (i # rest) =
     ebind (read_cell p i) (\<lambda>c. ebind (collect_cells_from p rest) (\<lambda>cs. Inr (c # cs)))"

definition collect_cells :: "page \<Rightarrow> db_error + cl_cell list" where
  "collect_cells p = collect_cells_from p [0..<unat (num_cells p)]"

text \<open>Filling a fresh page with cells; \<open>False\<close> means that they do not fit.\<close>

primrec rebuild_cells :: "page \<Rightarrow> nat \<Rightarrow> cl_cell list \<Rightarrow> (page \<times> (db_error + bool)) option" where
  "rebuild_cells p idx [] = Some (p, Inr True)"
| "rebuild_cells p idx (c # cs) =
     insert_cell_with_overflow p idx (cc_key c) (cc_header c) (cc_total_row_len c) (cc_row_data c) (cc_overflow c) \<bind>
       (\<lambda>(p', r). case r of
          Inr _ \<Rightarrow> rebuild_cells p' (idx + 1) cs
        | Inl e \<Rightarrow> (case e of HeapPageFull _ _ _ \<Rightarrow> Some (p', Inr False) | _ \<Rightarrow> Some (p', Inl e)))"

definition rewrite_cell_same_key_with_overflow ::
  "checksum \<Rightarrow> page \<Rightarrow> nat \<Rightarrow> u8 list \<Rightarrow> row_header \<Rightarrow> nat \<Rightarrow> u8 list \<Rightarrow> page_id option \<Rightarrow>
   (page \<times> (db_error + u8 list option)) option" where
  "rewrite_cell_same_key_with_overflow crc p pos expected_key h total_row_len local_row_data overflow_first_page =
     (case validate_cell_descriptor expected_key total_row_len local_row_data overflow_first_page of
        Inl e \<Rightarrow> Some (p, Inl e)
      | Inr _ \<Rightarrow>
          if unat (num_cells p) \<le> pos then Some (p, Inl (OtherError ''clustered_leaf: rewrite pos >= num_cells''))
          else
            case ebind (cell_ptr_at p pos) (\<lambda>body_off. ebind (cell_size_at p body_off) (\<lambda>old_size.
                   ebind (read_cell p pos) (\<lambda>old_cell.
                     if cc_key old_cell \<noteq> expected_key then Inl (BTreeCorrupted ''clustered_leaf rewrite key mismatch'')
                     else ebind (cell_image_at p body_off) (\<lambda>old_image. Inr (body_off, old_size, old_image))))) of
              Inl e \<Rightarrow> Some (p, Inl e)
            | Inr (body_off, old_size, old_image) \<Rightarrow>
                let new_image = cell_bytes expected_key h total_row_len local_row_data overflow_first_page;
                    new_size = length new_image
                in if new_size \<le> old_size then
                     (case write_cell_image p body_off new_image of
                        Inl e \<Rightarrow> Some (p, Inl e)
                      | Inr p1 \<Rightarrow>
                          if new_size < old_size then
                            let free_off = body_off + word_of_nat new_size;
                                p2 = write_bytes p1 (HEADER_SIZE + unat free_off) (replicate (old_size - new_size) 0)
                            in case add_freeblock p2 free_off (old_size - new_size) of
                                 (p3, Inl e) \<Rightarrow> Some (p3, Inl e)
                               | (p3, Inr _) \<Rightarrow> Some (p3, Inr (Some old_image))
                          else Some (p1, Inr (Some old_image)))
                   else
                     case collect_cells p of
                       Inl e \<Rightarrow> Some (p, Inl e)
                     | Inr cells \<Rightarrow>
                         let cells' = cells[pos := \<lparr>cc_key = expected_key, cc_header = h, cc_total_row_len = total_row_len,
                               cc_row_data = local_row_data, cc_overflow = overflow_first_page\<rparr>];
                             fresh = set_next_leaf (init_clustered_leaf (page_new crc ClusteredLeaf (hdr_page_id p))) (next_leaf p)
                         in rebuild_cells fresh 0 cells' \<bind> (\<lambda>(rebuilt, r). case r of
                                Inl e \<Rightarrow> Some (p, Inl e)
                              | Inr False \<Rightarrow> Some (p, Inr None)
                              | Inr True \<Rightarrow> Some (rebuilt, Inr (Some old_image))))"

definition rewrite_cell_same_key ::
  "checksum \<Rightarrow> page \<Rightarrow> nat \<Rightarrow> u8 list \<Rightarrow> row_header \<Rightarrow> u8 list \<Rightarrow> (page \<times> (db_error + u8 list option)) option" where
  "rewrite_cell_same_key crc p pos expected_key h row_data =
     (if requires_overflow (length expected_key) (length row_data)
      then Some (p, Inl (ValueTooLarge (length row_data) (case max_inline_row_bytes (length expected_key) of Some b \<Rightarrow> b | None \<Rightarrow> 0)))
      else rewrite_cell_same_key_with_overflow crc p pos expected_key h (length row_data) row_data None)"

definition patch_txn_id_deleted :: "page \<Rightarrow> nat \<Rightarrow> u64 \<Rightarrow> page \<times> (db_error + u64)" where
  "patch_txn_id_deleted p idx new_txn_id_deleted =
     (if unat (num_cells p) \<le> idx then (p, Inl (OtherError ''clustered_leaf: patch idx >= num_cells''))
      else case cell_ptr_at p idx of
             Inl e \<Rightarrow> (p, Inl e)
           | Inr body_off \<Rightarrow>
               let off = HEADER_SIZE + unat body_off + CELL_META_SIZE + 8 in
               if PAGE_SIZE < off + 8 then (p, Inl Panic)
               else (put_u64 p off new_txn_id_deleted, Inr (get_u64 p off)))"

definition cell_row_data_abs_off :: "page \<Rightarrow> nat \<Rightarrow> db_error + nat \<times> nat" where
  "cell_row_data_abs_off p cell_idx =
     (if unat (num_cells p) \<le> cell_idx then Inl (OtherError ''clustered_leaf: cell_row_data_abs_off idx >= num_cells'')
      else ebind (cell_ptr_at p cell_idx) (\<lambda>body_off.
        let abs = HEADER_SIZE + unat body_off in
        if PAGE_SIZE < abs + CELL_META_SIZE then Inl (OtherError ''clustered_leaf: cell header truncated in cell_row_data_abs_off'')
        else
          let key_len = unat (get_u16 p abs); row_data_abs = abs + CELL_META_SIZE + ROW_HEADER_SIZE + key_len in
          if PAGE_SIZE < row_data_abs then Inl (OtherError ''clustered_leaf: row_data_abs_off exceeds PAGE_SIZE'')
          else Inr (row_data_abs, key_len)))"

definition patch_field_in_place :: "page \<Rightarrow> nat \<Rightarrow> u8 list \<Rightarrow> db_error + page" where
  "patch_field_in_place p field_abs_off new_bytes =
     (if PAGE_SIZE < field_abs_off + length new_bytes then Inl (OtherError ''patch_field_in_place: field exceeds PAGE_SIZE'')
      else Inr (write_bytes p field_abs_off new_bytes))"

definition update_row_header_in_place :: "page \<Rightarrow> nat \<Rightarrow> row_header \<Rightarrow> db_error + page" where
  "update_row_header_in_place p cell_idx new_header =
     (if unat (num_cells p) \<le> cell_idx then Inl (OtherError ''update_row_header_in_place: cell_idx >= num_cells'')
      else ebind (cell_ptr_at p cell_idx) (\<lambda>body_off.
        let hdr_abs = HEADER_SIZE + unat body_off + CELL_META_SIZE in
        if PAGE_SIZE < hdr_abs + ROW_HEADER_SIZE then Inl (OtherError ''update_row_header_in_place: header slot exceeds PAGE_SIZE'')
        else Inr (write_bytes p hdr_abs (row_header_bytes new_header))))"

subsection \<open>Defragmentation\<close>

primrec cell_images :: "page \<Rightarrow> nat list \<Rightarrow> db_error + u8 list list" where
  "cell_images p [] = Inr []"
| "cell_images p (i # rest) =
     ebind (cell_ptr_at p i) (\<lambda>off. ebind (cell_size_at p off) (\<lambda>sz.
       if PAGE_SIZE < HEADER_SIZE + unat off + sz then Inl Panic
       else ebind (cell_images p rest) (\<lambda>imgs. Inr (read_bytes p (HEADER_SIZE + unat off) sz # imgs))))"

text \<open>Writing the images from the end of the body downwards, the last one first; returns the lowest
  offset and the offsets of all images.\<close>

primrec place_images :: "u8 list list \<Rightarrow> page \<Rightarrow> db_error + page \<times> nat \<times> nat list" where
  "place_images [] p = Inr (p, BODY_SIZE, [])"
| "place_images (img # imgs) p =
     ebind (place_images imgs p) (\<lambda>(p', write_pos, offs).
       if write_pos < length img then Inl Panic
       else
         let write_pos' = write_pos - length img in
         Inr (write_bytes p' (HEADER_SIZE + write_pos') img, write_pos', write_pos' # offs))"

primrec set_cell_ptrs :: "page \<Rightarrow> nat \<Rightarrow> nat list \<Rightarrow> page" where
  "set_cell_ptrs p i [] = p"
| "set_cell_ptrs p i (off # offs) = set_cell_ptrs (set_cell_ptr_at p i (word_of_nat off)) (i + 1) offs"

definition defragment :: "page \<Rightarrow> db_error + page" where
  "defragment p =
     (let n = unat (num_cells p) in
      if n = 0 then Inr (set_freeblock_offset (set_cell_content_start p (word_of_nat BODY_SIZE)) 0)
      else ebind (cell_images p [0..<n]) (\<lambda>imgs.
        ebind (place_images imgs p) (\<lambda>(p', write_pos, offs).
          Inr (set_freeblock_offset (set_cell_content_start (set_cell_ptrs p' 0 offs) (word_of_nat write_pos)) 0))))"

end
