(* ===== verification/Txn_Undo.thy ===== *)
theory Txn_Undo
  imports Txn_Manager Chain_Scan Clustered_Leaf
begin

text \<open>
  \<open>axiomdb-wal/src/txn_rollback.rs\<close> and the page releases of \<open>txn_begin_commit.rs\<close>: undoing the changes of a
  transaction, as a whole or back to a savepoint. The functions of the clustered tree that the undo
  calls (\<open>storage/src/clustered_tree\<close>) are the fields of a record. The two undo loops of the source differ
  in the word for the stage in their error texts only.
\<close>

record tree_ops =
  delete_physical_by_key :: "mem_storage \<Rightarrow> page_id \<Rightarrow> u8 list \<Rightarrow> mem_storage \<times> (db_error + page_id option)"
  restore_exact_row_image :: "mem_storage \<Rightarrow> page_id \<Rightarrow> u8 list \<Rightarrow> row_header \<Rightarrow> u8 list \<Rightarrow> mem_storage \<times> (db_error + page_id)"
  descend_to_leaf :: "mem_storage \<Rightarrow> page_id \<Rightarrow> u8 list \<Rightarrow> db_error + page"
  lookup_physical_row :: "mem_storage \<Rightarrow> page_id \<Rightarrow> u8 list \<Rightarrow> db_error + u8 list option"

type_synonym undo_result = "(u32 \<rightharpoonup> page_id) \<times> mem_storage \<times> (db_error + unit)"

definition clustered_root_for_undo :: "(u32 \<rightharpoonup> page_id) \<Rightarrow> u32 \<Rightarrow> db_error + page_id" where
  "clustered_root_for_undo roots table_id =
     (case roots table_id of
        None \<Rightarrow> Inl (BTreeCorrupted ''clustered missing current root'')
      | Some r \<Rightarrow> Inr r)"

text \<open>Read a page, change it, write it back if the change succeeded.\<close>

definition edit_page :: "checksum \<Rightarrow> page_id \<Rightarrow> (page \<Rightarrow> page \<times> (db_error + unit)) \<Rightarrow> mem_storage \<Rightarrow> mem_storage \<times> (db_error + unit)" where
  "edit_page crc pid f st =
     (case load_page crc st pid of
        Inl e \<Rightarrow> (st, Inl e)
      | Inr page \<Rightarrow>
          (case f page of
             (_, Inl e) \<Rightarrow> (st, Inl e)
           | (page', Inr _) \<Rightarrow>
               (case mem_write_page crc pid page' st of
                  Inl e \<Rightarrow> (st, Inl e)
                | Inr st' \<Rightarrow> (st', Inr ()))))"

text \<open>The undo of a lightweight deletion and of a field patch: find the leaf, patch the cell if the key
  is there, and write the leaf back under its own page number.\<close>

definition write_leaf :: "checksum \<Rightarrow> page \<Rightarrow> mem_storage \<Rightarrow> mem_storage \<times> (db_error + unit)" where
  "write_leaf crc page st =
     (case mem_write_page crc (hdr_page_id page) (update_checksum crc page) st of
        Inl e \<Rightarrow> (st, Inl e)
      | Inr st' \<Rightarrow> (st', Inr ()))"

definition undo_undelete :: "checksum \<Rightarrow> tree_ops \<Rightarrow> page_id \<Rightarrow> u8 list \<Rightarrow> mem_storage \<Rightarrow> mem_storage \<times> (db_error + unit)" where
  "undo_undelete crc ops root key st =
     (case ebind (descend_to_leaf ops st root key) (\<lambda>leaf. ebind (search leaf key) (\<lambda>s. Inr (leaf, s))) of
        Inl e \<Rightarrow> (st, Inl e)
      | Inr (leaf, NotFound _) \<Rightarrow> (st, Inr ())
      | Inr (leaf, Found pos) \<Rightarrow>
          (case patch_txn_id_deleted leaf pos 0 of
             (page, Inl Panic) \<Rightarrow> (st, Inl Panic)
           | (page, _) \<Rightarrow> write_leaf crc page st))"

primrec patch_deltas :: "nat \<Rightarrow> field_delta list \<Rightarrow> page \<Rightarrow> db_error + page" where
  "patch_deltas base [] page = Inr page"
| "patch_deltas base (d # ds) page =
     (if length (fd_old_bytes d) < unat (fd_size d) then Inl Panic
      else ebind (patch_field_in_place page (base + unat (fd_offset d)) (take (unat (fd_size d)) (fd_old_bytes d)))
        (patch_deltas base ds))"

definition undo_field_patch ::
  "checksum \<Rightarrow> tree_ops \<Rightarrow> page_id \<Rightarrow> u8 list \<Rightarrow> row_header \<Rightarrow> field_delta list \<Rightarrow> mem_storage \<Rightarrow> mem_storage \<times> (db_error + unit)" where
  "undo_field_patch crc ops root key old_header deltas st =
     (case ebind (descend_to_leaf ops st root key) (\<lambda>leaf. ebind (search leaf key) (\<lambda>s. Inr (leaf, s))) of
        Inl e \<Rightarrow> (st, Inl e)
      | Inr (leaf, NotFound _) \<Rightarrow> (st, Inr ())
      | Inr (leaf, Found pos) \<Rightarrow>
          (case ebind (cell_row_data_abs_off leaf pos) (\<lambda>(row_data_abs_off, _).
                  ebind (patch_deltas row_data_abs_off deltas leaf) (\<lambda>page.
                    update_row_header_in_place page pos old_header)) of
             Inl e \<Rightarrow> (st, Inl e)
           | Inr page \<Rightarrow> write_leaf crc page st))"

definition with_root ::
  "(u32 \<rightharpoonup> page_id) \<Rightarrow> u32 \<Rightarrow> mem_storage \<Rightarrow> (page_id \<Rightarrow> mem_storage \<times> (db_error + page_id)) \<Rightarrow> undo_result" where
  "with_root roots table_id st f =
     (case clustered_root_for_undo roots table_id of
        Inl e \<Rightarrow> (roots, st, Inl e)
      | Inr root \<Rightarrow>
          (case f root of
             (st', Inl e) \<Rightarrow> (roots, st', Inl e)
           | (st', Inr new_root) \<Rightarrow> (roots(table_id \<mapsto> new_root), st', Inr ())))"

primrec undo_one ::
  "checksum \<Rightarrow> tree_ops \<Rightarrow> txn_id \<Rightarrow> (u32 \<rightharpoonup> page_id) \<Rightarrow> mem_storage \<Rightarrow> undo_op \<Rightarrow> undo_result option" where
  "undo_one crc ops txn roots st (UndoInsert pid slot) =
     Some (roots, edit_page crc pid (\<lambda>p. mark_slot_dead crc p slot) st)"
| "undo_one crc ops txn roots st (UndoDelete pid slot) =
     Some (roots, edit_page crc pid (\<lambda>p. clear_deletion crc p slot) st)"
| "undo_one crc ops txn roots st (UndoUpdateInPlace pid slot old_image) =
     Some (roots, edit_page crc pid (\<lambda>p. restore_tuple_image crc p slot old_image) st)"
| "undo_one crc ops txn roots st (UndoTruncate root) =
     clear_deletions_by_txn crc txn root st \<bind> (\<lambda>r. Some (roots, r))"
| "undo_one crc ops txn roots st (UndoIndexInsert _ _ _) = Some (roots, st, Inr ())"
| "undo_one crc ops txn roots st (UndoIndexDelete _ _ _ _ _ _) = Some (roots, st, Inr ())"
| "undo_one crc ops txn roots st (UndoClusteredInsert table_id key) =
     Some (with_root roots table_id st (\<lambda>root.
       case delete_physical_by_key ops st root key of
         (st', Inl e) \<Rightarrow> (st', Inl e)
       | (st', Inr None) \<Rightarrow> (st', Inl (BTreeCorrupted ''clustered rollback could not find inserted key''))
       | (st', Inr (Some new_root)) \<Rightarrow> (st', Inr new_root)))"
| "undo_one crc ops txn roots st (UndoClusteredRestore table_id key old_row) =
     Some (with_root roots table_id st (\<lambda>root. restore_exact_row_image ops st root key (ri_row_header old_row) (ri_row_data old_row)))"
| "undo_one crc ops txn roots st (UndoClusteredUndelete table_id key) =
     Some (case clustered_root_for_undo roots table_id of
             Inl e \<Rightarrow> (roots, st, Inl e)
           | Inr root \<Rightarrow> (roots, undo_undelete crc ops root key st))"
| "undo_one crc ops txn roots st (UndoClusteredFieldPatch table_id key old_header deltas) =
     Some (case clustered_root_for_undo roots table_id of
             Inl e \<Rightarrow> (roots, st, Inl e)
           | Inr root \<Rightarrow> (roots, undo_field_patch crc ops root key old_header deltas st))"

primrec undo_all ::
  "checksum \<Rightarrow> tree_ops \<Rightarrow> txn_id \<Rightarrow> undo_op list \<Rightarrow> (u32 \<rightharpoonup> page_id) \<Rightarrow> mem_storage \<Rightarrow> undo_result option" where
  "undo_all crc ops txn [] roots st = Some (roots, st, Inr ())"
| "undo_all crc ops txn (u # us) roots st =
     undo_one crc ops txn roots st u \<bind> (\<lambda>(roots, st, r). case r of
         Inl e \<Rightarrow> Some (roots, st, Inl e)
       | Inr _ \<Rightarrow> undo_all crc ops txn us roots st)"

subsection \<open>Rollback\<close>

definition publish_roots :: "(u32 \<rightharpoonup> page_id) \<Rightarrow> txn_mgr \<Rightarrow> txn_mgr" where
  "publish_roots roots m = m\<lparr>tm_last_clustered_roots := tm_last_clustered_roots m ++ roots\<rparr>"

definition rollback_to_savepoint ::
  "checksum \<Rightarrow> tree_ops \<Rightarrow> connection_txn \<Rightarrow> savepoint_mark \<Rightarrow> txn_mgr \<Rightarrow> mem_storage \<Rightarrow>
   (connection_txn \<times> txn_mgr \<times> mem_storage \<times> (db_error + unit)) option" where
  "rollback_to_savepoint crc ops conn sp m st =
     (let conn = conn\<lparr>ct_deferred_free_pages := take (sp_deferred_free_len sp) (ct_deferred_free_pages conn),
            ct_local_page_batch := truncate_freed (sp_batch_freed_len sp) (ct_local_page_batch conn)\<rparr>;
          to_undo = rev (drop (sp_undo_len sp) (ct_undo_ops conn));
          conn = conn\<lparr>ct_undo_ops := take (sp_undo_len sp) (ct_undo_ops conn)\<rparr>
      in undo_all crc ops (ct_txn_id conn) to_undo (ct_clustered_roots conn) st \<bind> (\<lambda>(roots, st, r).
           let conn = conn\<lparr>ct_clustered_roots := roots\<rparr> in
           case r of
             Inl e \<Rightarrow> Some (conn, m, st, Inl e)
           | Inr _ \<Rightarrow> Some (conn, publish_roots roots m, st, Inr ())))"

definition txn_rollback ::
  "checksum \<Rightarrow> tree_ops \<Rightarrow> connection_txn \<Rightarrow> txn_mgr \<Rightarrow> mem_storage \<Rightarrow> (txn_mgr \<times> mem_storage \<times> (db_error + unit)) option" where
  "txn_rollback crc ops conn m st =
     (let txn = ct_txn_id conn;
          m = m\<lparr>tm_wal := fst (cw_append crc (control_entry 0 txn Rollback) (tm_wal m))\<rparr>
      in case take_for_rollback (ct_local_page_batch conn) of (_, avail) \<Rightarrow>
           (case (if avail = [] then (st, Inr ()) else free_page_batch avail st) of
              (st, Inl e) \<Rightarrow> Some (m, st, Inl e)
            | (st, Inr _) \<Rightarrow>
                undo_all crc ops txn (rev (ct_undo_ops conn)) (ct_clustered_roots conn) st \<bind> (\<lambda>(roots, st, r).
                  case r of
                    Inl e \<Rightarrow> Some (m, st, Inl e)
                  | Inr _ \<Rightarrow> Some (publish_roots roots (remove_active txn m), st, Inr ()))))"

subsection \<open>Pages of committed transactions\<close>

text \<open>Errors of single releases are ignored.\<close>

definition free_ignoring :: "page_id list \<Rightarrow> mem_storage \<Rightarrow> mem_storage" where
  "free_ignoring pages st = fold (\<lambda>pid st. fst (mem_free_page pid st)) pages st"

definition release_committed_frees :: "txn_id list \<Rightarrow> txn_mgr \<Rightarrow> mem_storage \<Rightarrow> txn_mgr \<times> mem_storage" where
  "release_committed_frees ids m st =
     (if ids = [] \<or> tm_free_batches m = [] then (m, st)
      else (m\<lparr>tm_free_batches := filter (\<lambda>b. fst b \<notin> set ids) (tm_free_batches m)\<rparr>,
        free_ignoring (concat (map snd (filter (\<lambda>b. fst b \<in> set ids) (tm_free_batches m)))) st))"

definition release_immediate_committed_frees :: "txn_id \<Rightarrow> txn_mgr \<Rightarrow> mem_storage \<Rightarrow> txn_mgr \<times> mem_storage" where
  "release_immediate_committed_frees txn m st =
     (if tm_deferred_commit_mode m then (m, st) else release_committed_frees [txn] m st)"

definition defer_free_pages :: "connection_txn \<Rightarrow> page_id list \<Rightarrow> connection_txn" where
  "defer_free_pages conn pages = conn\<lparr>ct_deferred_free_pages := ct_deferred_free_pages conn @ pages\<rparr>"

primrec free_batches :: "page_id list list \<Rightarrow> mem_storage \<Rightarrow> mem_storage \<times> (db_error + unit)" where
  "free_batches [] st = (st, Inr ())"
| "free_batches (b # bs) st =
     (case (if b = [] then (st, Inr ()) else free_page_batch b st) of
        (st, Inl e) \<Rightarrow> (st, Inl e)
      | (st, Inr _) \<Rightarrow> free_batches bs st)"

primrec recycle_pages :: "page_id list \<Rightarrow> mem_storage \<Rightarrow> mem_storage \<times> (db_error + unit)" where
  "recycle_pages [] st = (st, Inr ())"
| "recycle_pages (p # ps) st =
     (case recycle_page p st of
        (st, Inl e) \<Rightarrow> (st, Inl e)
      | (st, Inr _) \<Rightarrow> recycle_pages ps st)"

text \<open>Both lists are emptied even if a release fails: the draining iterator drops its rest. The second
  list is reached only after the first.\<close>

definition drain_committed_page_batches :: "txn_mgr \<Rightarrow> mem_storage \<Rightarrow> txn_mgr \<times> mem_storage \<times> (db_error + unit)" where
  "drain_committed_page_batches m st =
     (case free_batches (tm_steal_protection m) st of
        (st, Inl e) \<Rightarrow> (m\<lparr>tm_steal_protection := []\<rparr>, st, Inl e)
      | (st, Inr _) \<Rightarrow>
          (case recycle_pages (concat (tm_recycle_pages m)) st of
             (st, r) \<Rightarrow> (m\<lparr>tm_steal_protection := [], tm_recycle_pages := []\<rparr>, st, r)))"

subsection \<open>Statements outside a transaction\<close>

text \<open>The body gets the manager, the connection and the storage and returns them with its result. A
  failing rollback is ignored; \<open>None\<close> is a rollback that does not return.\<close>

definition autocommit ::
  "checksum \<Rightarrow> tree_ops \<Rightarrow>
   (txn_mgr \<Rightarrow> connection_txn \<Rightarrow> mem_storage \<Rightarrow> txn_mgr \<times> connection_txn \<times> mem_storage \<times> (db_error + 'a)) \<Rightarrow>
   txn_mgr \<Rightarrow> mem_storage \<Rightarrow> (txn_mgr \<times> mem_storage \<times> (db_error + 'a)) option" where
  "autocommit crc ops f m st =
     (case begin_with_isolation crc RepeatableRead m of (m, conn) \<Rightarrow>
        (case f m conn st of
           (m, conn, st, Inr v) \<Rightarrow> Some (fst (txn_commit crc conn m), st, Inr v)
         | (m, conn, st, Inl e) \<Rightarrow>
             txn_rollback crc ops conn m st \<bind> (\<lambda>(m, st, _). Some (m, st, Inl e))))"

definition set_durability_policy :: "durability_policy \<Rightarrow> txn_mgr \<Rightarrow> txn_mgr" where
  "set_durability_policy policy m = m\<lparr>tm_durability_policy := policy\<rparr>"

definition set_deferred_commit_mode :: "bool \<Rightarrow> txn_mgr \<Rightarrow> txn_mgr" where
  "set_deferred_commit_mode enabled m = m\<lparr>tm_deferred_commit_mode := enabled\<rparr>"

end
