(* ===== verification/Row_Map.thy ===== *)
theory Row_Map
  imports Txn_Undo
begin

text \<open>
  The heap pages of a storage as one map from row ids to row versions. Inserting, deleting and
  undoing either are updates of this map at one key.
\<close>

subsection \<open>Single pages\<close>

text \<open>What the edits of a page leave alone: the magic number and the reserved bytes.\<close>

definition low_same :: "page \<Rightarrow> page \<Rightarrow> bool" where
  "low_same p p' \<longleftrightarrow> (\<forall>a. a < 9 \<or> 36 \<le> a \<and> a < 64 \<longrightarrow> p' a = p a)"

lemma low_same_refl [simp]: "low_same p p"
  by (simp add: low_same_def)

lemma low_same_trans: "low_same p q \<Longrightarrow> low_same q r \<Longrightarrow> low_same p r"
  by (simp add: low_same_def)

lemma low_same_hdr:
  assumes "low_same p p'"
  shows "hdr_magic p' = hdr_magic p" "chain_next_page p' = chain_next_page p"
proof -
  have "read_bytes p' 0 8 = read_bytes p 0 8" "read_bytes p' 36 8 = read_bytes p 36 8"
    using assms unfolding read_bytes_def low_same_def by auto
  then show "hdr_magic p' = hdr_magic p" "chain_next_page p' = chain_next_page p"
    by (simp_all add: hdr_magic_def chain_next_page_def get_u64_def)
qed

lemma low_same_ops:
  "low_same p (update_checksum crc p)" "low_same p (clear_all_visible p)"
  "64 \<le> off \<Longrightarrow> low_same p (put_u64 p off v)" "low_same p (write_slot p i e)"
  by (auto simp: low_same_def update_checksum_def clear_all_visible_def byte_put_other write_slot_def slot_abs_offset_def
      HEADER_SIZE_def intro!: write_bytes_outside)

text \<open>One slot of a page gets new content, \<open>None\<close> if it becomes dead.\<close>

definition slot_edit :: "checksum \<Rightarrow> page \<Rightarrow> page \<Rightarrow> u16 \<Rightarrow> (row_header \<times> u8 list) option \<Rightarrow> bool" where
  "slot_edit crc p p' i t \<longleftrightarrow> heap_ok p' \<and> verify_checksum crc p' = Inr () \<and> chain_next_page p' = chain_next_page p \<and>
     num_slots p' = num_slots p \<and> read_tuple p' i = Inr t \<and>
     (\<forall>j. j \<noteq> i \<longrightarrow> j < num_slots p \<longrightarrow> read_tuple p' j = read_tuple p j)"

lemma live_offset:
  assumes "heap_wf p" "i < num_slots p" "live p (unat i)"
  shows "64 \<le> soff p (unat i)"
  using heap_wfD(2) [OF assms(1)] heap_wfD(5) [OF assms(1) _ assms(3)] assms(2)
  by (auto simp: tuple_placed_def word_less_nat_alt)

lemma mark_slot_dead_edit:
  assumes "heap_ok p" "i < num_slots p"
  shows "\<exists>p'. mark_slot_dead crc p i = (p', Inr ()) \<and> slot_edit crc p p' i None"
proof -
  have wf: "heap_wf p" using assms(1) by (simp add: heap_ok_def)
  have i: "unat i < slots p" using assms(2) by (simp add: word_less_nat_alt)
  let ?e = "\<lparr>se_offset = 0, se_length = 0\<rparr>" let ?q = "write_slot p i ?e"
  have n: "num_slots ?q = num_slots p" by (simp add: num_slots_def)
  have s: "slot_nth ?q j = (if j = unat i then ?e else slot_nth p j)" for j by (simp add: slot_nth_write_slot)
  have "4 * Suc (unat i) \<le> 4 * slots p" using i by (simp add: Suc_le_eq)
  then have high: "read_bytes ?q off k = read_bytes p off k" if "64 + 4 * slots p \<le> off" for off k
    using that by (intro read_write_slot_other) linarith
  have dead: "is_dead (slot_nth ?q (unat i))" by (simp add: s is_dead_def)
  have wf': "heap_wf ?q"
    using heap_wfD [OF wf] dead s n
    by (auto simp: heap_wf_def tuple_placed_def tuples_apart_def split: if_splits)
  have other: "read_tuple ?q j = read_tuple p j" if "j \<noteq> i" "j < num_slots p" for j
  proof (rule read_tuple_frame [OF wf wf' that(2)])
    have j: "unat j < slots p" "unat j \<noteq> unat i" using that by (simp_all add: word_less_nat_alt word_unat_eq_iff)
    show "j < num_slots ?q" using that n by simp
    show "slot_nth ?q (unat j) = slot_nth p (unat j)" using s j by simp
    show "read_bytes ?q (soff p (unat j)) (slen p (unat j)) = read_bytes p (soff p (unat j)) (slen p (unat j))"
      if "live p (unat j)"
      using heap_wfD(2) [OF wf] heap_wfD(5) [OF wf j(1) that] by (intro high) (simp add: tuple_placed_def)
  qed
  have "read_tuple ?q i = Inr None" using dead assms(2) n by (simp add: read_tuple_wf [OF wf'])
  moreover have "slot_abs_offset i + 4 \<le> PAGE_SIZE"
    using slot_in_page [OF wf i] by (simp add: slot_abs_offset_def HEADER_SIZE_def)
  moreover have "low_same p (update_checksum crc ?q)" by (rule low_same_trans [OF low_same_ops(4) low_same_ops(1)])
  ultimately show ?thesis
    using assms wf' other n low_same_hdr [of p "update_checksum crc ?q"]
    by (auto simp: mark_slot_dead_def slot_edit_def heap_ok_def)
qed

lemma delete_tuple_edit:
  assumes "heap_ok p" "read_tuple p i = Inr (Some (h, d))"
  shows "\<exists>p'. delete_tuple crc p i txn = (p', Inr ()) \<and> slot_edit crc p p' i (Some (h\<lparr>txn_id_deleted := txn\<rparr>, d))"
proof -
  have wf: "heap_wf p" using assms(1) by (simp add: heap_ok_def)
  note lv = read_tuple_live [OF wf assms(2)]
  let ?q = "clear_all_visible p"
  obtain p' where p': "delete_tuple crc p i txn = (p', Inr ())" "heap_wf p'" "verify_checksum crc p' = Inr ()"
    "num_slots p' = num_slots p" "read_tuple p' i = Inr (Some (h\<lparr>txn_id_deleted := txn\<rparr>, d))"
    "\<forall>j. j \<noteq> i \<longrightarrow> j < num_slots p \<longrightarrow> read_tuple p' j = read_tuple p j"
    using delete_tuple_effect [OF wf assms(2)] by blast
  have off: "64 \<le> soff ?q (unat i)" using lv wf by (intro live_offset) simp_all
  have "p' = update_checksum crc (put_u64 ?q (soff ?q (unat i) + 8) txn)"
    using p'(1) lv wf by (auto simp: delete_tuple_def mark_deleted_def with_live_slot_wf Let_def split: if_splits)
  moreover have "low_same p (update_checksum crc (put_u64 ?q (soff ?q (unat i) + 8) txn))"
    by (rule low_same_trans [OF low_same_ops(2) low_same_trans [OF low_same_ops(3) low_same_ops(1)]]) (use off in simp)
  ultimately have "low_same p p'" by simp
  from low_same_hdr [OF this] p' assms(1) show ?thesis by (auto simp: slot_edit_def heap_ok_def)
qed

lemma clear_deletion_edit:
  assumes "heap_ok p" "verify_checksum crc p = Inr ()" "read_tuple p i = Inr (Some (h, d))"
  shows "\<exists>p'. clear_deletion crc p i = (p', Inr ()) \<and> slot_edit crc p p' i (Some (h\<lparr>txn_id_deleted := 0\<rparr>, d))"
proof -
  have wf: "heap_wf p" using assms(1) by (simp add: heap_ok_def)
  note lv = read_tuple_live [OF wf assms(3)]
  obtain p' where p': "clear_deletion crc p i = (p', Inr ())" "heap_wf p'"
    "num_slots p' = num_slots p" "read_tuple p' i = Inr (Some (h\<lparr>txn_id_deleted := 0\<rparr>, d))"
    "\<forall>j. j \<noteq> i \<longrightarrow> j < num_slots p \<longrightarrow> read_tuple p' j = read_tuple p j"
    using clear_deletion_effect [OF wf assms(3)] by blast
  let ?q = "update_checksum crc (put_u64 p (soff p (unat i) + 8) 0)"
  have off: "64 \<le> soff p (unat i)" using lv wf by (intro live_offset) simp_all
  have "p' = p \<or> p' = ?q"
    using p'(1) lv by (auto simp: clear_deletion_def with_live_slot_wf [OF wf] Let_def split: if_splits)
  moreover have "low_same p ?q" by (rule low_same_trans [OF low_same_ops(3) low_same_ops(1)]) (use off in simp)
  ultimately have "low_same p p'" "verify_checksum crc p' = Inr ()" using assms(2) by auto
  from low_same_hdr [OF this(1)] this(2) p' assms(1) show ?thesis by (auto simp: slot_edit_def heap_ok_def)
qed

lemma clear_deletion_dead:
  assumes "heap_ok p" "i < num_slots p" "read_tuple p i = Inr None"
  shows "clear_deletion crc p i = (p, Inl (already_deleted p i))"
  using assms read_tuple_wf [of p i]
  by (auto simp: clear_deletion_def with_live_slot_wf heap_ok_def split: if_splits)

subsection \<open>The map of rows\<close>

type_synonym row_id = "page_id \<times> u16"

text \<open>The pages \<open>H\<close> are in use and hold well-formed heap pages.\<close>

definition heap_st :: "checksum \<Rightarrow> page_id set \<Rightarrow> mem_storage \<Rightarrow> bool" where
  "heap_st crc H st \<longleftrightarrow> mem_wf crc st \<and>
     (\<forall>pid \<in> H. in_use st pid \<and> pid \<noteq> 0 \<and> (\<exists>p. mem_read_page st pid = Inr p \<and> heap_ok p))"

definition row_map :: "page_id set \<Rightarrow> mem_storage \<Rightarrow> row_id \<rightharpoonup> row_header \<times> u8 list" where
  "row_map H st k =
     (if fst k \<in> H then
        case mem_read_page st (fst k) of
          Inl _ \<Rightarrow> None
        | Inr p \<Rightarrow> (case read_tuple p (snd k) of Inr t \<Rightarrow> t | Inl _ \<Rightarrow> None)
      else None)"

definition slot_count :: "mem_storage \<Rightarrow> page_id \<Rightarrow> nat" where
  "slot_count st pid = (case mem_read_page st pid of Inr p \<Rightarrow> slots p | Inl _ \<Rightarrow> 0)"

lemma heap_stD:
  assumes "heap_st crc H st" "pid \<in> H"
  obtains p where "mem_read_page st pid = Inr p" "heap_ok p" "verify_checksum crc p = Inr ()" "load_page crc st pid = Inr p"
proof -
  from assms obtain p where p: "mem_wf crc st" "mem_read_page st pid = Inr p" "heap_ok p" by (auto simp: heap_st_def)
  from that [OF p(2,3) mem.read_sealed [OF p(1,2)] load_page_ok [OF p]] show thesis .
qed

lemma row_map_Some:
  assumes "row_map H st (pid, i) = Some t" "mem_read_page st pid = Inr p"
  shows "pid \<in> H" "read_tuple p i = Inr (Some t)"
  using assms by (auto simp: row_map_def split: if_splits sum.splits)

lemma row_map_bound: "heap_st crc H st \<Longrightarrow> row_map H st (pid, i) = Some t \<Longrightarrow> unat i < slot_count st pid"
proof -
  assume st: "heap_st crc H st" and r: "row_map H st (pid, i) = Some t"
  then have "pid \<in> H" by (auto simp: row_map_def split: if_splits)
  with st obtain p where p: "mem_read_page st pid = Inr p" "heap_ok p" by (rule heap_stD)
  with row_map_Some(2) [OF r p(1)] read_tuple_live [of p i t] show ?thesis
    by (auto simp: slot_count_def heap_ok_def word_less_nat_alt)
qed

text \<open>Links and slot counts of the heap pages and all other pages stay as they are.\<close>

definition keeps :: "page_id set \<Rightarrow> mem_storage \<Rightarrow> mem_storage \<Rightarrow> bool" where
  "keeps H st st' \<longleftrightarrow> (\<forall>j. in_use st' j = in_use st j) \<and> (\<forall>pid \<in> H. slot_count st' pid = slot_count st pid) \<and>
     (\<forall>x ps. chain_path st x ps \<longrightarrow> set ps \<subseteq> H \<longrightarrow> chain_path st' x ps) \<and>
     (\<forall>j. j \<notin> H \<longrightarrow> mem_read_page st' j = mem_read_page st j)"

lemma keeps_trans: "keeps H st st' \<Longrightarrow> keeps H st' st'' \<Longrightarrow> keeps H st st''"
  by (simp add: keeps_def)

lemma edited_path:
  assumes "chain_path st x ps" "\<And>j. j \<noteq> pid \<Longrightarrow> mem_read_page st' j = mem_read_page st j"
    "mem_read_page st pid = Inr p" "mem_read_page st' pid = Inr p'" "heap_ok p'" "chain_next_page p' = chain_next_page p"
  shows "chain_path st' x ps"
  using assms(1)
proof (induction ps arbitrary: x)
  case (Cons a as)
  then show ?case using assms(2-6) by (cases "a = pid") auto
qed simp

lemma write_edit:
  assumes "heap_st crc H st" "pid \<in> H" "mem_read_page st pid = Inr p" "slot_edit crc p p' i t" "i < num_slots p"
  shows "\<exists>st'. mem_write_page crc pid p' st = Inr st' \<and> heap_st crc H st' \<and> keeps H st st' \<and>
    row_map H st' = (row_map H st)((pid, i) := t)"
proof -
  have wf: "mem_wf crc st" using assms(1) by (simp add: heap_st_def)
  have e: "heap_ok p'" "verify_checksum crc p' = Inr ()" "chain_next_page p' = chain_next_page p" "num_slots p' = num_slots p"
    "read_tuple p' i = Inr t" "\<And>j. j \<noteq> i \<Longrightarrow> j < num_slots p \<Longrightarrow> read_tuple p' j = read_tuple p j"
    using assms(4) by (auto simp: slot_edit_def)
  obtain st' where st': "mem_write_page crc pid p' st = Inr st'" "mem_wf crc st'" "\<And>j. in_use st' j = in_use st j"
    "\<And>j. mem_read_page st' j = (if j = pid then Inr p' else mem_read_page st j)"
    using mem.rewrite_page [OF wf assms(3) e(2)] by blast
  have "heap_st crc H st'" using assms(1) st' e(1) by (auto simp: heap_st_def)
  moreover have "chain_path st' x ps" if "chain_path st x ps" for x ps
    by (rule edited_path [OF that, of pid st' p p']) (simp_all add: st'(4) assms(3) e(1,3))
  then have "keeps H st st'" using st'(3,4) assms(2,3) e(4) by (auto simp: keeps_def slot_count_def)
  moreover have "row_map H st' = (row_map H st)((pid, i) := t)"
  proof
    fix k :: row_id
    obtain a j where k: "k = (a, j)" by (cases k)
    have "read_tuple p' j = read_tuple p j \<or> (\<exists>e e'. read_tuple p' j = Inl e \<and> read_tuple p j = Inl e')" if "j \<noteq> i"
      using that e(4,6) by (cases "j < num_slots p") (auto simp: read_tuple_def not_less)
    then show "row_map H st' k = ((row_map H st)((pid, i) := t)) k"
      using assms(2,3) e(5) st'(4) by (cases "a = pid"; cases "j = i") (auto simp: row_map_def k)
  qed
  ultimately show ?thesis using st'(1) by blast
qed

lemma slot_edit_checksum: "slot_edit crc p p' i t \<Longrightarrow> slot_edit crc p (update_checksum crc p') i t"
  using low_same_hdr [OF low_same_ops(1)] by (auto simp: slot_edit_def heap_ok_def)

lemma chain_delete_map:
  assumes "heap_st crc H st" "row_map H st (pid, i) = Some (h, d)"
  shows "\<exists>st'. chain_delete crc pid i txn st = Inr st' \<and> heap_st crc H st' \<and> keeps H st st' \<and>
    row_map H st' = (row_map H st)((pid, i) \<mapsto> (h\<lparr>txn_id_deleted := txn\<rparr>, d))"
proof -
  have H: "pid \<in> H" using assms(2) by (auto simp: row_map_def split: if_splits)
  obtain p where p: "mem_read_page st pid = Inr p" "heap_ok p" "load_page crc st pid = Inr p" by (rule heap_stD [OF assms(1) H])
  note r = row_map_Some(2) [OF assms(2) p(1)]
  obtain p' where p': "delete_tuple crc p i txn = (p', Inr ())" "slot_edit crc p p' i (Some (h\<lparr>txn_id_deleted := txn\<rparr>, d))"
    using delete_tuple_edit [OF p(2) r] by blast
  have "i < num_slots p" using read_tuple_live [of p i "(h, d)"] r p(2) by (simp add: heap_ok_def)
  from write_edit [OF assms(1) H p(1) slot_edit_checksum [OF p'(2)] this] p(3) p'(1) show ?thesis
    by (simp add: chain_delete_def)
qed

lemma edit_slot_map:
  assumes "heap_st crc H st" "pid \<in> H" "mem_read_page st pid = Inr p" "i < num_slots p"
    "f p = (p', Inr ())" "slot_edit crc p p' i t"
  shows "\<exists>st'. edit_page crc pid f st = (st', Inr ()) \<and> heap_st crc H st' \<and> keeps H st st' \<and>
    row_map H st' = (row_map H st)((pid, i) := t)"
proof -
  have "load_page crc st pid = Inr p" by (rule heap_stD [OF assms(1,2)]) (use assms(3) in simp)
  with write_edit [OF assms(1-3) assms(6,4)] assms(5) show ?thesis by (auto simp: edit_page_def)
qed

lemma undo_insert_map:
  assumes "heap_st crc H st" "pid \<in> H" "unat i < slot_count st pid"
  shows "\<exists>st'. edit_page crc pid (\<lambda>p. mark_slot_dead crc p i) st = (st', Inr ()) \<and> heap_st crc H st' \<and> keeps H st st' \<and>
    row_map H st' = (row_map H st)((pid, i) := None)"
proof -
  obtain p where p: "mem_read_page st pid = Inr p" "heap_ok p" by (rule heap_stD [OF assms(1,2)])
  then have i: "i < num_slots p" using assms(3) by (simp add: slot_count_def word_less_nat_alt)
  obtain p' where "mark_slot_dead crc p i = (p', Inr ())" "slot_edit crc p p' i None"
    using mark_slot_dead_edit [OF p(2) i] by blast
  from edit_slot_map [where f = "\<lambda>p. mark_slot_dead crc p i", OF assms(1,2) p(1) i this] show ?thesis .
qed

lemma undo_delete_map:
  assumes "heap_st crc H st" "row_map H st (pid, i) = Some (h, d)"
  shows "\<exists>st'. edit_page crc pid (\<lambda>p. clear_deletion crc p i) st = (st', Inr ()) \<and> heap_st crc H st' \<and> keeps H st st' \<and>
    row_map H st' = (row_map H st)((pid, i) \<mapsto> (h\<lparr>txn_id_deleted := 0\<rparr>, d))"
proof -
  have H: "pid \<in> H" using assms(2) by (auto simp: row_map_def split: if_splits)
  obtain p where p: "mem_read_page st pid = Inr p" "heap_ok p" "verify_checksum crc p = Inr ()" by (rule heap_stD [OF assms(1) H])
  note r = row_map_Some(2) [OF assms(2) p(1)]
  have i: "i < num_slots p" using read_tuple_live [of p i "(h, d)"] r p(2) by (simp add: heap_ok_def)
  obtain p' where "clear_deletion crc p i = (p', Inr ())" "slot_edit crc p p' i (Some (h\<lparr>txn_id_deleted := 0\<rparr>, d))"
    using clear_deletion_edit [OF p(2,3) r] by blast
  from edit_slot_map [where f = "\<lambda>p. clear_deletion crc p i", OF assms(1) H p(1) i this] show ?thesis .
qed

subsection \<open>Growing chains\<close>

definition grows :: "page_id set \<Rightarrow> mem_storage \<Rightarrow> page_id set \<Rightarrow> mem_storage \<Rightarrow> bool" where
  "grows H st H' st' \<longleftrightarrow> H \<subseteq> H' \<and> (\<forall>j. in_use st j \<longrightarrow> in_use st' j) \<and>
     (\<forall>pid \<in> H. slot_count st pid \<le> slot_count st' pid) \<and>
     (\<forall>x ps. chain_path st x ps \<longrightarrow> set ps \<subseteq> H \<longrightarrow>
       (\<exists>qs. chain_path st' x (ps @ qs) \<and> set qs \<subseteq> H' \<and> (\<forall>q \<in> set qs. \<not> in_use st q)))"

lemma keeps_grows: "keeps H st st' \<Longrightarrow> grows H st H st'"
  unfolding keeps_def grows_def by (auto intro!: exI [of _ "[]"])

lemma grows_refl [simp]: "grows H st H st"
  by (rule keeps_grows) (simp add: keeps_def)

lemma grows_trans:
  assumes "grows H st H' st'" "grows H' st' H'' st''"
  shows "grows H st H'' st''"
  unfolding grows_def
proof (intro conjI allI impI ballI)
  show "H \<subseteq> H''" using assms by (auto simp: grows_def)
  show "in_use st j \<Longrightarrow> in_use st'' j" for j using assms by (simp add: grows_def)
  show "slot_count st pid \<le> slot_count st'' pid" if "pid \<in> H" for pid
    using assms that unfolding grows_def by (meson order_trans subsetD)
  fix x ps
  assume "chain_path st x ps" "set ps \<subseteq> H"
  with assms(1) obtain qs where qs: "chain_path st' x (ps @ qs)" "set qs \<subseteq> H'" "\<forall>q \<in> set qs. \<not> in_use st q"
    unfolding grows_def by blast
  moreover from this have "set (ps @ qs) \<subseteq> H'" using \<open>set ps \<subseteq> H\<close> assms(1) by (auto simp: grows_def)
  ultimately obtain rs where rs: "chain_path st'' x ((ps @ qs) @ rs)" "set rs \<subseteq> H''" "\<forall>q \<in> set rs. \<not> in_use st' q"
    using assms(2) unfolding grows_def by blast
  have "\<not> in_use st q" if "q \<in> set rs" for q using rs(3) that assms(1) by (auto simp: grows_def)
  moreover have "H' \<subseteq> H''" using assms(2) by (simp add: grows_def)
  ultimately show "\<exists>qs. chain_path st'' x (ps @ qs) \<and> set qs \<subseteq> H'' \<and> (\<forall>q \<in> set qs. \<not> in_use st q)"
    using qs rs by (intro exI [of _ "qs @ rs"]) auto
qed

subsection \<open>Insertions\<close>

definition slot_map :: "page \<Rightarrow> u16 \<rightharpoonup> row_header \<times> u8 list" where
  "slot_map p i = (case read_tuple p i of Inr t \<Rightarrow> t | Inl _ \<Rightarrow> None)"

lemma row_map_page: "row_map H st (a, j) = (if a \<in> H then case mem_read_page st a of Inl _ \<Rightarrow> None | Inr p \<Rightarrow> slot_map p j else None)"
  by (simp add: row_map_def slot_map_def split: sum.split)

lemma slot_map_beyond: "num_slots p \<le> i \<Longrightarrow> slot_map p i = None"
  by (simp add: slot_map_def read_tuple_def leD)

lemma slot_map_same_heap: "same_heap p p' \<Longrightarrow> heap_ok p \<Longrightarrow> slot_map p' = slot_map p"
  by (simp add: slot_map_def [abs_def] heap_ok_def same_heap_read_tuple)

lemma slot_map_insert:
  assumes "heap_ok p" "insert_tuple crc p data txn = (p', Inr slot)"
  shows "slot_map p' = (slot_map p)(slot \<mapsto> (fresh_header txn, data))" "slot = num_slots p" "slots p' = Suc (slots p)"
proof -
  have wf: "heap_wf p" using assms(1) by (simp add: heap_ok_def)
  note i = insert_tuple_spec [OF wf assms(2), simplified]
  show "slot = num_slots p" using i by simp
  show n: "slots p' = Suc (slots p)" using arg_cong [OF slot_ids_snoc [OF wf, of p'], of length] i by simp
  show "slot_map p' = (slot_map p)(slot \<mapsto> (fresh_header txn, data))"
  proof
    fix j
    consider "j < num_slots p" | "j = slot" | "num_slots p' \<le> j"
      using i n by (metis word_le_nat_alt word_less_nat_alt word_unat_eq_iff less_Suc_eq not_less)
    then show "slot_map p' j = ((slot_map p)(slot \<mapsto> (fresh_header txn, data))) j"
    proof cases
      case 3
      moreover have "num_slots p \<le> j" "j \<noteq> slot" using 3 n i by (auto simp: word_le_nat_alt)
      ultimately show ?thesis by (simp add: slot_map_beyond)
    qed (use i in \<open>auto simp: slot_map_def\<close>)
  qed
qed

lemma slot_map_new: "slot_map (page_new crc ty n) = (\<lambda>_. None)"
  by (rule ext) (simp add: slot_map_beyond num_slots_def page_new_hdr)

lemma chain_ends:
  assumes "chain_path st x ps" "l \<in> set ps" "mem_read_page st l = Inr p" "chain_next_page p = 0"
  shows "\<exists>as. ps = as @ [l]"
proof -
  obtain as bs where ps: "ps = as @ l # bs" using assms(2) by (meson split_list)
  with chain_path_append [of st x as l bs] assms have "chain_path st 0 bs" by auto
  then have "bs = []" by (cases bs) auto
  with ps show ?thesis by simp
qed

text \<open>The two ways a row is added: to a page of the set, or to a new page linked behind one of its pages.\<close>

lemma insert_same_page:
  assumes "heap_st crc H st" "l \<in> H" "mem_read_page st l = Inr p" "insert_tuple crc p data txn = (p', Inr slot)"
    "mem_write_page crc l (update_checksum crc p') st = Inr st'"
  shows "heap_st crc H st'" "row_map H st' = (row_map H st)((l, slot) \<mapsto> (fresh_header txn, data))"
    "row_map H st (l, slot) = None" "unat slot < slot_count st' l" "grows H st H st'"
    "j \<notin> H \<Longrightarrow> mem_read_page st' j = mem_read_page st j"
proof -
  have wf: "mem_wf crc st" using assms(1) by (simp add: heap_st_def)
  have ok: "heap_ok p" by (rule heap_stD [OF assms(1,2)]) (use assms(3) in simp)
  note rd = mem.write_read [OF wf assms(5)] and m = slot_map_insert [OF ok assms(4)] and nx = insert_tuple_next [OF ok assms(4)]
  have q: "slot_map (update_checksum crc p') = slot_map p'" using slot_map_same_heap [OF same_heap_checksum] nx(2) by simp
  show "j \<notin> H \<Longrightarrow> mem_read_page st' j = mem_read_page st j" using rd assms(2) by auto
  show "heap_st crc H st'" using assms(1) rd mem.write_inv [OF wf assms(5)] mem.write_used [OF wf assms(5)] nx(2)
    by (auto simp: heap_st_def)
  show "row_map H st' = (row_map H st)((l, slot) \<mapsto> (fresh_header txn, data))"
  proof
    fix k
    show "row_map H st' k = ((row_map H st)((l, slot) \<mapsto> (fresh_header txn, data))) k"
      by (cases k) (use rd assms(2,3) in \<open>auto simp: row_map_page q m(1)\<close>)
  qed
  show "row_map H st (l, slot) = None" using assms(3) m(2) by (simp add: row_map_page slot_map_beyond)
  have n: "slots (update_checksum crc p') = Suc (slots p)" using m(3) by (simp add: num_slots_def)
  show "unat slot < slot_count st' l" using rd n m(2) by (simp add: slot_count_def)
  have "chain_path st' x ps" if "chain_path st x ps" for x ps
    by (rule edited_path [OF that, of l st' p "update_checksum crc p'"]) (use rd assms(3) nx in auto)
  moreover have "slot_count st j \<le> slot_count st' j" for j using rd n assms(3) by (simp add: slot_count_def)
  ultimately show "grows H st H st'"
    using mem.write_used [OF wf assms(5)] by (auto simp: grows_def intro!: exI [of _ "[]"])
qed

lemma insert_new_page:
  assumes "heap_st crc H st" "l \<in> H" "mem_read_page st l = Inr p" "chain_next_page p = 0"
    "write_new_tail crc w data txn None st = (None, st1, Inr (n, slot))" "link_tail crc l n st1 = Inr st'"
  shows "heap_st crc (insert n H) st'" "row_map (insert n H) st' = (row_map H st)((n, slot) \<mapsto> (fresh_header txn, data))"
    "row_map H st (n, slot) = None" "unat slot < slot_count st' n" "grows H st (insert n H) st'"
    "j \<notin> H \<Longrightarrow> in_use st j \<Longrightarrow> mem_read_page st' j = mem_read_page st j"
proof -
  have wf: "mem_wf crc st" using assms(1) by (simp add: heap_st_def)
  have ok: "heap_ok p" by (rule heap_stD [OF assms(1,2)]) (use assms(3) in simp)
  have used: "in_use st j" "j \<noteq> 0" if "j \<in> H" for j using assms(1) that by (auto simp: heap_st_def)
  note t = new_tail_page [OF wf assms(5)]
  have nH: "n \<notin> H" "n \<noteq> l" using t(2) used(1) assms(2) by auto
  have inv: "batch_inv None st" by (simp add: batch_inv_def)
  from write_new_tail_spec [OF wf inv assms(5)] obtain q where
    q: "insert_tuple crc (page_new crc Data n) data txn = (q, Inr slot)" "mem_read_page st1 n = Inr (update_checksum crc q)" by auto
  let ?q = "update_checksum crc q" and ?l = "update_checksum crc (chain_set_next_page p n)"
  have l1: "mem_read_page st1 l = Inr p" using t(6) used(1) assms(2,3) by simp
  from link_tail_spec [OF t(1) l1 ok, of n] assms(6) have st': "mem_wf crc st'" "\<And>j. in_use st' j = in_use st1 j"
    "\<And>j. mem_read_page st' j = (if j = l then Inr ?l else mem_read_page st1 j)" by auto
  note nx = insert_tuple_next [OF page_new_ok(1) q(1)] and m = slot_map_insert [OF page_new_ok(1) q(1)]
  have mq: "slot_map ?q = [slot \<mapsto> (fresh_header txn, data)]"
    using slot_map_same_heap [OF same_heap_checksum] nx(2) m(1) by (simp add: slot_map_new)
  have ml: "slot_map ?l = slot_map p"
    by (rule slot_map_same_heap [OF same_heap_trans [OF set_next(2) same_heap_checksum] ok])
  have rd: "mem_read_page st' j = (if j = l then Inr ?l else mem_read_page st j)" if "j \<in> H" for j
    using st'(3) t(6) used(1) [OF that] by simp
  show "j \<notin> H \<Longrightarrow> in_use st j \<Longrightarrow> mem_read_page st' j = mem_read_page st j" using st'(3) t(6) assms(2) by auto
  have rn: "mem_read_page st' n = Inr ?q" using st'(3) q(2) nH by simp
  show "heap_st crc (insert n H) st'"
    unfolding heap_st_def
  proof (intro conjI ballI)
    show "\<exists>p. mem_read_page st' j = Inr p \<and> heap_ok p" if "j \<in> insert n H" for j
    proof (cases "j = n")
      case False
      with that have "j \<in> H" by simp
      from heap_stD [OF assms(1) this] rd [OF this] linked_page(1) [OF ok, of n] show ?thesis by (metis checksum_ok)
    qed (use rn nx(2) in simp)
  qed (use st'(1,2) t(3-5) used(1) used(2) [of 0] in auto)
  show "row_map H st (n, slot) = None" using nH by (simp add: row_map_page)
  show "row_map (insert n H) st' = (row_map H st)((n, slot) \<mapsto> (fresh_header txn, data))"
  proof
    fix k :: row_id
    obtain a j where k: "k = (a, j)" by (cases k)
    show "row_map (insert n H) st' k = ((row_map H st)((n, slot) \<mapsto> (fresh_header txn, data))) k"
      using rn rd [of a] nH mq ml assms(3) by (cases "a = n"; cases "a \<in> H") (auto simp: row_map_page k)
  qed
  show "unat slot < slot_count st' n" using rn m(2,3) by (simp add: slot_count_def num_slots_def)
  show "grows H st (insert n H) st'"
    unfolding grows_def
  proof (intro conjI allI impI ballI)
    show "slot_count st j \<le> slot_count st' j" if "j \<in> H" for j
      using rd [OF that] assms(3) same_heap_hdr(3) [OF same_heap_trans [OF set_next(2) same_heap_checksum]]
      by (auto simp: slot_count_def)
    fix x ps
    assume c: "chain_path st x ps" "set ps \<subseteq> H"
    have keep: "mem_read_page st' a = mem_read_page st a" if "a \<in> set ps" "a \<noteq> l" for a using rd [of a] c(2) that by auto
    show "\<exists>qs. chain_path st' x (ps @ qs) \<and> set qs \<subseteq> insert n H \<and> (\<forall>q \<in> set qs. \<not> in_use st q)"
    proof (cases "l \<in> set ps")
      case False
      then have "chain_path st' x ps" using chain_path_cong [of ps st' st x] keep c(1) by metis
      then show ?thesis by (intro exI [of _ "[]"]) simp
    next
      case True
      from chain_ends [OF c(1) True assms(3,4)] obtain as where as: "ps = as @ [l]" by blast
      have p0: "chain_path st x (as @ [l])" using c(1) as by simp
      have ks: "mem_read_page st' a = mem_read_page st a" if "a \<in> set as" for a
        using that chain_last(4) [OF p0] as by (intro keep) auto
      have "chain_path st' l [l, n]"
        using rn rd [OF assms(2)] nx page_new_ok(2) used(2) [OF assms(2)] t(3) linked_page(1) [OF ok, of n] set_next(1) by auto
      from chain_replace_last [OF p0 this ks] have "chain_path st' x (as @ [l, n])" .
      then show ?thesis using as t(2) by (intro exI [of _ "[n]"]) simp
    qed
  qed (use st'(2) t(5) in auto)
qed

text \<open>A row version appeared under a new row id.\<close>

definition row_added :: "checksum \<Rightarrow> page_id set \<Rightarrow> mem_storage \<Rightarrow> row_id \<Rightarrow> row_header \<times> u8 list \<Rightarrow> mem_storage \<Rightarrow> bool" where
  "row_added crc H st k t st' \<longleftrightarrow> heap_st crc (insert (fst k) H) st' \<and> row_map (insert (fst k) H) st' = (row_map H st)(k \<mapsto> t) \<and>
     row_map H st k = None \<and> unat (snd k) < slot_count st' (fst k) \<and> grows H st (insert (fst k) H) st' \<and>
     (\<forall>j. j \<notin> H \<longrightarrow> in_use st j \<longrightarrow> mem_read_page st' j = mem_read_page st j)"

lemma insert_at_map:
  assumes "heap_st crc H st" "l \<in> H" "mem_read_page st l = Inr p" "chain_next_page p = 0"
    "insert_at crc w l data txn None st = (b, st', Inr (pid, slot))"
  shows "row_added crc H st (pid, slot) (fresh_header txn, data) st'"
proof -
  have wf: "mem_wf crc st" using assms(1) by (simp add: heap_st_def)
  have ok: "heap_ok p" by (rule heap_stD [OF assms(1,2)]) (use assms(3) in simp)
  obtain st1 r1 where t: "insert_in_tail crc l data txn st = (st1, r1)" by fastforce
  from insert_in_tail_spec [OF wf assms(3) ok t] show ?thesis
  proof
    assume "\<exists>p' slot. r1 = Inr (Some slot) \<and> insert_tuple crc p data txn = (p', Inr slot) \<and>
      mem_write_page crc l (update_checksum crc p') st = Inr st1"
    then obtain p' where i: "insert_tuple crc p data txn = (p', Inr slot)" "mem_write_page crc l (update_checksum crc p') st = Inr st'"
      and eq: "pid = l" using t assms(5) by (auto simp: insert_at_def)
    have "insert pid H = H" using assms(2) eq by auto
    with insert_same_page [OF assms(1-3) i] eq show ?thesis by (simp add: row_added_def)
  next
    assume full: "r1 = Inr None \<and> st1 = st \<and> unat (hdr_free_end p) - unat (hdr_free_start p) < 4 + align8 (24 + length data)"
    obtain b2 st2 r2 where n: "write_new_tail crc w data txn None st = (b2, st2, r2)" by (metis prod_cases3)
    then have "b2 = None" by (auto simp: write_new_tail_def batch_alloc_page_def split: prod.splits sum.splits)
    with n t full assms(5) have "write_new_tail crc w data txn None st = (None, st2, Inr (pid, slot))" "link_tail crc l pid st2 = Inr st'"
      by (auto simp: insert_at_def split: prod.splits sum.splits)
    from insert_new_page [OF assms(1-4) this] show ?thesis by (simp add: row_added_def)
  qed
qed

lemma chain_insert_map:
  assumes "heap_st crc H st" "chain_path st root ps" "root \<noteq> 0" "set ps \<subseteq> H"
    "chain_insert crc w root data txn None st = Some (b, st', Inr (pid, slot))"
  shows "row_added crc H st (pid, slot) (fresh_header txn, data) st'"
proof -
  obtain as l where ps: "ps = as @ [l]" using assms(2,3) by (cases ps rule: rev_cases) auto
  note c = chain_last [OF assms(2) [unfolded ps]]
  from c(2) obtain p where p: "mem_read_page st l = Inr p" "chain_next_page p = 0" by blast
  have l: "l \<in> H" using assms(4) ps by simp
  have "insert_at crc w l data txn None st = (b, st', Inr (pid, slot))" using assms(5) c(1) by (simp add: chain_insert_def)
  from insert_at_map [OF assms(1) l p this] show ?thesis .
qed

subsection \<open>Scans and the map of rows\<close>

text \<open>What a snapshot sees of one row version.\<close>

definition row_seen :: "transaction_snapshot \<Rightarrow> (row_header \<times> u8 list) option \<Rightarrow> u8 list option" where
  "row_seen snap t =
     (case t of
        None \<Rightarrow> None
      | Some (h, d) \<Rightarrow> if is_visible h snap then Some d else None)"

lemma row_seen_simps [simp]:
  "row_seen snap None = None" "row_seen snap (Some (h, d)) = (if is_visible h snap then Some d else None)"
  by (simp_all add: row_seen_def)

lemma rows_of_map:
  assumes "heap_ok p" "slots p \<le> n" "n < 65536"
  shows "rows_of snap pid p =
    on_page pid (List.map_filter (\<lambda>i. map_option (Pair i) (row_seen snap (slot_map p i))) (map word_of_nat [0..<n]))"
proof -
  let ?f = "\<lambda>i. map_option (Pair i) (row_seen snap (slot_map p i))"
  have "?f (word_of_nat j) = None" if "slots p \<le> j" "j < n" for j
  proof -
    have "unat (word_of_nat j :: u16) = j" using that assms(3) by (simp add: unat_of_nat)
    then show ?thesis using that by (simp add: slot_map_beyond word_le_nat_alt)
  qed
  moreover have "[0..<n] = [0..<slots p] @ [slots p..<n]" using assms(2) upt_add_eq_append [of 0 "slots p" "n - slots p"] by simp
  moreover have "visible_entry p snap = ?f"
    by (rule ext) (simp add: visible_entry_def slot_map_def row_seen_def split: sum.split option.split)
  ultimately show ?thesis by (simp add: rows_of_def map_filter_append) (auto simp: List.map_filter_def filter_empty_conv)
qed

lemma page_rows_map:
  assumes "heap_st crc H st" "a \<in> H" "slot_count st a \<le> n" "n < 65536"
  shows "page_rows st snap a =
    on_page a (List.map_filter (\<lambda>i. map_option (Pair i) (row_seen snap (row_map H st (a, i)))) (map word_of_nat [0..<n]))"
proof -
  obtain p where p: "mem_read_page st a = Inr p" "heap_ok p" by (rule heap_stD [OF assms(1,2)])
  with rows_of_map [OF p(2) _ assms(4), of snap a] assms(2,3) show ?thesis
    by (simp add: page_rows_def slot_count_def row_map_page)
qed

lemma slot_count_lt: "slot_count st a < 65536"
  using unsigned_less [where ?'a = nat and ?'b = 16] by (auto simp: slot_count_def split: sum.split)

text \<open>Scans of a chain that may have grown agree if the two snapshots see the same of every row.\<close>

lemma scan_grown:
  assumes "heap_st crc H st" "heap_st crc H' st'" "grows H st H' st'" "chain_path st x ps" "set ps \<subseteq> H"
    "\<And>k. row_seen snap' (row_map H' st' k) = row_seen snap (row_map H st k)"
  shows "scan_visible_ro st' x snap' = scan_visible_ro st x snap"
proof -
  from assms(3-5) obtain qs where qs: "chain_path st' x (ps @ qs)" "set qs \<subseteq> H'" "\<And>q. q \<in> set qs \<Longrightarrow> \<not> in_use st q"
    unfolding grows_def by blast
  have "page_rows st' snap' q = []" if "q \<in> set qs" for q
  proof -
    have "q \<notin> H" using qs(3) [OF that] assms(1) by (auto simp: heap_st_def)
    then have "row_seen snap' (row_map H' st' (q, i)) = None" for i using assms(6) [of "(q, i)"] by (simp add: row_map_page [of H])
    moreover have "q \<in> H'" using qs(2) that by blast
    ultimately show ?thesis
      using page_rows_map [OF assms(2) _ order_refl slot_count_lt, of q snap'] by (simp add: List.map_filter_def)
  qed
  then have "chain_rows st' snap' qs = []" by (simp add: chain_rows_def)
  moreover have "page_rows st' snap' a = page_rows st snap a" if "a \<in> set ps" for a
  proof -
    have a: "a \<in> H" "a \<in> H'" "slot_count st a \<le> slot_count st' a" using that assms(3,5) by (auto simp: grows_def)
    show ?thesis
      using page_rows_map [OF assms(2) a(2) order_refl slot_count_lt, of snap']
        page_rows_map [OF assms(1) a(1,3) slot_count_lt, of snap] by (simp add: assms(6))
  qed
  then have "chain_rows st' snap' ps = chain_rows st snap ps" by (simp add: chain_rows_def cong: map_cong)
  ultimately show ?thesis using scan_visible_ro_rows [OF assms(4)] scan_visible_ro_rows [OF qs(1)] by simp
qed

end
