(* ===== verification/Undo_Account.thy ===== *)
theory Undo_Account
  imports Row_Map
begin

text \<open>
  Undoing transactions on the map of rows: an account of the marks that unfinished transactions left in
  the rows, kept by every operation on rows, and what undoing them in reverse order makes of the rows.
\<close>

subsection \<open>Undo on the map of rows\<close>

type_synonym rows = "row_id \<rightharpoonup> row_header \<times> u8 list"

datatype heap_undo = HIns row_id | HDel row_id

definition undelete :: "row_header \<times> u8 list \<Rightarrow> row_header \<times> u8 list" where
  "undelete t = ((fst t)\<lparr>txn_id_deleted := 0\<rparr>, snd t)"

primrec undo_map :: "heap_undo \<Rightarrow> rows \<Rightarrow> rows" where
  "undo_map (HIns k) m = m(k := None)"
| "undo_map (HDel k) m = m(k := map_option undelete (m k))"

text \<open>The specification of undoing the transactions \<open>T\<close>: their row versions are gone and their deletion
  marks are cleared, everything else is as it was.\<close>

definition erase :: "txn_id set \<Rightarrow> (row_header \<times> u8 list) option \<Rightarrow> (row_header \<times> u8 list) option" where
  "erase T x =
     (case x of
        None \<Rightarrow> None
      | Some t \<Rightarrow> if txn_id_created (fst t) \<in> T then None
          else if txn_id_deleted (fst t) \<in> T then Some (undelete t) else Some t)"

text \<open>The list \<open>us\<close> of undo operations accounts for exactly the marks that the transactions \<open>T\<close> left in
  the rows, a row is inserted before it is deleted, and no row of an unfinished transaction is
  deleted by another one.\<close>

definition created_by :: "txn_id \<Rightarrow> rows \<Rightarrow> row_id set" where
  "created_by t m = {k. \<exists>h d. m k = Some (h, d) \<and> txn_id_created h = t}"

definition deleted_by :: "txn_id \<Rightarrow> rows \<Rightarrow> row_id set" where
  "deleted_by t m = {k. \<exists>h d. m k = Some (h, d) \<and> txn_id_deleted h = t}"

lemma created_by_iff: "m k = Some (h, d) \<Longrightarrow> k \<in> created_by t m \<longleftrightarrow> txn_id_created h = t"
  by (simp add: created_by_def)

lemma deleted_by_iff: "m k = Some (h, d) \<Longrightarrow> k \<in> deleted_by t m \<longleftrightarrow> txn_id_deleted h = t"
  by (simp add: deleted_by_def)

lemma marked_row: "k \<in> created_by t m \<or> k \<in> deleted_by t m \<Longrightarrow> \<exists>h d. m k = Some (h, d)"
  by (auto simp: created_by_def deleted_by_def)

definition ins_first :: "(txn_id \<times> heap_undo) list \<Rightarrow> bool" where
  "ins_first us \<longleftrightarrow> sorted_wrt (\<lambda>x y. \<forall>k. snd x = HDel k \<longrightarrow> snd y \<noteq> HIns k) us"

definition undo_inv :: "txn_id set \<Rightarrow> (txn_id \<times> heap_undo) list \<Rightarrow> rows \<Rightarrow> bool" where
  "undo_inv T us m \<longleftrightarrow> 0 \<notin> T \<and> distinct us \<and> ins_first us \<and> fst ` set us \<subseteq> T \<and>
     (\<forall>t \<in> T. created_by t m = {k. (t, HIns k) \<in> set us} \<and> deleted_by t m = {k. (t, HDel k) \<in> set us}) \<and>
     (\<forall>k h d. m k = Some (h, d) \<longrightarrow> txn_id_created h \<in> T \<longrightarrow> txn_id_deleted h \<in> {0, txn_id_created h})"

lemma undo_invD:
  assumes "undo_inv T us m"
  shows "0 \<notin> T" "distinct us" "ins_first us" "x \<in> set us \<Longrightarrow> fst x \<in> T"
    "t \<in> T \<Longrightarrow> m k = Some (h, d) \<Longrightarrow> txn_id_created h = t \<longleftrightarrow> (t, HIns k) \<in> set us"
    "t \<in> T \<Longrightarrow> m k = Some (h, d) \<Longrightarrow> txn_id_deleted h = t \<longleftrightarrow> (t, HDel k) \<in> set us"
    "(t, HIns k) \<in> set us \<Longrightarrow> \<exists>h d. m k = Some (h, d) \<and> txn_id_created h = t"
    "(t, HDel k) \<in> set us \<Longrightarrow> \<exists>h d. m k = Some (h, d) \<and> txn_id_deleted h = t"
    "m k = Some (h, d) \<Longrightarrow> txn_id_created h \<in> T \<Longrightarrow> txn_id_deleted h = 0 \<or> txn_id_deleted h = txn_id_created h"
proof -
  show "0 \<notin> T" "distinct us" "ins_first us" "x \<in> set us \<Longrightarrow> fst x \<in> T" using assms by (auto simp: undo_inv_def)
  have c: "created_by t m = {k. (t, HIns k) \<in> set us}" "deleted_by t m = {k. (t, HDel k) \<in> set us}" if "t \<in> T" for t
    using assms that by (auto simp: undo_inv_def)
  show "txn_id_created h = t \<longleftrightarrow> (t, HIns k) \<in> set us" if "t \<in> T" "m k = Some (h, d)"
    using c(1) [OF that(1)] created_by_iff [of m k, OF that(2)] by auto
  show "txn_id_deleted h = t \<longleftrightarrow> (t, HDel k) \<in> set us" if "t \<in> T" "m k = Some (h, d)"
    using c(2) [OF that(1)] deleted_by_iff [of m k, OF that(2)] by auto
  have T: "(t, u) \<in> set us \<Longrightarrow> t \<in> T" for t u using assms by (force simp: undo_inv_def)
  show "(t, HIns k) \<in> set us \<Longrightarrow> \<exists>h d. m k = Some (h, d) \<and> txn_id_created h = t"
    using c(1) [of t] T by (auto simp: created_by_def)
  show "(t, HDel k) \<in> set us \<Longrightarrow> \<exists>h d. m k = Some (h, d) \<and> txn_id_deleted h = t"
    using c(2) [of t] T by (auto simp: deleted_by_def)
  show "m k = Some (h, d) \<Longrightarrow> txn_id_created h \<in> T \<Longrightarrow> txn_id_deleted h = 0 \<or> txn_id_deleted h = txn_id_created h"
    using assms unfolding undo_inv_def by blast
qed

lemma undo_invI:
  assumes "0 \<notin> T" "distinct us" "ins_first us" "\<And>x. x \<in> set us \<Longrightarrow> fst x \<in> T"
    "\<And>t k h d. t \<in> T \<Longrightarrow> m k = Some (h, d) \<Longrightarrow> txn_id_created h = t \<longleftrightarrow> (t, HIns k) \<in> set us"
    "\<And>t k h d. t \<in> T \<Longrightarrow> m k = Some (h, d) \<Longrightarrow> txn_id_deleted h = t \<longleftrightarrow> (t, HDel k) \<in> set us"
    "\<And>t k. (t, HIns k) \<in> set us \<Longrightarrow> m k \<noteq> None" "\<And>t k. (t, HDel k) \<in> set us \<Longrightarrow> m k \<noteq> None"
    "\<And>k h d. m k = Some (h, d) \<Longrightarrow> txn_id_created h \<in> T \<Longrightarrow> txn_id_deleted h = 0 \<or> txn_id_deleted h = txn_id_created h"
  shows "undo_inv T us m"
proof -
  have "created_by t m = {k. (t, HIns k) \<in> set us} \<and> deleted_by t m = {k. (t, HDel k) \<in> set us}" if "t \<in> T" for t
  proof (intro conjI set_eqI)
    fix k
    show "k \<in> created_by t m \<longleftrightarrow> k \<in> {k. (t, HIns k) \<in> set us}"
      using assms(5) [OF that, of k] assms(7) [of t k] created_by_iff [of m k] marked_row [of k t m] by (cases "m k") auto
    show "k \<in> deleted_by t m \<longleftrightarrow> k \<in> {k. (t, HDel k) \<in> set us}"
      using assms(6) [OF that, of k] assms(8) [of t k] deleted_by_iff [of m k] marked_row [of k t m] by (cases "m k") auto
  qed
  with assms(1-4,9) show ?thesis by (auto simp: undo_inv_def)
qed

lemma undo_inv_empty:
  assumes "undo_inv T [] m"
  shows "erase T (m k) = m k"
proof (cases "m k")
  case (Some t)
  obtain h d where t: "m k = Some (h, d)" using Some by (cases t) simp
  have "txn_id_created h \<notin> T" "txn_id_deleted h \<notin> T"
    using undo_invD(5) [OF assms _ t, of "txn_id_created h"] undo_invD(6) [OF assms _ t, of "txn_id_deleted h"] by auto
  then show ?thesis using t by (simp add: erase_def)
qed (simp add: erase_def)

text \<open>Undoing the last operation keeps the account, and does not change what the rows become.\<close>

lemma undo_inv_step:
  assumes "undo_inv T (us @ [(t, u)]) m"
  shows "undo_inv T us (undo_map u m)" "erase T (undo_map u m k) = erase T (m k)"
proof -
  note D = undo_invD [OF assms]
  have t: "t \<in> T" "t \<noteq> 0" "(t, u) \<notin> set us" "distinct us" using D(1,2) D(4) [of "(t, u)"] by auto
  have us: "x \<in> set us \<Longrightarrow> fst x \<in> T" for x using D(4) [of x] by simp
  have first: "ins_first us" "\<And>x k. x \<in> set us \<Longrightarrow> snd x = HDel k \<Longrightarrow> u \<noteq> HIns k"
    using D(3) by (auto simp: ins_first_def sorted_wrt_append)
  have "undo_inv T us (undo_map u m) \<and> (\<forall>k. erase T (undo_map u m k) = erase T (m k))"
  proof (cases u)
    case (HIns j)
    from D(7) [of t j] HIns obtain h d where j: "m j = Some (h, d)" "txn_id_created h = t" by auto
    have no: "(t', HIns j) \<notin> set us" "(t', HDel j) \<notin> set us" for t'
    proof -
      show "(t', HDel j) \<notin> set us" using first(2) [of "(t', HDel j)" j] HIns by auto
      show "(t', HIns j) \<notin> set us" using D(7) [of t' j] j t(3) HIns by auto
    qed
    have "undo_inv T us (undo_map u m)"
    proof (rule undo_invI)
      show "undo_map u m k \<noteq> None" if "(t', HIns k) \<in> set us" for t' k using D(7) [of t' k] that no HIns by auto
      show "undo_map u m k \<noteq> None" if "(t', HDel k) \<in> set us" for t' k using D(8) [of t' k] that no HIns by auto
      show "txn_id_created h' = t' \<longleftrightarrow> (t', HIns k) \<in> set us" if "t' \<in> T" "undo_map u m k = Some (h', d')" for t' k h' d'
        using D(5) [OF that(1), of k] that(2) HIns by (auto split: if_splits)
      show "txn_id_deleted h' = t' \<longleftrightarrow> (t', HDel k) \<in> set us" if "t' \<in> T" "undo_map u m k = Some (h', d')" for t' k h' d'
        using D(6) [OF that(1), of k] that(2) HIns by (auto split: if_splits)
      show "txn_id_deleted h' = 0 \<or> txn_id_deleted h' = txn_id_created h'"
        if "undo_map u m k = Some (h', d')" "txn_id_created h' \<in> T" for k h' d'
        using D(9) [of k h' d'] that HIns by (auto split: if_splits)
    qed (use D(1) t us first in auto)
    moreover have "erase T (undo_map u m k) = erase T (m k)" for k using j HIns t(1) by (simp add: erase_def)
    ultimately show ?thesis by blast
  next
    case (HDel j)
    from D(8) [of t j] HDel obtain h d where j: "m j = Some (h, d)" "txn_id_deleted h = t" by auto
    have no: "(t', HDel j) \<notin> set us" for t' using D(8) [of t' j] j t(3) HDel by auto
    have mk: "undo_map u m k = (if k = j then Some (h\<lparr>txn_id_deleted := 0\<rparr>, d) else m k)" for k
      using HDel j by (simp add: undelete_def)
    have "undo_inv T us (undo_map u m)"
    proof (rule undo_invI)
      show "undo_map u m k \<noteq> None" if "(t', HIns k) \<in> set us" for t' k using D(7) [of t' k] that mk by auto
      show "undo_map u m k \<noteq> None" if "(t', HDel k) \<in> set us" for t' k using D(8) [of t' k] that mk by auto
      show "txn_id_created h' = t' \<longleftrightarrow> (t', HIns k) \<in> set us" if "t' \<in> T" "undo_map u m k = Some (h', d')" for t' k h' d'
        using D(5) [OF that(1), of k] that(2) j mk HDel by (auto split: if_splits)
      show "txn_id_deleted h' = t' \<longleftrightarrow> (t', HDel k) \<in> set us" if "t' \<in> T" "undo_map u m k = Some (h', d')" for t' k h' d'
        using D(6) [OF that(1), of k] D(1) that no mk HDel by (auto split: if_splits)
      show "txn_id_deleted h' = 0 \<or> txn_id_deleted h' = txn_id_created h'"
        if "undo_map u m k = Some (h', d')" "txn_id_created h' \<in> T" for k h' d'
        using D(9) [of k h' d'] that mk by (auto split: if_splits)
    qed (use D(1) t us first in auto)
    moreover have "erase T (undo_map u m k) = erase T (m k)" for k
      using j mk t(1) D(1) by (auto simp: erase_def undelete_def)
    ultimately show ?thesis by blast
  qed
  then show "undo_inv T us (undo_map u m)" "erase T (undo_map u m k) = erase T (m k)" by blast+
qed

lemma ins_first_filter: "ins_first us \<Longrightarrow> ins_first (filter P us)"
  by (simp add: ins_first_def sorted_wrt_filter)

lemma ins_first_snoc: "ins_first (us @ [x]) \<longleftrightarrow> ins_first us \<and> (\<forall>y \<in> set us. \<forall>k. snd y = HDel k \<longrightarrow> snd x \<noteq> HIns k)"
  by (auto simp: ins_first_def sorted_wrt_append)

text \<open>Some of the transactions only, for example after a commit.\<close>

lemma undo_inv_restrict:
  assumes "undo_inv T us m" "T' \<subseteq> T"
  shows "undo_inv T' (filter (\<lambda>x. fst x \<in> T') us) m"
proof (rule undo_invI)
  note D = undo_invD [OF assms(1)]
  show "0 \<notin> T'" "distinct (filter (\<lambda>x. fst x \<in> T') us)" "ins_first (filter (\<lambda>x. fst x \<in> T') us)"
    using D(1-3) assms(2) by (auto intro: ins_first_filter)
  show "m k \<noteq> None" if "(t, HIns k) \<in> set (filter (\<lambda>x. fst x \<in> T') us)" for t k using D(7) [of t k] that by auto
  show "m k \<noteq> None" if "(t, HDel k) \<in> set (filter (\<lambda>x. fst x \<in> T') us)" for t k using D(8) [of t k] that by auto
  show "txn_id_created h = t \<longleftrightarrow> (t, HIns k) \<in> set (filter (\<lambda>x. fst x \<in> T') us)" if "t \<in> T'" "m k = Some (h, d)" for t k h d
    using D(5) [of t k h d] that assms(2) by auto
  show "txn_id_deleted h = t \<longleftrightarrow> (t, HDel k) \<in> set (filter (\<lambda>x. fst x \<in> T') us)" if "t \<in> T'" "m k = Some (h, d)" for t k h d
    using D(6) [of t k h d] that assms(2) by auto
  show "txn_id_deleted h = 0 \<or> txn_id_deleted h = txn_id_created h" if "m k = Some (h, d)" "txn_id_created h \<in> T'" for k h d
    using D(9) [OF that(1)] that(2) assms(2) by blast
qed auto

text \<open>After the rollback of one of them.\<close>

lemma undo_inv_erase:
  assumes "undo_inv T us m" "t \<in> T"
  shows "undo_inv (T - {t}) (filter (\<lambda>x. fst x \<in> T - {t}) us) (\<lambda>k. erase {t} (m k))"
proof -
  let ?us = "filter (\<lambda>x. fst x \<in> T - {t}) us"
  note D = undo_invD [OF undo_inv_restrict [OF assms(1), of "T - {t}"]] and E = undo_invD [OF assms(1)]
  have keep: "erase {t} (m k) \<noteq> None" if "m k = Some (h, d)" "txn_id_created h \<in> T - {t} \<or> txn_id_deleted h \<in> T - {t}" for k h d
    using E(9) [OF that(1)] E(1) that assms(2) by (auto simp: erase_def)
  have row: "\<exists>h0. m k = Some (h0, d) \<and> txn_id_created h = txn_id_created h0 \<and> txn_id_created h0 \<noteq> t \<and>
      (txn_id_deleted h = txn_id_deleted h0 \<and> txn_id_deleted h0 \<noteq> t \<or> txn_id_deleted h0 = t \<and> txn_id_deleted h = 0)"
    if "erase {t} (m k) = Some (h, d)" for k h d
    using that by (auto simp: erase_def undelete_def split: option.splits if_splits)
  show ?thesis
  proof (rule undo_invI)
    show "erase {t} (m k) \<noteq> None" if x: "(t', HIns k) \<in> set ?us" for t' k
    proof -
      from D(7) [OF _ x] obtain h d where "m k = Some (h, d)" "txn_id_created h = t'" by auto
      with x show ?thesis by (intro keep) auto
    qed
    show "erase {t} (m k) \<noteq> None" if x: "(t', HDel k) \<in> set ?us" for t' k
    proof -
      from D(8) [OF _ x] obtain h d where "m k = Some (h, d)" "txn_id_deleted h = t'" by auto
      with x show ?thesis by (intro keep) auto
    qed
    show "txn_id_created h = t' \<longleftrightarrow> (t', HIns k) \<in> set ?us" if "t' \<in> T - {t}" "erase {t} (m k) = Some (h, d)" for t' k h d
      using row [OF that(2)] D(5) [OF _ that(1), of k] by auto
    show "txn_id_deleted h = t' \<longleftrightarrow> (t', HDel k) \<in> set ?us" if "t' \<in> T - {t}" "erase {t} (m k) = Some (h, d)" for t' k h d
    proof -
      from row [OF that(2)] obtain h0 where h0: "m k = Some (h0, d)"
        "txn_id_deleted h = txn_id_deleted h0 \<and> txn_id_deleted h0 \<noteq> t \<or> txn_id_deleted h0 = t \<and> txn_id_deleted h = 0" by blast
      with D(6) [OF _ that(1) h0(1)] that(1) E(1) show ?thesis by auto
    qed
    show "txn_id_deleted h = 0 \<or> txn_id_deleted h = txn_id_created h"
      if "erase {t} (m k) = Some (h, d)" "txn_id_created h \<in> T - {t}" for k h d
      using row [OF that(1)] E(9) [of k] that(2) by fastforce
  qed (use D(1-3) in auto)
qed

text \<open>A transaction begins, inserts and deletes.\<close>

lemma undo_inv_begin:
  assumes "undo_inv T us m" "t \<notin> T" "t \<noteq> 0" "\<And>k h d. m k = Some (h, d) \<Longrightarrow> txn_id_created h \<noteq> t \<and> txn_id_deleted h \<noteq> t"
  shows "undo_inv (insert t T) us m"
proof (rule undo_invI)
  note D = undo_invD [OF assms(1)]
  have t: "(t, u) \<notin> set us" for u using D(4) [of "(t, u)"] assms(2) by auto
  show "0 \<notin> insert t T" "distinct us" "ins_first us" "x \<in> set us \<Longrightarrow> fst x \<in> insert t T" for x
    using D(1-4) assms(3) by auto
  show "m k \<noteq> None" if "(t', HIns k) \<in> set us" for t' k using D(7) [of t' k] that by auto
  show "m k \<noteq> None" if "(t', HDel k) \<in> set us" for t' k using D(8) [of t' k] that by auto
  show "txn_id_created h = t' \<longleftrightarrow> (t', HIns k) \<in> set us" if "t' \<in> insert t T" "m k = Some (h, d)" for t' k h d
    using D(5) [of t' k h d] that t assms(4) [OF that(2)] by auto
  show "txn_id_deleted h = t' \<longleftrightarrow> (t', HDel k) \<in> set us" if "t' \<in> insert t T" "m k = Some (h, d)" for t' k h d
    using D(6) [of t' k h d] that t assms(4) [OF that(2)] by auto
  show "txn_id_deleted h = 0 \<or> txn_id_deleted h = txn_id_created h" if "m k = Some (h, d)" "txn_id_created h \<in> insert t T" for k h d
    using D(9) [OF that(1)] assms(4) [OF that(1)] that(2) by blast
qed

lemma undo_inv_insert:
  assumes "undo_inv T us m" "t \<in> T" "m j = None"
  shows "undo_inv T (us @ [(t, HIns j)]) (m(j \<mapsto> (fresh_header t, d0)))"
proof (rule undo_invI)
  note D = undo_invD [OF assms(1)]
  have j: "(t', HIns j) \<notin> set us" "(t', HDel j) \<notin> set us" for t' using D(7,8) [of t' j] assms(3) by auto
  have t0: "t \<noteq> 0" using D(1) assms(2) by auto
  show "0 \<notin> T" "distinct (us @ [(t, HIns j)])" "x \<in> set (us @ [(t, HIns j)]) \<Longrightarrow> fst x \<in> T" for x
    using D(1,2) D(4) [of x] assms(2) j by auto
  show "ins_first (us @ [(t, HIns j)])" using D(3) j by (auto simp: ins_first_snoc)
  show "(m(j \<mapsto> (fresh_header t, d0))) k \<noteq> None" if "(t', HIns k) \<in> set (us @ [(t, HIns j)])" for t' k
    using D(7) [of t' k] that by auto
  show "(m(j \<mapsto> (fresh_header t, d0))) k \<noteq> None" if "(t', HDel k) \<in> set (us @ [(t, HIns j)])" for t' k
    using D(8) [of t' k] that by auto
  show "txn_id_created h = t' \<longleftrightarrow> (t', HIns k) \<in> set (us @ [(t, HIns j)])"
    if "t' \<in> T" "(m(j \<mapsto> (fresh_header t, d0))) k = Some (h, d)" for t' k h d
    using D(5) [OF that(1), of k h d] that(2) j by (auto simp: fresh_header_def split: if_splits)
  show "txn_id_deleted h = t' \<longleftrightarrow> (t', HDel k) \<in> set (us @ [(t, HIns j)])"
    if "t' \<in> T" "(m(j \<mapsto> (fresh_header t, d0))) k = Some (h, d)" for t' k h d
    using D(6) [OF that(1), of k h d] D(1) that j by (auto simp: fresh_header_def split: if_splits)
  show "txn_id_deleted h = 0 \<or> txn_id_deleted h = txn_id_created h"
    if "(m(j \<mapsto> (fresh_header t, d0))) k = Some (h, d)" "txn_id_created h \<in> T" for k h d
    using D(9) [of k h d] that by (auto simp: fresh_header_def split: if_splits)
qed

lemma undo_inv_delete:
  assumes "undo_inv T us m" "t \<in> T" "m j = Some (h0, d0)" "txn_id_deleted h0 = 0" "txn_id_created h0 = t \<or> txn_id_created h0 \<notin> T"
  shows "undo_inv T (us @ [(t, HDel j)]) (m(j \<mapsto> (h0\<lparr>txn_id_deleted := t\<rparr>, d0)))"
proof (rule undo_invI)
  let ?m = "m(j \<mapsto> (h0\<lparr>txn_id_deleted := t\<rparr>, d0))"
  note D = undo_invD [OF assms(1)]
  have j: "(t', HDel j) \<notin> set us" for t'
  proof
    assume x: "(t', HDel j) \<in> set us"
    with D(4) D(8) [OF x] assms(3,4) D(1) show False by fastforce
  qed
  show "0 \<notin> T" "distinct (us @ [(t, HDel j)])" "x \<in> set (us @ [(t, HDel j)]) \<Longrightarrow> fst x \<in> T" for x
    using D(1,2) D(4) [of x] assms(2) j by auto
  show "ins_first (us @ [(t, HDel j)])" using D(3) by (auto simp: ins_first_snoc)
  show "?m k \<noteq> None" if "(t', HIns k) \<in> set (us @ [(t, HDel j)])" for t' k using D(7) [of t' k] that by auto
  show "?m k \<noteq> None" if "(t', HDel k) \<in> set (us @ [(t, HDel j)])" for t' k using D(8) [of t' k] that by auto
  show "txn_id_created h = t' \<longleftrightarrow> (t', HIns k) \<in> set (us @ [(t, HDel j)])" if "t' \<in> T" "?m k = Some (h, d)" for t' k h d
    using D(5) [OF that(1), of k] that(2) assms(3) by (auto split: if_splits)
  show "txn_id_deleted h = t' \<longleftrightarrow> (t', HDel k) \<in> set (us @ [(t, HDel j)])" if "t' \<in> T" "?m k = Some (h, d)" for t' k h d
    using D(6) [OF that(1), of k h d] that(2) j by (auto split: if_splits)
  show "txn_id_deleted h = 0 \<or> txn_id_deleted h = txn_id_created h" if "?m k = Some (h, d)" "txn_id_created h \<in> T" for k h d
    using D(9) [of k h d] that assms(5) by (auto split: if_splits)
qed

end
