(* ===== verification/Meta_Page.thy ===== *)
theory Meta_Page
  imports Storage
begin

text \<open>
  \<open>axiomdb-storage/src/meta.rs\<close>: the fields of page 0, read and written one at a time. Two writers of
  different fields at the same time are not part of the model.
\<close>

definition CHECKPOINT_LSN_BODY_OFFSET :: nat where "CHECKPOINT_LSN_BODY_OFFSET = 24"
definition NEXT_TABLE_ID_BODY_OFFSET :: nat where "NEXT_TABLE_ID_BODY_OFFSET = 64"
definition NEXT_INDEX_ID_BODY_OFFSET :: nat where "NEXT_INDEX_ID_BODY_OFFSET = 68"
definition NEXT_CONSTRAINT_ID_BODY_OFFSET :: nat where "NEXT_CONSTRAINT_ID_BODY_OFFSET = 80"
definition NEXT_FK_ID_BODY_OFFSET :: nat where "NEXT_FK_ID_BODY_OFFSET = 92"
definition CLEAN_SHUTDOWN_BODY_OFFSET :: nat where "CLEAN_SHUTDOWN_BODY_OFFSET = 136"

lemmas meta_offsets = CHECKPOINT_LSN_BODY_OFFSET_def NEXT_TABLE_ID_BODY_OFFSET_def NEXT_INDEX_ID_BODY_OFFSET_def
  NEXT_CONSTRAINT_ID_BODY_OFFSET_def NEXT_FK_ID_BODY_OFFSET_def CLEAN_SHUTDOWN_BODY_OFFSET_def

definition read_meta_u64 :: "mem_storage \<Rightarrow> nat \<Rightarrow> db_error + u64" where
  "read_meta_u64 st body_offset =
     ebind (mem_read_page st 0) (\<lambda>p.
       let off = HEADER_SIZE + body_offset in if PAGE_SIZE < off + 8 then Inl Panic else Inr (get_u64 p off))"

definition read_meta_u32 :: "mem_storage \<Rightarrow> nat \<Rightarrow> db_error + u32" where
  "read_meta_u32 st body_offset =
     ebind (mem_read_page st 0) (\<lambda>p.
       let off = HEADER_SIZE + body_offset in if PAGE_SIZE < off + 4 then Inl Panic else Inr (get_u32 p off))"

text \<open>Read page 0, write the given bytes into its body and seal it again.\<close>

definition write_meta :: "checksum \<Rightarrow> mem_storage \<Rightarrow> nat \<Rightarrow> u8 list \<Rightarrow> db_error + mem_storage" where
  "write_meta crc st body_offset bytes =
     ebind (mem_read_page st 0) (\<lambda>b. ebind (page_from_bytes crc b) (\<lambda>p.
       let off = HEADER_SIZE + body_offset in
       if PAGE_SIZE < off + length bytes then Inl Panic
       else mem_write_page crc 0 (update_checksum crc (write_bytes p off bytes)) st))"

definition write_meta_u32 :: "checksum \<Rightarrow> mem_storage \<Rightarrow> nat \<Rightarrow> u32 \<Rightarrow> db_error + mem_storage" where
  "write_meta_u32 crc st body_offset v = write_meta crc st body_offset (u32_le v)"

definition write_meta_u64 :: "checksum \<Rightarrow> mem_storage \<Rightarrow> nat \<Rightarrow> u64 \<Rightarrow> db_error + mem_storage" where
  "write_meta_u64 crc st body_offset v = write_meta crc st body_offset (u64_le v)"

definition read_checkpoint_lsn :: "mem_storage \<Rightarrow> db_error + u64" where
  "read_checkpoint_lsn st = read_meta_u64 st CHECKPOINT_LSN_BODY_OFFSET"

definition write_checkpoint_lsn :: "checksum \<Rightarrow> mem_storage \<Rightarrow> u64 \<Rightarrow> db_error + mem_storage" where
  "write_checkpoint_lsn crc st lsn = write_meta crc st CHECKPOINT_LSN_BODY_OFFSET (u64_le lsn)"

definition read_clean_shutdown :: "mem_storage \<Rightarrow> db_error + bool" where
  "read_clean_shutdown st =
     ebind (mem_read_page st 0) (\<lambda>p. Inr (p (HEADER_SIZE + CLEAN_SHUTDOWN_BODY_OFFSET) \<noteq> 0))"

definition write_clean_shutdown :: "checksum \<Rightarrow> mem_storage \<Rightarrow> bool \<Rightarrow> db_error + mem_storage" where
  "write_clean_shutdown crc st clean = write_meta crc st CLEAN_SHUTDOWN_BODY_OFFSET [if clean then 1 else 0]"

definition checked_succ :: "u32 \<Rightarrow> db_error + u32" where
  "checked_succ v = (if v = - 1 then Inl SequenceOverflow else Inr (v + 1))"

definition alloc_sequence_u32 :: "checksum \<Rightarrow> mem_storage \<Rightarrow> nat \<Rightarrow> db_error + mem_storage \<times> u32" where
  "alloc_sequence_u32 crc st body_offset =
     ebind (read_meta_u32 st body_offset) (\<lambda>current.
       if current = 0 then Inl CatalogNotInitialized
       else ebind (checked_succ current) (\<lambda>nxt.
         ebind (write_meta_u32 crc st body_offset nxt) (\<lambda>st'. Inr (st', current))))"

text \<open>The sequences that start at 1 on the first call.\<close>

definition alloc_lazy_sequence :: "checksum \<Rightarrow> mem_storage \<Rightarrow> nat \<Rightarrow> db_error + mem_storage \<times> u32" where
  "alloc_lazy_sequence crc st body_offset =
     ebind (read_meta_u32 st body_offset) (\<lambda>current.
       if current = 0 then ebind (write_meta_u32 crc st body_offset 2) (\<lambda>st'. Inr (st', 1))
       else ebind (checked_succ current) (\<lambda>nxt.
         ebind (write_meta_u32 crc st body_offset nxt) (\<lambda>st'. Inr (st', current))))"

definition alloc_table_id :: "checksum \<Rightarrow> mem_storage \<Rightarrow> db_error + mem_storage \<times> u32" where
  "alloc_table_id crc st = alloc_sequence_u32 crc st NEXT_TABLE_ID_BODY_OFFSET"

definition alloc_index_id :: "checksum \<Rightarrow> mem_storage \<Rightarrow> db_error + mem_storage \<times> u32" where
  "alloc_index_id crc st = alloc_sequence_u32 crc st NEXT_INDEX_ID_BODY_OFFSET"

definition alloc_constraint_id :: "checksum \<Rightarrow> mem_storage \<Rightarrow> db_error + mem_storage \<times> u32" where
  "alloc_constraint_id crc st = alloc_lazy_sequence crc st NEXT_CONSTRAINT_ID_BODY_OFFSET"

definition alloc_fk_id :: "checksum \<Rightarrow> mem_storage \<Rightarrow> db_error + mem_storage \<times> u32" where
  "alloc_fk_id crc st = alloc_lazy_sequence crc st NEXT_FK_ID_BODY_OFFSET"

definition write_catalog_header ::
  "checksum \<Rightarrow> mem_storage \<Rightarrow> u64 \<Rightarrow> u64 \<Rightarrow> u64 \<Rightarrow> u32 \<Rightarrow> db_error + mem_storage" where
  "write_catalog_header crc st tables_root columns_root indexes_root schema_ver =
     write_meta crc st 32 (u64_le tables_root @ u64_le columns_root @ u64_le indexes_root @ u32_le schema_ver)"

subsection \<open>Fields\<close>

text \<open>A storage whose page 0 is a sealed page with the magic number.\<close>

definition meta_ok :: "checksum \<Rightarrow> mem_storage \<Rightarrow> bool" where
  "meta_ok crc st \<longleftrightarrow> mem_wf crc st \<and> (\<exists>p. mem_read_page st 0 = Inr p \<and> hdr_magic p = PAGE_MAGIC)"

lemma write_meta_spec:
  assumes "meta_ok crc st" "off + length bytes \<le> 16320"
  shows "\<exists>st' p. write_meta crc st off bytes = Inr st' \<and> meta_ok crc st' \<and> mem_read_page st 0 = Inr p \<and>
    mem_read_page st' 0 = Inr (update_checksum crc (write_bytes p (64 + off) bytes)) \<and>
    (\<forall>j. j \<noteq> 0 \<longrightarrow> mem_read_page st' j = mem_read_page st j)"
proof -
  from assms(1) obtain p where p: "mem_wf crc st" "mem_read_page st 0 = Inr p" "hdr_magic p = PAGE_MAGIC"
    by (auto simp: meta_ok_def)
  have fb: "page_from_bytes crc p = Inr p" using mem.read_sealed [OF p(1,2)] p(3) by (simp add: page_from_bytes_def)
  let ?q = "update_checksum crc (write_bytes p (64 + off) bytes)"
  from mem.rewrite_page [OF p(1,2) verify_updated] obtain st' where
    st': "mem_write_page crc 0 ?q st = Inr st'" "mem_wf crc st'"
      "\<And>j. mem_read_page st' j = (if j = 0 then Inr ?q else mem_read_page st j)" by blast
  have "hdr_magic ?q = PAGE_MAGIC" using p(3) by (simp add: hdr_magic_def get_u64_def read_write_other)
  with st' p fb assms(2) show ?thesis
    by (intro exI [of _ st'] exI [of _ p]) (auto simp: write_meta_def meta_ok_def HEADER_SIZE_def PAGE_SIZE_def)
qed

lemma read_after_write_meta:
  assumes "meta_ok crc st" "write_meta crc st off bytes = Inr st'" "off + length bytes \<le> 16320"
  shows "meta_ok crc st'" "length bytes = 4 \<Longrightarrow> read_meta_u32 st' off = Inr (u32_of_le bytes)"
    "length bytes = 8 \<Longrightarrow> read_meta_u64 st' off = Inr (u64_of_le bytes)"
    "b + 8 \<le> off \<or> off + length bytes \<le> b \<Longrightarrow> read_meta_u64 st' b = read_meta_u64 st b"
    "b + 4 \<le> off \<or> off + length bytes \<le> b \<Longrightarrow> read_meta_u32 st' b = read_meta_u32 st b"
proof -
  from write_meta_spec [OF assms(1,3)] assms(2) obtain p where p: "meta_ok crc st'" "mem_read_page st 0 = Inr p"
    "mem_read_page st' 0 = Inr (update_checksum crc (write_bytes p (64 + off) bytes))" by auto
  then show "meta_ok crc st'" by simp
  show "length bytes = 4 \<Longrightarrow> read_meta_u32 st' off = Inr (u32_of_le bytes)"
    "length bytes = 8 \<Longrightarrow> read_meta_u64 st' off = Inr (u64_of_le bytes)"
    using p assms(3) by (simp_all add: read_meta_u32_def read_meta_u64_def get_u32_def get_u64_def HEADER_SIZE_def PAGE_SIZE_def
        read_write_same Let_def)
  show "b + 8 \<le> off \<or> off + length bytes \<le> b \<Longrightarrow> read_meta_u64 st' b = read_meta_u64 st b"
    "b + 4 \<le> off \<or> off + length bytes \<le> b \<Longrightarrow> read_meta_u32 st' b = read_meta_u32 st b"
    using p by (auto simp: read_meta_u32_def read_meta_u64_def get_u32_def get_u64_def HEADER_SIZE_def Let_def read_write_other)
qed

text \<open>C40: Identifiers are never reused by wrap-around. Allocating a table id returns the stored value and
  stores its successor as a number; at the largest 32-bit value it fails and at 0, before the
  catalog exists, as well. The other sequences and the checkpoint number keep their values.\<close>

theorem alloc_table_id_bounds:
  assumes "meta_ok crc st" "read_meta_u32 st NEXT_TABLE_ID_BODY_OFFSET = Inr cur"
  shows "case alloc_table_id crc st of
      Inl e \<Rightarrow> (unat cur = 0 \<and> e = CatalogNotInitialized) \<or> (unat cur = 2 ^ 32 - 1 \<and> e = SequenceOverflow)
    | Inr (st', i) \<Rightarrow> i = cur \<and> 0 < unat cur \<and> meta_ok crc st' \<and>
        (\<exists>nxt. read_meta_u32 st' NEXT_TABLE_ID_BODY_OFFSET = Inr nxt \<and> unat nxt = unat cur + 1) \<and>
        read_checkpoint_lsn st' = read_checkpoint_lsn st \<and>
        read_meta_u32 st' NEXT_INDEX_ID_BODY_OFFSET = read_meta_u32 st NEXT_INDEX_ID_BODY_OFFSET \<and>
        read_meta_u32 st' NEXT_FK_ID_BODY_OFFSET = read_meta_u32 st NEXT_FK_ID_BODY_OFFSET"
proof (cases "cur = 0 \<or> cur = - 1")
  case True
  have "unat (- 1 :: u32) = 2 ^ 32 - 1" by (simp add: unsigned_minus_1_eq_mask mask_eq_exp_minus_1)
  with True assms(2) show ?thesis
    by (auto simp: alloc_table_id_def alloc_sequence_u32_def checked_succ_def)
next
  case False
  obtain st' where w: "write_meta crc st NEXT_TABLE_ID_BODY_OFFSET (u32_le (cur + 1)) = Inr st'"
    using write_meta_spec [OF assms(1), of NEXT_TABLE_ID_BODY_OFFSET "u32_le (cur + 1)"] by (auto simp: meta_offsets)
  note r = read_after_write_meta [OF assms(1) w]
  have "cur + 1 \<noteq> 0" using False by (metis add.inverse_unique add.commute)
  then have "unat (cur + 1) = unat cur + 1" by (simp add: unatSuc add.commute)
  with False assms(2) w r show ?thesis
    by (auto simp: alloc_table_id_def alloc_sequence_u32_def checked_succ_def write_meta_u32_def meta_offsets
        read_checkpoint_lsn_def unat_gt_0)
qed

lemma fresh_meta: "\<exists>st. mem_new crc = Some st \<and> meta_ok crc st"
proof -
  obtain st where st: "mem_new crc = Some st" "mem_wf crc st" using mem_new_wf by blast
  have "mem_read_page st 0 = Inr (page_new crc Meta 0)"
    using st(1) by (auto simp: mem_new_def mem_read_page_def Let_def split: option.splits)
  with st show ?thesis by (auto simp: meta_ok_def page_new_hdr)
qed

theorem alloc_table_id_bounds_witness:
  "\<exists>st st'. read_meta_u32 st NEXT_TABLE_ID_BODY_OFFSET = Inr 5 \<and> alloc_table_id (\<lambda>_. 0) st = Inr (st', 5) \<and>
     read_meta_u32 st' NEXT_TABLE_ID_BODY_OFFSET = Inr 6"
proof -
  let ?c = "\<lambda>_ :: u8 list. 0 :: u32"
  obtain s0 where s0: "meta_ok ?c s0" using fresh_meta by blast
  obtain st where w: "write_meta ?c s0 NEXT_TABLE_ID_BODY_OFFSET (u32_le 5) = Inr st"
    using write_meta_spec [OF s0, of NEXT_TABLE_ID_BODY_OFFSET "u32_le 5"] by (auto simp: meta_offsets)
  note r = read_after_write_meta [OF s0 w]
  have 5: "meta_ok ?c st" "read_meta_u32 st NEXT_TABLE_ID_BODY_OFFSET = Inr 5" using r(1,2) by (simp_all add: meta_offsets)
  from alloc_table_id_bounds [OF this] obtain st' nxt where
    "alloc_table_id ?c st = Inr (st', 5)" "read_meta_u32 st' NEXT_TABLE_ID_BODY_OFFSET = Inr nxt" "unat nxt = 6"
    by (auto split: sum.splits)
  moreover from this(3) have "nxt = 6" by (simp add: word_unat_eq_iff)
  ultimately show ?thesis using 5(2) by blast
qed

end
