(* ===== verification/Recovery.thy ===== *)
theory Recovery
  imports Row_Map Meta_Page Txn_Clustered_Log
begin

text \<open>
  \<open>axiomdb-wal/src/recovery.rs\<close>, \<open>checkpoint.rs\<close>, \<open>rotation.rs\<close> and the functions of \<open>txn_inspect.rs\<close>,
  \<open>txn_construction.rs\<close> and \<open>txn.rs\<close> that read a log when a database is opened. The log is the list of
  bytes of its file, the functions of the clustered tree are those of \<open>Txn_Undo\<close>.
\<close>

subsection \<open>Scanning the log\<close>

datatype recovery_op =
    RecInsert page_id u16
  | RecDelete page_id u16
  | RecUpdateInPlace page_id u16 "u8 list"
  | RecTruncate page_id txn_id
  | RecClusteredInsert u32 "u8 list"
  | RecClusteredRestore u32 "u8 list" clustered_row_image
  | RecClusteredFieldPatchRestore u32 clustered_field_patch

record scan_state =
  sc_max_committed :: txn_id
  sc_active :: "txn_id set"
  sc_timeline :: "(txn_id \<times> recovery_op) list"
  sc_root_timeline :: "(txn_id \<times> u32 \<times> page_id) list"
  sc_active_roots :: "txn_id \<rightharpoonup> (u32 \<rightharpoonup> page_id)"
  sc_committed_roots :: "u32 \<rightharpoonup> page_id"

definition scan_init :: scan_state where
  "scan_init = \<lparr>sc_max_committed = 0, sc_active = {}, sc_timeline = [], sc_root_timeline = [],
     sc_active_roots = Map.empty, sc_committed_roots = Map.empty\<rparr>"

definition push_ops :: "txn_id \<Rightarrow> recovery_op list \<Rightarrow> scan_state \<Rightarrow> scan_state" where
  "push_ops txn ops s = s\<lparr>sc_timeline := sc_timeline s @ map (Pair txn) ops\<rparr>"

definition note_root :: "txn_id \<Rightarrow> u32 \<Rightarrow> page_id \<Rightarrow> scan_state \<Rightarrow> scan_state" where
  "note_root txn table_id root s =
     s\<lparr>sc_active_roots := (sc_active_roots s)(txn \<mapsto>
          (case sc_active_roots s txn of None \<Rightarrow> Map.empty | Some r \<Rightarrow> r)(table_id \<mapsto> root)),
       sc_root_timeline := sc_root_timeline s @ [(txn, table_id, root)]\<rparr>"

text \<open>The slots of a \<open>PageWrite\<close> or \<open>PageDelete\<close> record, as many as the bytes hold.\<close>

primrec slots_from :: "nat \<Rightarrow> u8 list \<Rightarrow> u16 list" where
  "slots_from 0 bs = []"
| "slots_from (Suc n) bs = (if length bs < 2 then [] else u16_of_le (take 2 bs) # slots_from n (drop 2 bs))"

definition page_slots :: "wal_entry \<Rightarrow> (page_id \<times> u16 list) option" where
  "page_slots e =
     (if length (we_key e) < 8 \<or> length (we_new_value e) < 2 then None
      else Some (u64_of_le (take 8 (we_key e)),
        slots_from (unat (u16_of_le (take 2 (we_new_value e)))) (drop 2 (we_new_value e))))"

definition loc_op :: "(page_id \<Rightarrow> u16 \<Rightarrow> recovery_op) \<Rightarrow> u8 list \<Rightarrow> recovery_op list" where
  "loc_op f bs = (case decode_physical_loc bs of None \<Rightarrow> [] | Some (pid, slot) \<Rightarrow> [f pid slot])"

text \<open>The undo operations of a heap record.\<close>

definition heap_ops :: "wal_entry \<Rightarrow> recovery_op list" where
  "heap_ops e =
     (case we_type e of
        Insert \<Rightarrow> loc_op RecInsert (we_new_value e)
      | Delete \<Rightarrow> loc_op RecDelete (we_old_value e)
      | Update \<Rightarrow> loc_op RecInsert (we_new_value e) @ loc_op RecDelete (we_old_value e)
      | UpdateInPlace \<Rightarrow>
          loc_op (\<lambda>pid slot. RecUpdateInPlace pid slot (drop PHYSICAL_LOC_LEN (we_old_value e))) (we_old_value e)
      | PageWrite \<Rightarrow> (case page_slots e of None \<Rightarrow> [] | Some (pid, ss) \<Rightarrow> map (RecInsert pid) ss)
      | PageDelete \<Rightarrow> (case page_slots e of None \<Rightarrow> [] | Some (pid, ss) \<Rightarrow> map (RecDelete pid) ss)
      | Truncate \<Rightarrow> (if length (we_key e) < 8 then [] else [RecTruncate (u64_of_le (take 8 (we_key e))) (we_txn_id e)])
      | _ \<Rightarrow> [])"

definition scan_entry :: "wal_entry \<Rightarrow> scan_state \<Rightarrow> db_error + scan_state" where
  "scan_entry e s =
     (let txn = we_txn_id e; active = (txn \<in> sc_active s) in
      case we_type e of
        Begin \<Rightarrow> Inr (s\<lparr>sc_active := insert txn (sc_active s),
          sc_active_roots := (case sc_active_roots s txn of
             None \<Rightarrow> (sc_active_roots s)(txn \<mapsto> Map.empty) | Some _ \<Rightarrow> sc_active_roots s)\<rparr>)
      | Commit \<Rightarrow> Inr (s\<lparr>sc_max_committed := max (sc_max_committed s) txn, sc_active := sc_active s - {txn},
          sc_active_roots := (sc_active_roots s)(txn := None),
          sc_committed_roots := (case sc_active_roots s txn of
             None \<Rightarrow> sc_committed_roots s | Some roots \<Rightarrow> sc_committed_roots s ++ roots)\<rparr>)
      | Rollback \<Rightarrow> Inr (s\<lparr>sc_active := sc_active s - {txn}, sc_active_roots := (sc_active_roots s)(txn := None)\<rparr>)
      | Checkpoint \<Rightarrow> Inr s
      | ClusteredInsert \<Rightarrow>
          ebind (row_image_from_bytes (we_new_value e)) (\<lambda>new_row.
            Inr (if active then push_ops txn [RecClusteredInsert (we_table_id e) (we_key e)]
                   (note_root txn (we_table_id e) (ri_root_pid new_row) s) else s))
      | ClusteredFieldPatch \<Rightarrow>
          ebind (from_wal_values (we_key e) (we_old_value e) (we_new_value e)) (\<lambda>patch.
            Inr (if active then push_ops txn [RecClusteredFieldPatchRestore (we_table_id e) patch] s else s))
      | t \<Rightarrow>
          if t = ClusteredDeleteMark \<or> t = ClusteredUpdate then
            ebind (row_image_from_bytes (we_old_value e)) (\<lambda>old_row.
              ebind (row_image_from_bytes (we_new_value e)) (\<lambda>new_row.
                Inr (if active then push_ops txn [RecClusteredRestore (we_table_id e) (we_key e) old_row]
                       (note_root txn (we_table_id e) (ri_root_pid new_row) s) else s)))
          else Inr (if active then push_ops txn (heap_ops e) s else s))"

text \<open>A torn or damaged record ends the scan, any other error is returned.\<close>

definition ends_scan :: "db_error \<Rightarrow> bool" where
  "ends_scan e = (case e of WalEntryTruncated _ \<Rightarrow> True | WalChecksumMismatch _ _ _ \<Rightarrow> True | _ \<Rightarrow> False)"

primrec scan_log :: "(db_error + wal_entry) list \<Rightarrow> scan_state \<Rightarrow> db_error + scan_state" where
  "scan_log [] s = Inr s"
| "scan_log (r # rs) s =
     (case r of
        Inl e \<Rightarrow> if ends_scan e then Inr s else Inl e
      | Inr entry \<Rightarrow> ebind (scan_entry entry s) (scan_log rs))"

primrec begun_ended :: "(db_error + wal_entry) list \<Rightarrow> txn_id set \<times> txn_id set \<Rightarrow> db_error + txn_id set \<times> txn_id set" where
  "begun_ended [] be = Inr be"
| "begun_ended (r # rs) be =
     (case r of
        Inl e \<Rightarrow> if ends_scan e then Inr be else Inl e
      | Inr entry \<Rightarrow>
          begun_ended rs
            (case we_type entry of
               Begin \<Rightarrow> (insert (we_txn_id entry) (fst be), snd be)
             | Commit \<Rightarrow> (fst be, insert (we_txn_id entry) (snd be))
             | Rollback \<Rightarrow> (fst be, insert (we_txn_id entry) (snd be))
             | _ \<Rightarrow> be))"

definition is_needed :: "checksum \<Rightarrow> u8 list \<Rightarrow> mem_storage \<Rightarrow> db_error + bool" where
  "is_needed crc f st =
     ebind (read_checkpoint_lsn st) (\<lambda>lsn.
       ebind (read_forward crc f lsn) (\<lambda>rs.
         ebind (begun_ended rs ({}, {})) (\<lambda>(begun, ended). Inr (\<not> begun \<subseteq> ended))))"

subsection \<open>Undoing\<close>

text \<open>A slot that is already dead is not an error here.\<close>

definition tolerant :: "page \<times> (db_error + unit) \<Rightarrow> page \<times> (db_error + unit)" where
  "tolerant pr = (case pr of
      (p, Inl (AlreadyDeleted _ _)) \<Rightarrow> (p, Inr ())
    | _ \<Rightarrow> pr)"

primrec restore_deltas :: "field_delta list \<Rightarrow> u8 list \<Rightarrow> db_error + u8 list" where
  "restore_deltas [] row = Inr row"
| "restore_deltas (d # ds) row =
     (let start = unat (fd_offset d); n = unat (fd_size d) in
      if length row < start + n then Inl (BTreeCorrupted ''clustered field patch undo exceeds row length'')
      else if length (fd_old_bytes d) < n then Inl Panic
      else restore_deltas ds (take start row @ take n (fd_old_bytes d) @ drop (start + n) row))"

definition restore_field_patch ::
  "tree_ops \<Rightarrow> clustered_field_patch \<Rightarrow> mem_storage \<Rightarrow> page_id \<Rightarrow> mem_storage \<times> (db_error + page_id)" where
  "restore_field_patch ops patch st root =
     (case lookup_physical_row ops st root (fp_key patch) of
        Inl e \<Rightarrow> (st, Inl e)
      | Inr None \<Rightarrow> (st, Inr root)
      | Inr (Some row) \<Rightarrow>
          (case restore_deltas (fp_field_deltas patch) row of
             Inl e \<Rightarrow> (st, Inl e)
           | Inr row \<Rightarrow> restore_exact_row_image ops st root (fp_key patch) (fp_old_header patch) row))"

primrec recover_op ::
  "checksum \<Rightarrow> tree_ops \<Rightarrow> (u32 \<rightharpoonup> page_id) \<Rightarrow> mem_storage \<Rightarrow> recovery_op \<Rightarrow> undo_result option" where
  "recover_op crc ops roots st (RecInsert pid slot) =
     Some (roots, edit_page crc pid (\<lambda>p. tolerant (mark_slot_dead crc p slot)) st)"
| "recover_op crc ops roots st (RecDelete pid slot) =
     Some (roots, edit_page crc pid (\<lambda>p. tolerant (clear_deletion crc p slot)) st)"
| "recover_op crc ops roots st (RecUpdateInPlace pid slot old_image) =
     Some (roots, edit_page crc pid (\<lambda>p. restore_tuple_image crc p slot old_image) st)"
| "recover_op crc ops roots st (RecTruncate root txn) =
     clear_deletions_by_txn crc txn root st \<bind> (\<lambda>r. Some (roots, r))"
| "recover_op crc ops roots st (RecClusteredInsert table_id key) =
     Some (with_root roots table_id st (\<lambda>root.
       case delete_physical_by_key ops st root key of
         (st', Inl e) \<Rightarrow> (st', Inl e)
       | (st', Inr None) \<Rightarrow> (st', Inr root)
       | (st', Inr (Some new_root)) \<Rightarrow> (st', Inr new_root)))"
| "recover_op crc ops roots st (RecClusteredRestore table_id key old_row) =
     Some (with_root roots table_id st (\<lambda>root. restore_exact_row_image ops st root key (ri_row_header old_row) (ri_row_data old_row)))"
| "recover_op crc ops roots st (RecClusteredFieldPatchRestore table_id patch) =
     Some (with_root roots table_id st (restore_field_patch ops patch st))"

primrec recover_all ::
  "checksum \<Rightarrow> tree_ops \<Rightarrow> txn_id set \<Rightarrow> (txn_id \<times> recovery_op) list \<Rightarrow> (u32 \<rightharpoonup> page_id) \<Rightarrow> mem_storage \<Rightarrow> undo_result option" where
  "recover_all crc ops active [] roots st = Some (roots, st, Inr ())"
| "recover_all crc ops active (x # xs) roots st =
     (if fst x \<notin> active then recover_all crc ops active xs roots st
      else recover_op crc ops roots st (snd x) \<bind> (\<lambda>(roots, st, r). case r of
             Inl e \<Rightarrow> Some (roots, st, Inl e)
           | Inr _ \<Rightarrow> recover_all crc ops active xs roots st))"

record recovery_result =
  rr_max_committed :: txn_id
  rr_undone_txns :: u32
  rr_checkpoint_lsn :: u64
  rr_clustered_roots :: "u32 \<rightharpoonup> page_id"

definition losers_roots :: "scan_state \<Rightarrow> u32 \<rightharpoonup> page_id" where
  "losers_roots s =
     fold (\<lambda>(txn, table_id, root) roots. if txn \<in> sc_active s then roots(table_id \<mapsto> root) else roots)
       (sc_root_timeline s) (sc_committed_roots s)"

definition recover ::
  "checksum \<Rightarrow> tree_ops \<Rightarrow> u8 list \<Rightarrow> mem_storage \<Rightarrow> (mem_storage \<times> (db_error + recovery_result)) option" where
  "recover crc ops f st =
     (case ebind (read_checkpoint_lsn st) (\<lambda>lsn.
             ebind (read_forward crc f lsn) (\<lambda>rs. ebind (scan_log rs scan_init) (\<lambda>s. Inr (lsn, s)))) of
        Inl e \<Rightarrow> Some (st, Inl e)
      | Inr (lsn, s) \<Rightarrow>
          recover_all crc ops (sc_active s) (rev (sc_timeline s)) (losers_roots s) st \<bind> (\<lambda>(roots, st, r).
            case r of
              Inl e \<Rightarrow> Some (st, Inl e)
            | Inr _ \<Rightarrow> Some (st, Inr \<lparr>rr_max_committed = sc_max_committed s, rr_undone_txns = word_of_nat (card (sc_active s)),
                rr_checkpoint_lsn = lsn, rr_clustered_roots = roots\<rparr>)))"

subsection \<open>Opening, checkpoints and rotation\<close>

definition open_with_recovery ::
  "checksum \<Rightarrow> tree_ops \<Rightarrow> u8 list \<Rightarrow> mem_storage \<Rightarrow> (mem_storage \<times> (db_error + txn_mgr \<times> recovery_result)) option" where
  "open_with_recovery crc ops f st =
     recover crc ops f st \<bind> (\<lambda>(st, r).
       Some (st, ebind r (\<lambda>result. ebind (cw_open crc f) (\<lambda>wal.
         Inr (tm_opened wal (rr_max_committed result) (rr_clustered_roots result), result)))))"

text \<open>\<open>scan_committed_state\<close>, used when a log is opened without recovery.\<close>

definition committed_entry ::
  "wal_entry \<Rightarrow> txn_id \<times> (txn_id \<rightharpoonup> (u32 \<rightharpoonup> page_id)) \<times> (u32 \<rightharpoonup> page_id) \<Rightarrow>
   db_error + txn_id \<times> (txn_id \<rightharpoonup> (u32 \<rightharpoonup> page_id)) \<times> (u32 \<rightharpoonup> page_id)" where
  "committed_entry e s =
     (case s of (mx, active, committed) \<Rightarrow>
        let txn = we_txn_id e; t = we_type e in
        if t = Begin then Inr (mx, if active txn = None then active(txn \<mapsto> Map.empty) else active, committed)
        else if t = Commit then
          Inr (max mx txn, active(txn := None), (case active txn of None \<Rightarrow> committed | Some roots \<Rightarrow> committed ++ roots))
        else if t = Rollback then Inr (mx, active(txn := None), committed)
        else if t = ClusteredInsert \<or> t = ClusteredDeleteMark \<or> t = ClusteredUpdate then
          (case active txn of
             None \<Rightarrow> Inr s
           | Some roots \<Rightarrow>
               ebind (row_image_from_bytes (we_new_value e)) (\<lambda>new_row.
                 Inr (mx, active(txn \<mapsto> roots(we_table_id e \<mapsto> ri_root_pid new_row)), committed)))
        else Inr s)"

primrec committed_log ::
  "(db_error + wal_entry) list \<Rightarrow> txn_id \<times> (txn_id \<rightharpoonup> (u32 \<rightharpoonup> page_id)) \<times> (u32 \<rightharpoonup> page_id) \<Rightarrow>
   db_error + txn_id \<times> (txn_id \<rightharpoonup> (u32 \<rightharpoonup> page_id)) \<times> (u32 \<rightharpoonup> page_id)" where
  "committed_log [] s = Inr s"
| "committed_log (r # rs) s =
     (case r of
        Inl e \<Rightarrow> if ends_scan e then Inr s else Inl e
      | Inr entry \<Rightarrow> ebind (committed_entry entry s) (committed_log rs))"

definition scan_committed_state :: "checksum \<Rightarrow> u8 list \<Rightarrow> db_error + txn_id \<times> (u32 \<rightharpoonup> page_id)" where
  "scan_committed_state crc f =
     ebind (read_forward crc f 0) (\<lambda>rs.
       ebind (committed_log rs (0, Map.empty, Map.empty)) (\<lambda>(mx, _, roots). Inr (mx, roots)))"

definition tm_open :: "checksum \<Rightarrow> u8 list \<Rightarrow> db_error + txn_mgr" where
  "tm_open crc f =
     ebind (scan_committed_state crc f) (\<lambda>(mx, roots). ebind (cw_open crc f) (\<lambda>wal. Inr (tm_opened wal mx roots)))"

text \<open>A checkpoint of the memory storage, whose flushes do nothing. It is refused while a transaction is
  active; the error names one of them, here the smallest.\<close>

definition checkpoint_wal :: "checksum \<Rightarrow> mem_storage \<Rightarrow> concurrent_wal \<Rightarrow> concurrent_wal \<times> mem_storage \<times> (db_error + u64)" where
  "checkpoint_wal crc st wal =
     (case cw_append crc (control_entry 0 0 Checkpoint) wal of
        (wal, entry) \<Rightarrow>
          let wal = flush_and_sync wal in
          case write_checkpoint_lsn crc st (we_lsn entry) of
            Inl e \<Rightarrow> (wal, st, Inl e)
          | Inr st' \<Rightarrow> (wal, st', Inr (we_lsn entry)))"

definition tm_checkpoint :: "checksum \<Rightarrow> txn_mgr \<Rightarrow> mem_storage \<Rightarrow> txn_mgr \<times> mem_storage \<times> (db_error + u64)" where
  "tm_checkpoint crc m st =
     (if tm_active_set m \<noteq> {} then (m, st, Inl (TransactionAlreadyActive (Min (tm_active_set m))))
      else case checkpoint_wal crc st (tm_wal m) of (wal, st', r) \<Rightarrow> (m\<lparr>tm_wal := wal\<rparr>, st', r))"

definition rotate_wal :: "checksum \<Rightarrow> txn_mgr \<Rightarrow> mem_storage \<Rightarrow> txn_mgr \<times> mem_storage \<times> (db_error + u64)" where
  "rotate_wal crc m st =
     (case tm_checkpoint crc m st of
        (m, st, Inl e) \<Rightarrow> (m, st, Inl e)
      | (m, st, Inr lsn) \<Rightarrow>
          let f = rotate_file lsn (ws_file (cw_writer (tm_wal m))) in
          case cw_open crc f of
            Inl e \<Rightarrow> (m\<lparr>tm_wal := (tm_wal m)\<lparr>cw_writer := (cw_writer (tm_wal m))\<lparr>ws_file := f\<rparr>\<rparr>\<rparr>, st, Inl e)
          | Inr wal \<Rightarrow> (m\<lparr>tm_wal := wal\<rparr>, st, Inr lsn))"

definition check_and_rotate :: "checksum \<Rightarrow> nat \<Rightarrow> txn_mgr \<Rightarrow> mem_storage \<Rightarrow> txn_mgr \<times> mem_storage \<times> (db_error + bool)" where
  "check_and_rotate crc max_wal_size m st =
     (if max_wal_size < ws_logical_end (cw_writer (tm_wal m))
      then case rotate_wal crc m st of (m, st, r) \<Rightarrow> (m, st, ebind r (\<lambda>_. Inr True))
      else (m, st, Inr False))"

end
