(* ===== verification/Heap_Sessions.thy ===== *)
theory Heap_Sessions
  imports Undo_Account Recovery
begin

text \<open>
  Transactions on heap tables, the log they write, and what rollback and crash recovery make of it. A
  state of the system holds the heap pages, the transactions that have begun and not ended with
  their undo lists, and the records of the log.
\<close>

subsection \<open>The undo loops\<close>

primrec undo_key :: "heap_undo \<Rightarrow> row_id" where
  "undo_key (HIns k) = k"
| "undo_key (HDel k) = k"

text \<open>What a loop over undo operations relies on: the operations on heap rows act on the map of rows as
  \<open>undo_map\<close> says, the others can be passed over.\<close>

locale undo_loop =
  fixes crc :: checksum
    and run_one :: "'op \<Rightarrow> (u32 \<rightharpoonup> page_id) \<Rightarrow> mem_storage \<Rightarrow> undo_result option"
    and run_all :: "'op list \<Rightarrow> (u32 \<rightharpoonup> page_id) \<Rightarrow> mem_storage \<Rightarrow> undo_result option"
    and skip :: "'op \<Rightarrow> bool"
    and view :: "'op \<Rightarrow> (txn_id \<times> heap_undo) option"
  assumes run_nil: "run_all [] roots st = Some (roots, st, Inr ())"
    and run_skip: "skip x \<Longrightarrow> run_all (x # xs) roots st = run_all xs roots st"
    and run_step: "\<not> skip x \<Longrightarrow> run_one x roots st = Some (roots', st', Inr ()) \<Longrightarrow>
      run_all (x # xs) roots st = run_all xs roots' st'"
    and run_heap: "view x = Some (t, u) \<Longrightarrow> \<not> skip x \<Longrightarrow> heap_st crc H st \<Longrightarrow> row_map H st (undo_key u) \<noteq> None \<Longrightarrow>
      \<exists>st'. run_one x roots st = Some (roots, st', Inr ()) \<and> heap_st crc H st' \<and> keeps H st st' \<and>
        row_map H st' = undo_map u (row_map H st)"
begin

lemma run_all_erases:
  assumes "heap_st crc H st" "undo_inv T us (row_map H st)" "map view (filter (\<lambda>x. \<not> skip x) xs) = map Some us"
  shows "\<exists>st'. run_all (rev xs) roots st = Some (roots, st', Inr ()) \<and> heap_st crc H st' \<and> keeps H st st' \<and>
    row_map H st' = (\<lambda>k. erase T (row_map H st k))"
  using assms
proof (induction xs arbitrary: us st rule: rev_induct)
  case Nil
  then show ?case using undo_inv_empty [of T "row_map H st"] by (auto simp: run_nil keeps_def)
next
  case (snoc x xs)
  show ?case
  proof (cases "skip x")
    case True
    with snoc.IH [OF snoc.prems(1,2)] snoc.prems(3) show ?thesis by (simp add: run_skip)
  next
    case False
    with snoc.prems(3) obtain us' t u where us: "us = us' @ [(t, u)]" "view x = Some (t, u)"
      "map view (filter (\<lambda>x. \<not> skip x) xs) = map Some us'"
      by (auto simp: map_eq_append_conv append_eq_map_conv)
    note inv = snoc.prems(2) [unfolded us(1)]
    have "row_map H st (undo_key u) \<noteq> None" using undo_invD(7,8) [OF inv, of t "undo_key u"] by (cases u) auto
    with run_heap [OF us(2) False snoc.prems(1)] obtain st1 where st1: "run_one x roots st = Some (roots, st1, Inr ())"
      "heap_st crc H st1" "keeps H st st1" "row_map H st1 = undo_map u (row_map H st)" by blast
    have "undo_inv T us' (row_map H st1)" using undo_inv_step(1) [OF inv] st1(4) by simp
    from snoc.IH [OF st1(2) this us(3)] obtain st' where st': "run_all (rev xs) roots st1 = Some (roots, st', Inr ())"
      "heap_st crc H st'" "keeps H st1 st'" "row_map H st' = (\<lambda>k. erase T (row_map H st1 k))" by blast
    have "row_map H st' = (\<lambda>k. erase T (row_map H st k))"
      using st'(4) st1(4) undo_inv_step(2) [OF inv] by simp
    with st' run_step [OF False st1(1)] keeps_trans [OF st1(3) st'(3)] show ?thesis by simp
  qed
qed

end

text \<open>The two loops of the source: rollback, where index operations leave the heap alone, and
  recovery, which passes over transactions that have ended.\<close>

primrec is_index_undo :: "undo_op \<Rightarrow> bool" where
  "is_index_undo (UndoInsert p s) = False"
| "is_index_undo (UndoDelete p s) = False"
| "is_index_undo (UndoUpdateInPlace p s img) = False"
| "is_index_undo (UndoTruncate r) = False"
| "is_index_undo (UndoIndexInsert i r k) = True"
| "is_index_undo (UndoIndexDelete i r k p s f) = True"
| "is_index_undo (UndoClusteredInsert t k) = False"
| "is_index_undo (UndoClusteredRestore t k img) = False"
| "is_index_undo (UndoClusteredUndelete t k) = False"
| "is_index_undo (UndoClusteredFieldPatch t k h ds) = False"

definition undo_view :: "txn_id \<Rightarrow> undo_op \<Rightarrow> (txn_id \<times> heap_undo) option" where
  "undo_view t op =
     (case op of
        UndoInsert pid slot \<Rightarrow> Some (t, HIns (pid, slot))
      | UndoDelete pid slot \<Rightarrow> Some (t, HDel (pid, slot))
      | _ \<Rightarrow> None)"

definition rec_view :: "txn_id \<times> recovery_op \<Rightarrow> (txn_id \<times> heap_undo) option" where
  "rec_view x =
     (case snd x of
        RecInsert pid slot \<Rightarrow> Some (fst x, HIns (pid, slot))
      | RecDelete pid slot \<Rightarrow> Some (fst x, HDel (pid, slot))
      | _ \<Rightarrow> None)"

lemma undo_insert_rows:
  assumes "heap_st crc H st" "row_map H st (pid, i) \<noteq> None"
  shows "\<exists>st'. edit_page crc pid (\<lambda>p. mark_slot_dead crc p i) st = (st', Inr ()) \<and> heap_st crc H st' \<and> keeps H st st' \<and>
    row_map H st' = undo_map (HIns (pid, i)) (row_map H st)"
proof -
  from assms(2) obtain t where t: "row_map H st (pid, i) = Some t" by auto
  then have "pid \<in> H" by (auto simp: row_map_def split: if_splits)
  from undo_insert_map [OF assms(1) this row_map_bound [OF assms(1) t]] show ?thesis by simp
qed

lemma undo_delete_rows:
  assumes "heap_st crc H st" "row_map H st (pid, i) \<noteq> None"
  shows "\<exists>st'. edit_page crc pid (\<lambda>p. clear_deletion crc p i) st = (st', Inr ()) \<and> heap_st crc H st' \<and> keeps H st st' \<and>
    row_map H st' = undo_map (HDel (pid, i)) (row_map H st)"
proof -
  from assms(2) obtain h d where t: "row_map H st (pid, i) = Some (h, d)" by auto
  from undo_delete_map [OF assms(1) t] t show ?thesis by (simp add: undelete_def)
qed

lemma edit_tolerant:
  "edit_page crc pid f st = (st', Inr ()) \<Longrightarrow> edit_page crc pid (\<lambda>p. tolerant (f p)) st = (st', Inr ())"
  by (auto simp: edit_page_def tolerant_def split: sum.splits prod.splits)

interpretation rb: undo_loop crc "\<lambda>op roots st. undo_one crc ops txn roots st op" "undo_all crc ops txn" is_index_undo "undo_view txn"
proof
  fix x roots st roots' st' xs
  show "undo_all crc ops txn [] roots st = Some (roots, st, Inr ())" by simp
  show "undo_all crc ops txn (x # xs) roots st = undo_all crc ops txn xs roots st" if "is_index_undo x"
    using that by (cases x) simp_all
  show "undo_all crc ops txn (x # xs) roots st = undo_all crc ops txn xs roots' st'"
    if "undo_one crc ops txn roots st x = Some (roots', st', Inr ())"
    using that by simp
next
  fix x t u H st roots
  assume a: "undo_view txn x = Some (t, u)" "heap_st crc H st" "row_map H st (undo_key u) \<noteq> None"
  show "\<exists>st'. undo_one crc ops txn roots st x = Some (roots, st', Inr ()) \<and> heap_st crc H st' \<and> keeps H st st' \<and>
      row_map H st' = undo_map u (row_map H st)"
  proof (cases x)
    case (UndoInsert pid i)
    with undo_insert_rows [OF a(2), of pid i] a show ?thesis by (auto simp: undo_view_def)
  next
    case (UndoDelete pid i)
    with undo_delete_rows [OF a(2), of pid i] a show ?thesis by (auto simp: undo_view_def)
  qed (use a(1) in \<open>simp_all add: undo_view_def\<close>)
qed

interpretation rec: undo_loop crc "\<lambda>op roots st. recover_op crc ops roots st (snd op)" "recover_all crc ops active"
  "\<lambda>x. fst x \<notin> active" rec_view
proof
  fix x :: "txn_id \<times> recovery_op" and roots st roots' st' xs
  show "recover_all crc ops active [] roots st = Some (roots, st, Inr ())" by simp
  show "recover_all crc ops active (x # xs) roots st = recover_all crc ops active xs roots st" if "fst x \<notin> active"
    using that by simp
  show "recover_all crc ops active (x # xs) roots st = recover_all crc ops active xs roots' st'"
    if "\<not> fst x \<notin> active" "recover_op crc ops roots st (snd x) = Some (roots', st', Inr ())"
    using that by simp
next
  fix x :: "txn_id \<times> recovery_op" and t u H st roots
  assume a: "rec_view x = Some (t, u)" "heap_st crc H st" "row_map H st (undo_key u) \<noteq> None"
  show "\<exists>st'. recover_op crc ops roots st (snd x) = Some (roots, st', Inr ()) \<and> heap_st crc H st' \<and> keeps H st st' \<and>
      row_map H st' = undo_map u (row_map H st)"
  proof (cases "snd x")
    case (RecInsert pid i)
    with a undo_insert_rows [OF a(2), of pid i] edit_tolerant [of crc pid "\<lambda>p. mark_slot_dead crc p i" st]
    show ?thesis by (auto simp: rec_view_def)
  next
    case (RecDelete pid i)
    with a undo_delete_rows [OF a(2), of pid i] edit_tolerant [of crc pid "\<lambda>p. clear_deletion crc p i" st]
    show ?thesis by (auto simp: rec_view_def)
  qed (use a(1) in \<open>simp_all add: rec_view_def\<close>)
qed

subsection \<open>The system\<close>

record heap_sys =
  hs_pages :: "page_id set"
  hs_st :: mem_storage
  hs_open :: "txn_id \<rightharpoonup> undo_op list"
  hs_log :: "wal_entry list"
  hs_next :: txn_id

text \<open>The record of an insertion, of a deletion and of the begin and end of a transaction, under any
  sequence number.\<close>

abbreviation insert_record :: "u64 \<Rightarrow> txn_id \<Rightarrow> u32 \<Rightarrow> u8 list \<Rightarrow> row_id \<Rightarrow> u8 list \<Rightarrow> wal_entry" where
  "insert_record lsn t table_id key k data \<equiv>
     (dml_entry t Insert table_id key [] (encode_physical_loc (fst k) (snd k) @ data))\<lparr>we_lsn := lsn\<rparr>"

abbreviation delete_record :: "u64 \<Rightarrow> txn_id \<Rightarrow> u32 \<Rightarrow> u8 list \<Rightarrow> row_id \<Rightarrow> u8 list \<Rightarrow> wal_entry" where
  "delete_record lsn t table_id key k data \<equiv>
     (dml_entry t Delete table_id key (encode_physical_loc (fst k) (snd k) @ data) [])\<lparr>we_lsn := lsn\<rparr>"

text \<open>Rows are inserted into any chain of the heap pages, at the returned row id; a transaction deletes
  rows that are not deleted and not another unfinished transaction's. A rollback is the function
  of the transaction manager, for a connection whose undo list is the one built by the steps and
  which holds no reserved pages.\<close>

inductive heap_step :: "checksum \<Rightarrow> heap_sys \<Rightarrow> heap_sys \<Rightarrow> bool" for crc where
  hbegin: "t = hs_next s \<Longrightarrow> t < t + 1 \<Longrightarrow>
    heap_step crc s (s\<lparr>hs_open := (hs_open s)(t \<mapsto> []), hs_next := t + 1, hs_log := hs_log s @ [control_entry lsn t Begin]\<rparr>)"
| hinsert: "hs_open s t = Some ul \<Longrightarrow> chain_path (hs_st s) root ps \<Longrightarrow> root \<noteq> 0 \<Longrightarrow> set ps \<subseteq> hs_pages s \<Longrightarrow>
    chain_insert crc w root data t None (hs_st s) = Some (b, st', Inr (pid, slot)) \<Longrightarrow>
    heap_step crc s (s\<lparr>hs_pages := insert pid (hs_pages s), hs_st := st', hs_open := (hs_open s)(t \<mapsto> ul @ [UndoInsert pid slot]),
      hs_log := hs_log s @ [insert_record lsn t table_id key (pid, slot) val]\<rparr>)"
| hdelete: "hs_open s t = Some ul \<Longrightarrow> row_map (hs_pages s) (hs_st s) (pid, slot) = Some (h, d) \<Longrightarrow> txn_id_deleted h = 0 \<Longrightarrow>
    txn_id_created h = t \<or> txn_id_created h \<notin> dom (hs_open s) \<Longrightarrow> chain_delete crc pid slot t (hs_st s) = Inr st' \<Longrightarrow>
    heap_step crc s (s\<lparr>hs_st := st', hs_open := (hs_open s)(t \<mapsto> ul @ [UndoDelete pid slot]),
      hs_log := hs_log s @ [delete_record lsn t table_id key (pid, slot) val]\<rparr>)"
| hindex: "hs_open s t = Some ul \<Longrightarrow> is_index_undo u \<Longrightarrow> heap_step crc s (s\<lparr>hs_open := (hs_open s)(t \<mapsto> ul @ [u])\<rparr>)"
| hcommit: "hs_open s t = Some ul \<Longrightarrow>
    heap_step crc s (s\<lparr>hs_open := (hs_open s)(t := None), hs_log := hs_log s @ [control_entry lsn t Commit]\<rparr>)"
| hrollback: "hs_open s t = Some ul \<Longrightarrow> ct_txn_id conn = t \<Longrightarrow> ct_undo_ops conn = ul \<Longrightarrow>
    lb_available (ct_local_page_batch conn) = [] \<Longrightarrow>
    txn_rollback crc ops conn m (hs_st s) = Some (m', st', Inr ()) \<Longrightarrow>
    heap_step crc s (s\<lparr>hs_st := st', hs_open := (hs_open s)(t := None), hs_log := hs_log s @ [control_entry lsn t Rollback]\<rparr>)"

text \<open>Every transaction number in the rows lies below the next one.\<close>

definition ids_below :: "txn_id \<Rightarrow> rows \<Rightarrow> bool" where
  "ids_below n m \<longleftrightarrow> (\<forall>k h d. m k = Some (h, d) \<longrightarrow> txn_id_created h < n \<and> txn_id_deleted h < n)"

inductive heap_reach :: "checksum \<Rightarrow> heap_sys \<Rightarrow> bool" for crc where
  start: "heap_st crc (hs_pages s) (hs_st s) \<Longrightarrow> ids_below (hs_next s) (row_map (hs_pages s) (hs_st s)) \<Longrightarrow> 0 < hs_next s \<Longrightarrow>
    hs_open s = Map.empty \<Longrightarrow> hs_log s = [] \<Longrightarrow> heap_reach crc s"
| more: "heap_reach crc s \<Longrightarrow> heap_step crc s s' \<Longrightarrow> heap_reach crc s'"

text \<open>The log scanned by recovery has the open transactions as its losers and accounts for their marks.\<close>

definition log_account :: "heap_sys \<Rightarrow> scan_state \<Rightarrow> (txn_id \<times> heap_undo) list \<Rightarrow> bool" where
  "log_account s sc us \<longleftrightarrow> scan_log (map Inr (hs_log s)) scan_init = Inr sc \<and> sc_active sc = dom (hs_open s) \<and>
     finite (dom (hs_open s)) \<and> (\<forall>x \<in> set (sc_timeline sc). fst x < hs_next s) \<and>
     map rec_view (filter (\<lambda>x. fst x \<in> dom (hs_open s)) (sc_timeline sc)) = map Some us \<and>
     undo_inv (dom (hs_open s)) us (row_map (hs_pages s) (hs_st s)) \<and>
     (\<forall>t ul. hs_open s t = Some ul \<longrightarrow>
        map (undo_view t) (filter (\<lambda>u. \<not> is_index_undo u) ul) = map Some (filter (\<lambda>x. fst x = t) us))"

definition heap_inv :: "checksum \<Rightarrow> heap_sys \<Rightarrow> bool" where
  "heap_inv crc s \<longleftrightarrow> heap_st crc (hs_pages s) (hs_st s) \<and> ids_below (hs_next s) (row_map (hs_pages s) (hs_st s)) \<and>
     0 < hs_next s \<and> (\<forall>t \<in> dom (hs_open s). t < hs_next s) \<and> (\<exists>sc us. log_account s sc us)"

lemma scan_log_append:
  "scan_log (map Inr es) s = Inr s' \<Longrightarrow> scan_log (map Inr es @ rs) s = scan_log rs s'"
proof (induction es arbitrary: s)
  case (Cons e es)
  then show ?case by (cases "scan_entry e s") auto
qed simp

lemma scan_snoc:
  assumes "log_account s sc us" "scan_entry e sc = Inr sc'"
  shows "scan_log (map Inr (hs_log s @ [e])) scan_init = Inr sc'"
  using assms scan_log_append [of "hs_log s" scan_init sc "[Inr e]"] by (simp add: log_account_def)

text \<open>Rolling one open transaction back.\<close>

lemma rollback_run:
  assumes "heap_st crc (hs_pages s) (hs_st s)" "log_account s sc us" "hs_open s t = Some ul" "ct_txn_id conn = t" "ct_undo_ops conn = ul"
    "lb_available (ct_local_page_batch conn) = []"
  shows "\<exists>m' st'. txn_rollback crc ops conn m (hs_st s) = Some (m', st', Inr ()) \<and> t \<notin> tm_active_set m' \<and>
    tm_active_set m' = tm_active_set m - {t} \<and> heap_st crc (hs_pages s) st' \<and> keeps (hs_pages s) (hs_st s) st' \<and>
    row_map (hs_pages s) st' = (\<lambda>k. erase {t} (row_map (hs_pages s) (hs_st s) k))"
proof -
  let ?m = "m\<lparr>tm_wal := fst (cw_append crc (control_entry 0 t Rollback) (tm_wal m))\<rparr>"
  have "undo_inv {t} (filter (\<lambda>x. fst x \<in> {t}) us) (row_map (hs_pages s) (hs_st s))"
    using assms(2,3) by (intro undo_inv_restrict [of "dom (hs_open s)"]) (auto simp: log_account_def)
  moreover have "map (undo_view t) (filter (\<lambda>u. \<not> is_index_undo u) ul) = map Some (filter (\<lambda>x. fst x \<in> {t}) us)"
    using assms(2,3) by (simp add: log_account_def)
  ultimately obtain st' where st': "undo_all crc ops t (rev ul) (ct_clustered_roots conn) (hs_st s) = Some (ct_clustered_roots conn, st', Inr ())"
    "heap_st crc (hs_pages s) st'" "keeps (hs_pages s) (hs_st s) st'"
    "row_map (hs_pages s) st' = (\<lambda>k. erase {t} (row_map (hs_pages s) (hs_st s) k))"
    using rb.run_all_erases [OF assms(1)] by blast
  have "txn_rollback crc ops conn m (hs_st s) = Some (publish_roots (ct_clustered_roots conn) (remove_active t ?m), st', Inr ())"
    using st'(1) assms(4-6) by (simp add: txn_rollback_def take_for_rollback_def Let_def)
  with st' show ?thesis by (auto simp: publish_roots_def remove_active_def)
qed

lemma log_accountD:
  assumes "log_account s sc us"
  shows "sc_active sc = dom (hs_open s)" "finite (dom (hs_open s))" "x \<in> set (sc_timeline sc) \<Longrightarrow> fst x < hs_next s"
    "map rec_view (filter (\<lambda>x. fst x \<in> dom (hs_open s)) (sc_timeline sc)) = map Some us"
    "undo_inv (dom (hs_open s)) us (row_map (hs_pages s) (hs_st s))"
    "hs_open s t = Some ul \<Longrightarrow> map (undo_view t) (filter (\<lambda>u. \<not> is_index_undo u) ul) = map Some (filter (\<lambda>x. fst x = t) us)"
  using assms by (auto simp: log_account_def)

lemma account_begin:
  assumes "log_account s sc us" "ids_below t (row_map (hs_pages s) (hs_st s))" "\<forall>t' \<in> dom (hs_open s). t' < t"
    "t = hs_next s" "t < t + 1" "0 < t"
  shows "\<exists>sc'. log_account (s\<lparr>hs_open := (hs_open s)(t \<mapsto> []), hs_next := t + 1, hs_log := hs_log s @ [control_entry lsn t Begin]\<rparr>) sc' us"
proof -
  note L = log_accountD [OF assms(1)]
  obtain sc' where sc': "scan_entry (control_entry lsn t Begin) sc = Inr sc'" "sc_active sc' = insert t (sc_active sc)"
    "sc_timeline sc' = sc_timeline sc" by (simp add: scan_entry_def control_entry_def Let_def)
  have t: "t \<notin> dom (hs_open s)" using assms(3) by blast
  have tm: "fst x \<noteq> t" "fst x < t + 1" if "x \<in> set (sc_timeline sc)" for x using L(3) [OF that] assms(4,5) by auto
  have "filter (\<lambda>x. fst x \<in> insert t (dom (hs_open s))) (sc_timeline sc) = filter (\<lambda>x. fst x \<in> dom (hs_open s)) (sc_timeline sc)"
    by (rule filter_cong) (use tm in auto)
  moreover have "filter (\<lambda>x. fst x = t) us = []" using undo_invD(4) [OF L(5)] t by (auto simp: filter_empty_conv)
  moreover have "undo_inv (insert t (dom (hs_open s))) us (row_map (hs_pages s) (hs_st s))"
    using assms(2,6) t by (intro undo_inv_begin [OF L(5)]) (auto simp: ids_below_def)
  ultimately show ?thesis
    using scan_snoc [OF assms(1) sc'(1)] sc'(2,3) L tm
    by (intro exI [of _ sc']) (auto simp: log_account_def)
qed

text \<open>A change of row \<open>k\<close> by \<open>t\<close> and the record of it.\<close>

lemma account_change:
  assumes "log_account s sc us" "hs_open s t = Some ul" "t < hs_next s" "undo_view t u = Some (t, hu)" "\<not> is_index_undo u"
    "we_txn_id e = t" "we_type e = Insert \<or> we_type e = Delete" "heap_ops e = [op]" "rec_view (t, op) = Some (t, hu)"
    "undo_inv (dom (hs_open s)) (us @ [(t, hu)]) (row_map H' st')"
  shows "\<exists>sc'. log_account (s\<lparr>hs_pages := H', hs_st := st', hs_open := (hs_open s)(t \<mapsto> ul @ [u]), hs_log := hs_log s @ [e]\<rparr>) sc'
    (us @ [(t, hu)])"
proof -
  note L = log_accountD [OF assms(1)]
  have t: "t \<in> dom (hs_open s)" using assms(2) by blast
  then have act: "t \<in> sc_active sc" using L(1) by simp
  obtain sc' where sc': "scan_entry e sc = Inr sc'" "sc_active sc' = sc_active sc" "sc_timeline sc' = sc_timeline sc @ [(t, op)]"
    using assms(6-8) act by (auto simp: scan_entry_def push_ops_def Let_def)
  have "insert t (dom (hs_open s)) = dom (hs_open s)" using t by blast
  then show ?thesis
    using scan_snoc [OF assms(1) sc'(1)] sc'(2,3) L t assms(2-5,9,10)
    by (intro exI [of _ sc']) (auto simp: log_account_def)
qed

text \<open>The end of a transaction.\<close>

lemma account_end:
  assumes "log_account s sc us" "hs_open s t = Some ul" "ty = Commit \<or> ty = Rollback"
    "undo_inv (dom (hs_open s) - {t}) (filter (\<lambda>x. fst x \<in> dom (hs_open s) - {t}) us) (row_map (hs_pages s) st')"
  shows "\<exists>sc'. log_account (s\<lparr>hs_st := st', hs_open := (hs_open s)(t := None), hs_log := hs_log s @ [control_entry lsn t ty]\<rparr>) sc'
    (filter (\<lambda>x. fst x \<in> dom (hs_open s) - {t}) us)"
proof -
  let ?T = "dom (hs_open s)"
  note L = log_accountD [OF assms(1)]
  obtain sc' where sc': "scan_entry (control_entry lsn t ty) sc = Inr sc'" "sc_active sc' = sc_active sc - {t}"
    "sc_timeline sc' = sc_timeline sc" using assms(3) by (auto simp: scan_entry_def control_entry_def Let_def)
  have view: "fst y = fst x" if "rec_view x = Some y" for x y
    using that by (auto simp: rec_view_def split: recovery_op.splits)
  have "map rec_view (filter (\<lambda>x. fst x \<noteq> t) xs) = map Some (filter (\<lambda>x. fst x \<noteq> t) ys)" if "map rec_view xs = map Some ys" for xs ys
    using that
  proof (induction xs arbitrary: ys)
    case (Cons x xs)
    then obtain y ys' where "ys = y # ys'" "rec_view x = Some y" "map rec_view xs = map Some ys'" by auto
    with Cons.IH view show ?case by auto
  qed simp
  from this [OF L(4)] have "map rec_view (filter (\<lambda>x. fst x \<in> ?T - {t}) (sc_timeline sc)) = map Some (filter (\<lambda>x. fst x \<noteq> t) us)"
    by (simp add: conj_commute)
  moreover have "filter (\<lambda>x. fst x \<noteq> t) us = filter (\<lambda>x. fst x \<in> ?T - {t}) us"
    by (rule filter_cong) (use undo_invD(4) [OF L(5)] in auto)
  moreover have "filter (\<lambda>x. fst x = t') (filter (\<lambda>x. fst x \<in> ?T - {t}) us) = filter (\<lambda>x. fst x = t') us"
    if "hs_open s t' = Some ul'" "t' \<noteq> t" for t' ul'
    using that by (auto intro: filter_cong)
  ultimately show ?thesis
    using scan_snoc [OF assms(1) sc'(1)] sc'(2,3) L assms(4)
    by (intro exI [of _ sc']) (auto simp: log_account_def)
qed

lemma ids_below_mono: "ids_below n m \<Longrightarrow> n \<le> n' \<Longrightarrow> ids_below n' m"
  unfolding ids_below_def by (meson less_le_trans)

lemma ids_below_upd:
  "ids_below n m \<Longrightarrow> txn_id_created h < n \<Longrightarrow> txn_id_deleted h < n \<Longrightarrow> ids_below n (m(k \<mapsto> (h, d)))"
  by (auto simp: ids_below_def)

lemma ids_below_erase: "ids_below n m \<Longrightarrow> 0 < n \<Longrightarrow> ids_below n (\<lambda>k. erase T (m k))"
  by (fastforce simp: ids_below_def erase_def undelete_def split: option.splits if_splits)

lemma heap_inv_step:
  assumes "heap_inv crc s" "heap_step crc s s'"
  shows "heap_inv crc s'"
proof -
  from assms(1) obtain sc us where inv: "heap_st crc (hs_pages s) (hs_st s)" "ids_below (hs_next s) (row_map (hs_pages s) (hs_st s))"
    "0 < hs_next s" "\<forall>t \<in> dom (hs_open s). t < hs_next s" and A: "log_account s sc us" by (auto simp: heap_inv_def)
  note L = log_accountD [OF A]
  from assms(2) show ?thesis
  proof cases
    case (hbegin t lsn)
    then have "0 < t + 1" "\<forall>t' \<in> dom (hs_open s). t' < t + 1" using inv(3,4) order.strict_trans by blast+
    with account_begin [OF A, of t lsn] hbegin inv ids_below_mono [OF inv(2), of "t + 1"] show ?thesis
      by (auto simp: heap_inv_def)
  next
    case (hinsert t ul root ps w data b st' pid slot lsn table_id key val)
    have r: "row_added crc (hs_pages s) (hs_st s) (pid, slot) (fresh_header t, data) st'"
      by (rule chain_insert_map [OF inv(1) hinsert(3-6)])
    have t: "t \<in> dom (hs_open s)" "t < hs_next s" using hinsert(2) inv(4) by auto
    have "undo_inv (dom (hs_open s)) (us @ [(t, HIns (pid, slot))]) (row_map (insert pid (hs_pages s)) st')"
      using r undo_inv_insert [OF L(5) t(1), of "(pid, slot)" data] by (simp add: row_added_def)
    from account_change [OF A hinsert(2) t(2) _ _ _ _ _ _ this, of "UndoInsert pid slot"
        "insert_record lsn t table_id key (pid, slot) val" "RecInsert pid slot"]
    have "\<exists>sc'. log_account s' sc' (us @ [(t, HIns (pid, slot))])"
      using hinsert(1) by (simp add: undo_view_def rec_view_def heap_ops_def loc_op_def dml_entry_def)
    moreover have "ids_below (hs_next s) (row_map (insert pid (hs_pages s)) st')"
      using r t(2) inv(3) ids_below_upd [OF inv(2)] by (simp add: row_added_def fresh_header_def)
    moreover have "insert t (dom (hs_open s)) = dom (hs_open s)" using t(1) by blast
    ultimately show ?thesis using hinsert(1) r inv(3,4) by (auto simp: heap_inv_def row_added_def)
  next
    case (hdelete t ul pid slot h d st' lsn table_id key val)
    have r: "heap_st crc (hs_pages s) st'" "row_map (hs_pages s) st' = (row_map (hs_pages s) (hs_st s))((pid, slot) \<mapsto> (h\<lparr>txn_id_deleted := t\<rparr>, d))"
      using chain_delete_map [OF inv(1) hdelete(3), of t] hdelete(6) by auto
    have t: "t \<in> dom (hs_open s)" "t < hs_next s" using hdelete(2) inv(4) by auto
    have "undo_inv (dom (hs_open s)) (us @ [(t, HDel (pid, slot))]) (row_map (hs_pages s) st')"
      using r(2) undo_inv_delete [OF L(5) t(1) hdelete(3-5)] by simp
    from account_change [OF A hdelete(2) t(2) _ _ _ _ _ _ this, of "UndoDelete pid slot"
        "delete_record lsn t table_id key (pid, slot) val" "RecDelete pid slot"]
    have "\<exists>sc'. log_account s' sc' (us @ [(t, HDel (pid, slot))])"
      using hdelete(1) by (simp add: undo_view_def rec_view_def heap_ops_def loc_op_def dml_entry_def)
    moreover have "txn_id_created h < hs_next s" using inv(2) hdelete(3) by (auto simp: ids_below_def)
    then have "ids_below (hs_next s) (row_map (hs_pages s) st')" using r(2) t(2) ids_below_upd [OF inv(2)] by simp
    moreover have "insert t (dom (hs_open s)) = dom (hs_open s)" using t(1) by blast
    ultimately show ?thesis using hdelete(1) r(1) inv(3,4) by (auto simp: heap_inv_def)
  next
    case (hindex t ul u)
    then have "insert t (dom (hs_open s)) = dom (hs_open s)" by blast
    then have "log_account s' sc us" using hindex A L by (auto simp: log_account_def)
    then show ?thesis using hindex inv by (auto simp: heap_inv_def)
  next
    case (hcommit t ul lsn)
    have "undo_inv (dom (hs_open s) - {t}) (filter (\<lambda>x. fst x \<in> dom (hs_open s) - {t}) us) (row_map (hs_pages s) (hs_st s))"
      by (rule undo_inv_restrict [OF L(5)]) blast
    from account_end [OF A hcommit(2) _ this, of Commit lsn] hcommit(1) inv show ?thesis by (auto simp: heap_inv_def)
  next
    case (hrollback t ul conn ops m m' st' lsn)
    have r: "heap_st crc (hs_pages s) st'" "row_map (hs_pages s) st' = (\<lambda>k. erase {t} (row_map (hs_pages s) (hs_st s) k))"
      using rollback_run [OF inv(1) A hrollback(2-5), of ops m] hrollback(6) by auto
    have "t \<in> dom (hs_open s)" using hrollback(2) by blast
    then have "undo_inv (dom (hs_open s) - {t}) (filter (\<lambda>x. fst x \<in> dom (hs_open s) - {t}) us) (row_map (hs_pages s) st')"
      using undo_inv_erase [OF L(5)] r(2) by simp
    from account_end [OF A hrollback(2) _ this, of Rollback lsn] hrollback(1) inv r ids_below_erase [OF inv(2,3), of "{t}"]
    show ?thesis by (auto simp: heap_inv_def)
  qed
qed

lemma heap_reach_inv: "heap_reach crc s \<Longrightarrow> heap_inv crc s"
proof (induction rule: heap_reach.induct)
  case (start s)
  have "undo_inv {} [] m" for m by (rule undo_invI) (auto simp: ins_first_def)
  with start have "log_account s scan_init []" by (simp add: log_account_def scan_init_def)
  with start show ?case by (auto simp: heap_inv_def)
qed (rule heap_inv_step)

end
