(* ===== verification/Crash_Safety.thy ===== *)
theory Crash_Safety
  imports Heap_Sessions
begin

text \<open>
  What rollback and recovery guarantee for the system of \<open>Heap_Sessions\<close>, and the ways in which
  recovery falls short of it.
\<close>

subsection \<open>What snapshots see\<close>

lemma erase_unseen:
  assumes "\<forall>t \<in> T. \<not> in_snapshot snap t"
  shows "row_seen snap (erase T x) = row_seen snap x"
proof (cases x)
  case (Some t)
  obtain h d where t: "t = (h, d)" by (cases t)
  show ?thesis
    using assms Some t
    by (cases "txn_id_created h \<in> T"; cases "txn_id_deleted h \<in> T")
      (simp_all add: erase_def undelete_def is_visible_in_snapshot)
qed (simp add: erase_def)

lemma erase_reopened:
  assumes "tm_max_committed m1 = tm_max_committed m0" "tm_active_set m1 = {}" "tm_active_set m0 = T" "0 \<notin> T"
  shows "row_seen (tm_snapshot m1) (erase T x) = row_seen (tm_snapshot m0) x"
proof (cases x)
  case (Some t)
  obtain h d where t: "t = (h, d)" by (cases t)
  show ?thesis
    using assms Some t
    by (cases "txn_id_created h \<in> T"; cases "txn_id_deleted h \<in> T")
      (auto simp: erase_def undelete_def is_visible_def tm_snapshot_def Let_def)
qed (simp add: erase_def)

lemma erase_scan:
  assumes "heap_st crc H st" "heap_st crc H st'" "keeps H st st'" "row_map H st' = (\<lambda>k. erase T (row_map H st k))"
    "chain_path st root ps" "set ps \<subseteq> H" "\<And>x. row_seen snap' (erase T x) = row_seen snap x"
  shows "scan_visible_ro st' root snap' = scan_visible_ro st root snap"
  using assms by (intro scan_grown [OF assms(1,2) keeps_grows [OF assms(3)] assms(5,6)]) simp

text \<open>C3: Rolling back a transaction always succeeds, whatever other transactions did in between. The
  transaction leaves the active set; afterwards its row versions are gone, its deletion marks are
  cleared, and every other row is as it was. Every snapshot that does not contain the
  transaction reads the same rows from every chain before and after.\<close>

theorem rollback_erases:
  assumes "heap_reach crc s" "hs_open s t = Some ul" "ct_txn_id conn = t" "ct_undo_ops conn = ul"
    "lb_available (ct_local_page_batch conn) = []"
  shows "\<exists>m' st'. txn_rollback crc ops conn m (hs_st s) = Some (m', st', Inr ()) \<and>
    tm_active_set m' = tm_active_set m - {t} \<and>
    (\<forall>k. row_map (hs_pages s) st' k = erase {t} (row_map (hs_pages s) (hs_st s) k)) \<and>
    (\<forall>root ps snap. chain_path (hs_st s) root ps \<and> set ps \<subseteq> hs_pages s \<and> \<not> in_snapshot snap t \<longrightarrow>
       scan_visible_ro st' root snap = scan_visible_ro (hs_st s) root snap)"
proof -
  from heap_reach_inv [OF assms(1)] obtain sc us where inv: "heap_st crc (hs_pages s) (hs_st s)" "log_account s sc us"
    by (auto simp: heap_inv_def)
  from rollback_run [OF inv assms(2-5)] obtain m' st' where r: "txn_rollback crc ops conn m (hs_st s) = Some (m', st', Inr ())"
    "tm_active_set m' = tm_active_set m - {t}" "heap_st crc (hs_pages s) st'" "keeps (hs_pages s) (hs_st s) st'"
    "row_map (hs_pages s) st' = (\<lambda>k. erase {t} (row_map (hs_pages s) (hs_st s) k))" by blast
  have "scan_visible_ro st' root snap = scan_visible_ro (hs_st s) root snap"
    if "chain_path (hs_st s) root ps" "set ps \<subseteq> hs_pages s" "\<not> in_snapshot snap t" for root ps snap
    using that(3) by (intro erase_scan [OF inv(1) r(3-5) that(1,2)] erase_unseen) simp
  then have "\<forall>root ps snap. chain_path (hs_st s) root ps \<and> set ps \<subseteq> hs_pages s \<and> \<not> in_snapshot snap t \<longrightarrow>
      scan_visible_ro st' root snap = scan_visible_ro (hs_st s) root snap" by blast
  with r show ?thesis by (intro exI [of _ m'] exI [of _ st'] conjI) simp_all
qed

text \<open>A heap without clustered tables, and a connection with one inserted row.\<close>

definition no_tree :: tree_ops where
  "no_tree = \<lparr>delete_physical_by_key = (\<lambda>st root key. (st, Inr None)),
     restore_exact_row_image = (\<lambda>st root key h d. (st, Inr root)),
     descend_to_leaf = (\<lambda>st root key. Inl (BTreeCorrupted [])), lookup_physical_row = (\<lambda>st root key. Inr None)\<rparr>"

definition conn_of :: "txn_id \<Rightarrow> undo_op list \<Rightarrow> connection_txn" where
  "conn_of t ul = \<lparr>ct_txn_id = t, ct_snapshot_id_at_begin = t, ct_isolation_level = ReadCommitted, ct_undo_ops = ul,
     ct_deferred_free_pages = [], ct_clustered_roots = Map.empty, ct_active_ids_at_begin = None,
     ct_deferred_commit_mode = False, ct_local_page_batch = lb_new, ct_durability_override = None\<rparr>"

lemma checkpoint_readable: "mem_read_page st 0 = Inr p \<Longrightarrow> \<exists>lsn. read_checkpoint_lsn st = Inr lsn"
  by (simp add: read_checkpoint_lsn_def read_meta_u64_def CHECKPOINT_LSN_BODY_OFFSET_def HEADER_SIZE_def PAGE_SIZE_def Let_def)

lemma meta_in_use: "mem_wf crc st \<Longrightarrow> in_use st 0"
  by (auto simp: mem_wf_def in_use_def)

lemma open_insert:
  "\<exists>s root ps pid slot lsn. heap_reach crc s \<and> hs_open s = [1 \<mapsto> [UndoInsert pid slot]] \<and>
     hs_log s = [control_entry lsn 1 Begin, insert_record lsn 1 7 [] (pid, slot) [1, 2, 3]] \<and>
     row_map (hs_pages s) (hs_st s) (pid, slot) = Some (fresh_header 1, [1, 2, 3]) \<and> read_checkpoint_lsn (hs_st s) = Inr lsn \<and>
     chain_path (hs_st s) root ps \<and> set ps \<subseteq> hs_pages s \<and> hs_next s = 2"
proof -
  obtain st root where st: "mem_wf crc st" "chain_path st root [root]" "root \<noteq> 0" "in_use st root"
    "mem_read_page st root = Inr (page_new crc Data root)" "fl_total_pages (ms_freelist st) \<le> 128"
    "mem_read_page st 0 = Inr (page_new crc Meta 0)"
    using fresh_chain by blast
  have H: "heap_st crc {root} st" using st page_new_ok by (auto simp: heap_st_def)
  have m: "row_map {root} st = Map.empty"
  proof
    fix k
    show "row_map {root} st k = None" by (cases k) (simp add: row_map_page st(5) slot_map_new)
  qed
  obtain b st' pid slot where i: "chain_insert crc 0 root [1, 2, 3] 1 None st = Some (b, st', Inr (pid, slot))"
  proof -
    have "last_page_id st root = Some (Inr root)" using chain_last(1) [of st root "[]" root] st(2) by simp
    moreover obtain b' st' x where "insert_at crc 0 root [1, 2, 3] 1 None st = (b', st', Inr x)"
      using insert_at_succeeds [OF st(1,5) page_new_ok(1) st(4), of "[1, 2, 3]" 0 1] st(6)
      by (auto simp: align8_def PAGE_SIZE_def HEADER_SIZE_def BITMAP_CAPACITY_def BITMAP_BODY_BYTES_def)
    ultimately show thesis using that by (cases x) (simp add: chain_insert_def)
  qed
  have r: "row_added crc {root} st (pid, slot) (fresh_header 1, [1, 2, 3]) st'"
    using chain_insert_map [OF H st(2,3) _ i] by simp
  obtain qs where qs: "chain_path st' root ([root] @ qs)" "set qs \<subseteq> insert pid {root}"
    using r st(2) unfolding row_added_def grows_def fst_conv by (metis empty_set list.set(2) order_refl)
  obtain lsn where lsn: "read_checkpoint_lsn st' = Inr lsn"
    using checkpoint_readable [of st'] r st(3,7) meta_in_use [OF st(1)] by (auto simp: row_added_def)
  define s0 where "s0 = \<lparr>hs_pages = {root}, hs_st = st, hs_open = Map.empty, hs_log = [], hs_next = 1\<rparr>"
  define s1 where "s1 = s0\<lparr>hs_open := [1 \<mapsto> []], hs_next := 2, hs_log := [control_entry lsn 1 Begin]\<rparr>"
  define s where "s = s1\<lparr>hs_pages := {pid, root}, hs_st := st', hs_open := [1 \<mapsto> [UndoInsert pid slot]],
    hs_log := [control_entry lsn 1 Begin, insert_record lsn 1 7 [] (pid, slot) [1, 2, 3]]\<rparr>"
  have "heap_reach crc s0" using H m by (intro heap_reach.start) (simp_all add: s0_def ids_below_def)
  moreover have "heap_step crc s0 s1"
    using heap_step.hbegin [of 1 s0 crc lsn] by (simp add: s0_def s1_def)
  moreover have "heap_step crc s1 s"
    using heap_step.hinsert [of s1 1 "[]" root "[root]" crc 0 "[1, 2, 3]" b st' pid slot lsn 7 "[]" "[1, 2, 3]"] st(2,3) i
    by (simp add: s_def s1_def s0_def)
  ultimately have "heap_reach crc s" by (blast intro: heap_reach.more)
  moreover have "row_map {pid, root} st' (pid, slot) = Some (fresh_header 1, [1, 2, 3])" using r m by (simp add: row_added_def)
  ultimately show ?thesis
    using lsn qs by (intro exI [of _ s] exI [of _ root] exI [of _ "[root] @ qs"] exI [of _ pid] exI [of _ slot] exI [of _ lsn])
      (auto simp: s_def s1_def s0_def)
qed

theorem rollback_erases_witness:
  "\<exists>(s :: heap_sys) pid slot m' st'. row_map (hs_pages s) (hs_st s) (pid, slot) = Some (fresh_header 1, [1, 2, 3]) \<and>
     txn_rollback (\<lambda>_. 0) no_tree (conn_of 1 [UndoInsert pid slot]) tm_create (hs_st s) = Some (m', st', Inr ()) \<and>
     row_map (hs_pages s) st' (pid, slot) = None"
proof -
  obtain s root ps pid slot lsn where s: "heap_reach (\<lambda>_. 0) s" "hs_open s = [1 \<mapsto> [UndoInsert pid slot]]"
    "row_map (hs_pages s) (hs_st s) (pid, slot) = Some (fresh_header 1, [1, 2, 3])"
    using open_insert by blast
  have "hs_open s 1 = Some [UndoInsert pid slot]" using s(2) by simp
  from rollback_erases [OF s(1) this, of "conn_of 1 [UndoInsert pid slot]" no_tree tm_create]
  obtain m' st' where "txn_rollback (\<lambda>_. 0) no_tree (conn_of 1 [UndoInsert pid slot]) tm_create (hs_st s) = Some (m', st', Inr ())"
    "row_map (hs_pages s) st' (pid, slot) = erase {1} (row_map (hs_pages s) (hs_st s) (pid, slot))"
    by (auto simp: conn_of_def lb_new_def)
  with s(3) show ?thesis
    by - (rule exI [of _ s], rule exI [of _ pid], rule exI [of _ slot], rule exI [of _ m'], rule exI [of _ st'],
      simp add: erase_def fresh_header_def)
qed

subsection \<open>Recovery\<close>

definition committed_ids :: "wal_entry list \<Rightarrow> txn_id list" where
  "committed_ids es = map we_txn_id (filter (\<lambda>e. we_type e = Commit) es)"

lemma push_note_max [simp]:
  "sc_max_committed (push_ops t xs s) = sc_max_committed s" "sc_max_committed (note_root t tid r s) = sc_max_committed s"
  by (simp_all add: push_ops_def note_root_def)

lemma scan_entry_other:
  assumes "scan_entry e s = Inr s'" "we_type e \<noteq> Commit"
  shows "sc_max_committed s' = sc_max_committed s"
proof -
  note d = assms(1) [unfolded scan_entry_def Let_def]
  show ?thesis
  proof (cases "we_type e")
    case ClusteredInsert
    with d show ?thesis by (auto simp: ebind_Inr_iff)
  next
    case ClusteredUpdate
    with d show ?thesis by (auto simp: ebind_Inr_iff)
  next
    case ClusteredDeleteMark
    with d show ?thesis by (auto simp: ebind_Inr_iff)
  next
    case ClusteredFieldPatch
    with d show ?thesis by (auto simp: ebind_Inr_iff)
  qed (use d assms(2) in auto)
qed

lemma scan_entry_commit:
  assumes "scan_entry e s = Inr s'" "we_type e = Commit"
  shows "sc_max_committed s' = max (we_txn_id e) (sc_max_committed s)"
proof -
  have "sc_max_committed s' = sc_max_committed (case scan_entry e s of Inr x \<Rightarrow> x)" using assms(1) by simp
  also have "\<dots> = max (sc_max_committed s) (we_txn_id e)" using assms(2) by (simp add: scan_entry_def Let_def)
  finally show ?thesis by (simp only: max.commute)
qed

lemma scan_log_max:
  "scan_log (map Inr es) s = Inr s' \<Longrightarrow> sc_max_committed s' = fold max (committed_ids es) (sc_max_committed s)"
proof (induction es arbitrary: s)
  case (Cons e es)
  then obtain s1 where s1: "scan_entry e s = Inr s1" "scan_log (map Inr es) s1 = Inr s'" by (auto simp: ebind_Inr_iff)
  show ?case
    using Cons.IH [OF s1(2)] scan_entry_other [OF s1(1)] scan_entry_commit [OF s1(1)]
    by (cases "we_type e = Commit") (simp_all add: committed_ids_def)
qed (simp add: committed_ids_def)

lemma read_log:
  assumes "all_ok es" "\<forall>e \<in> set es. lsn \<le> we_lsn e" "f = wal_header start @ stream crc es @ replicate m 0"
  shows "read_forward crc f lsn = Inr (map Inr es)" "\<exists>wal. cw_open crc f = Inr wal"
proof -
  have f: "f = wal_header start @ take (length (stream crc es)) (stream crc es) @ replicate m 0" using assms(3) by simp
  from torn_log [OF assms(1) order_refl f, of lsn] obtain j where
    j: "j \<le> length es" "read_forward crc f lsn = Inr (map Inr (filter (\<lambda>e. lsn \<le> we_lsn e) (take j es)))"
      "length (stream crc (take (length es) es)) \<le> length (stream crc es) \<longrightarrow> length es \<le> j" by blast
  moreover have "filter (\<lambda>e. lsn \<le> we_lsn e) es = es" using assms(2) by (simp add: filter_id_conv)
  ultimately show "read_forward crc f lsn = Inr (map Inr es)" by simp
  show "\<exists>wal. cw_open crc f = Inr wal" using assms(3) by (simp add: cw_open_def Let_def)
qed

lemma recovery_run:
  assumes "heap_reach crc s" "all_ok (hs_log s)" "\<forall>e \<in> set (hs_log s). lsn \<le> we_lsn e" "read_checkpoint_lsn (hs_st s) = Inr lsn"
    "f = wal_header start @ stream crc (hs_log s) @ replicate n 0"
  shows "\<exists>sc us wal st' res. log_account s sc us \<and> heap_st crc (hs_pages s) (hs_st s) \<and>
    open_with_recovery crc ops f (hs_st s) = Some (st', Inr (tm_opened wal (sc_max_committed sc) (losers_roots sc), res)) \<and>
    rr_undone_txns res = of_nat (card (dom (hs_open s))) \<and> heap_st crc (hs_pages s) st' \<and> keeps (hs_pages s) (hs_st s) st' \<and>
    row_map (hs_pages s) st' = (\<lambda>k. erase (dom (hs_open s)) (row_map (hs_pages s) (hs_st s) k))"
proof -
  let ?H = "hs_pages s" and ?T = "dom (hs_open s)"
  from heap_reach_inv [OF assms(1)] obtain sc us where inv: "heap_st crc ?H (hs_st s)" "log_account s sc us"
    by (auto simp: heap_inv_def)
  note L = log_accountD [OF inv(2)]
  have sc: "scan_log (map Inr (hs_log s)) scan_init = Inr sc" using inv(2) by (simp add: log_account_def)
  from read_log [OF assms(2,3,5)] obtain wal where f: "read_forward crc f lsn = Inr (map Inr (hs_log s))" "cw_open crc f = Inr wal" by blast
  have views: "map rec_view (filter (\<lambda>x. \<not> fst x \<notin> sc_active sc) (sc_timeline sc)) = map Some us" using L(1,4) by simp
  from rec.run_all_erases [OF inv(1) L(5) views, of ops "losers_roots sc"]
  obtain st' where st': "recover_all crc ops (sc_active sc) (rev (sc_timeline sc)) (losers_roots sc) (hs_st s) = Some (losers_roots sc, st', Inr ())"
    "heap_st crc ?H st'" "keeps ?H (hs_st s) st'" "row_map ?H st' = (\<lambda>k. erase ?T (row_map ?H (hs_st s) k))" by blast
  define res where "res = \<lparr>rr_max_committed = sc_max_committed sc, rr_undone_txns = word_of_nat (card ?T),
    rr_checkpoint_lsn = lsn, rr_clustered_roots = losers_roots sc\<rparr>"
  have "open_with_recovery crc ops f (hs_st s) = Some (st', Inr (tm_opened wal (sc_max_committed sc) (losers_roots sc), res))"
    using assms(4) f sc st'(1) L(1) by (simp add: open_with_recovery_def recover_def res_def)
  moreover have "rr_undone_txns res = of_nat (card ?T)" by (simp add: res_def)
  ultimately show ?thesis using inv st'(2-4) by blast
qed

text \<open>C1: Crash recovery, for interleaved transactions of single-row insertions and deletions. If the whole log
  is on disk and none of its records lies before the checkpoint position, opening the database
  succeeds. The unfinished transactions are undone, exactly as their rollbacks would have done
  it, and the new transaction manager has the highest committed number and no active transaction;
  in the snapshot of the reopened manager every chain reads as it did in the snapshot of the old
  manager at the moment of the crash.\<close>

theorem recovery_preserves_reads:
  assumes "heap_reach crc s" "all_ok (hs_log s)" "\<forall>e \<in> set (hs_log s). lsn \<le> we_lsn e" "read_checkpoint_lsn (hs_st s) = Inr lsn"
    "f = wal_header start @ stream crc (hs_log s) @ replicate n 0"
    "tm_active_set m0 = dom (hs_open s)" "tm_max_committed m0 = fold max (committed_ids (hs_log s)) 0"
  shows "\<exists>st' m1 res. open_with_recovery crc ops f (hs_st s) = Some (st', Inr (m1, res)) \<and>
    rr_undone_txns res = of_nat (card (dom (hs_open s))) \<and> tm_active_set m1 = {} \<and>
    tm_max_committed m1 = tm_max_committed m0 \<and>
    (\<forall>k. row_map (hs_pages s) st' k = erase (dom (hs_open s)) (row_map (hs_pages s) (hs_st s) k)) \<and>
    (\<forall>root ps. chain_path (hs_st s) root ps \<and> set ps \<subseteq> hs_pages s \<longrightarrow>
       scan_visible_ro st' root (tm_snapshot m1) = scan_visible_ro (hs_st s) root (tm_snapshot m0))"
proof -
  let ?T = "dom (hs_open s)"
  from recovery_run [OF assms(1-5), of ops] obtain sc us wal st' res where inv: "log_account s sc us" "heap_st crc (hs_pages s) (hs_st s)"
    and run: "open_with_recovery crc ops f (hs_st s) = Some (st', Inr (tm_opened wal (sc_max_committed sc) (losers_roots sc), res))"
      "rr_undone_txns res = of_nat (card ?T)" "heap_st crc (hs_pages s) st'" "keeps (hs_pages s) (hs_st s) st'"
      "row_map (hs_pages s) st' = (\<lambda>k. erase ?T (row_map (hs_pages s) (hs_st s) k))" by blast
  define m1 where "m1 = tm_opened wal (sc_max_committed sc) (losers_roots sc)"
  have sc: "scan_log (map Inr (hs_log s)) scan_init = Inr sc" using inv(1) by (simp add: log_account_def)
  have mx: "tm_max_committed m1 = tm_max_committed m0" "tm_active_set m1 = {}"
    using scan_log_max [OF sc] assms(7) by (simp_all add: m1_def tm_opened_def scan_init_def)
  have "row_seen (tm_snapshot m1) (erase ?T x) = row_seen (tm_snapshot m0) x" for x
    by (rule erase_reopened) (use mx assms(6) undo_invD(1) [OF log_accountD(5) [OF inv(1)]] in simp_all)
  from erase_scan [OF inv(2) run(3-5) _ _ this]
  have "\<forall>root ps. chain_path (hs_st s) root ps \<and> set ps \<subseteq> hs_pages s \<longrightarrow>
      scan_visible_ro st' root (tm_snapshot m1) = scan_visible_ro (hs_st s) root (tm_snapshot m0)" by blast
  with run mx show ?thesis
    by (intro exI [of _ st'] exI [of _ m1] exI [of _ res] conjI) (simp_all add: m1_def)
qed

theorem recovery_preserves_reads_witness:
  "\<exists>(s :: heap_sys) pid slot f st' m1 res. row_map (hs_pages s) (hs_st s) (pid, slot) = Some (fresh_header 1, [1, 2, 3]) \<and>
     open_with_recovery (\<lambda>_. 0) no_tree f (hs_st s) = Some (st', Inr (m1, res)) \<and> rr_undone_txns res = 1 \<and>
     row_map (hs_pages s) st' (pid, slot) = None"
proof -
  obtain s root ps pid slot lsn where s: "heap_reach (\<lambda>_. 0) s" "hs_open s = [1 \<mapsto> [UndoInsert pid slot]]"
    "hs_log s = [control_entry lsn 1 Begin, insert_record lsn 1 7 [] (pid, slot) [1, 2, 3]]"
    "row_map (hs_pages s) (hs_st s) (pid, slot) = Some (fresh_header 1, [1, 2, 3])" "read_checkpoint_lsn (hs_st s) = Inr lsn"
    using open_insert by blast
  let ?f = "wal_header 0 @ stream (\<lambda>_. 0) (hs_log s) @ replicate 0 0"
  have "all_ok (hs_log s)" "\<forall>e \<in> set (hs_log s). lsn \<le> we_lsn e"
    using s(3) by (auto simp: wal_entry_ok_def serialized_len_def control_entry_def dml_entry_def encode_physical_loc_def MIN_ENTRY_LEN_def)
  moreover have "dom (hs_open s) = {1}" "committed_ids (hs_log s) = []"
    using s(2,3) by (simp_all add: committed_ids_def control_entry_def dml_entry_def)
  ultimately have "\<exists>st' m1 res. open_with_recovery (\<lambda>_. 0) no_tree ?f (hs_st s) = Some (st', Inr (m1, res)) \<and>
      rr_undone_txns res = of_nat (card {1 :: txn_id}) \<and>
      row_map (hs_pages s) st' (pid, slot) = erase {1} (row_map (hs_pages s) (hs_st s) (pid, slot))"
    using recovery_preserves_reads [OF s(1) _ _ s(5) refl, where ?m0.0 = "tm_create\<lparr>tm_active_set := {1}\<rparr>" and start = 0 and n = 0 and ops = no_tree]
    by (fastforce simp: tm_create_def)
  then obtain st' m1 res where r: "open_with_recovery (\<lambda>_. 0) no_tree ?f (hs_st s) = Some (st', Inr (m1, res))"
    "rr_undone_txns res = of_nat (card {1 :: txn_id})"
    "row_map (hs_pages s) st' (pid, slot) = erase {1} (row_map (hs_pages s) (hs_st s) (pid, slot))"
    by blast
  have "row_map (hs_pages s) st' (pid, slot) = None" using r(3) s(4) by (simp add: erase_def fresh_header_def)
  with r s(4) show ?thesis
    by - (rule exI [of _ s], rule exI [of _ pid], rule exI [of _ slot], rule exI [of _ ?f], rule exI [of _ st'],
      rule exI [of _ m1], rule exI [of _ res], simp)
qed

end
