(* ===== verification/Recovery_Hazards.thy ===== *)
theory Recovery_Hazards
  imports Crash_Safety
begin

text \<open>
  Ways in which opening a database after a checkpoint or a crash loses committed data or keeps
  uncommitted data.
\<close>

text \<open>A transaction manager whose log, the records \<open>es\<close>, has reached the file.\<close>

definition log_on_disk :: "checksum \<Rightarrow> wal_entry list \<Rightarrow> txn_mgr \<Rightarrow> bool" where
  "log_on_disk crc es m \<longleftrightarrow> cw_queue (tm_wal m) = [] \<and>
     (\<exists>start. ws_log crc start es (length (stream crc es)) (cw_writer (tm_wal m)))"

abbreviation disk_log :: "txn_mgr \<Rightarrow> u8 list" where
  "disk_log m \<equiv> ws_file (cw_writer (tm_wal m))"

lemma log_on_disk_read:
  assumes "log_on_disk crc es m"
  shows "read_forward crc (disk_log m) lsn = Inr (map Inr (filter (\<lambda>e. lsn \<le> we_lsn e) es))"
    "\<exists>wal. cw_open crc (disk_log m) = Inr wal"
proof -
  from assms obtain start where w: "ws_log crc start es (length (stream crc es)) (cw_writer (tm_wal m))" by (auto simp: log_on_disk_def)
  note f = flushed_log [OF w]
  show "read_forward crc (disk_log m) lsn = Inr (map Inr (filter (\<lambda>e. lsn \<le> we_lsn e) es))" by (rule f(1))
  show "\<exists>wal. cw_open crc (disk_log m) = Inr wal" using f(3) by (simp add: cw_open_def Let_def)
qed

lemma append_flush:
  assumes "log_on_disk crc es m" "wal_entry_ok (e\<lparr>we_lsn := cw_next_lsn (tm_wal m)\<rparr>)"
  shows "log_on_disk crc (es @ [e\<lparr>we_lsn := cw_next_lsn (tm_wal m)\<rparr>])
    (m\<lparr>tm_wal := flush_and_sync (fst (cw_append crc e (tm_wal m)))\<rparr>)"
proof -
  let ?e = "e\<lparr>we_lsn := cw_next_lsn (tm_wal m)\<rparr>" and ?w = "cw_writer (tm_wal m)"
  from assms(1) obtain start where w: "cw_queue (tm_wal m) = []" "ws_log crc start es (length (stream crc es)) ?w"
    by (auto simp: log_on_disk_def)
  from ws_log_append [OF w(2), of "[?e]"] assms(2) obtain k where "ws_log crc start (es @ [?e]) k (append_bytes (to_bytes crc ?e) ?w)" by auto
  from ws_log_flush(1) [OF this] have "ws_log crc start (es @ [?e]) (length (stream crc (es @ [?e]))) (buf_flush (append_bytes (to_bytes crc ?e) ?w))" .
  moreover have "cw_writer (flush_and_sync (fst (cw_append crc e (tm_wal m)))) = buf_flush (append_bytes (to_bytes crc ?e) ?w)"
    "cw_queue (flush_and_sync (fst (cw_append crc e (tm_wal m)))) = []"
    using w(1) by (simp_all add: flush_and_sync_def drain_sorted_def cw_append_def cw_reserve_lsns_def queue_push_def
        cw_write_drained_def write_entries_def append_bytes_def Let_def)
  ultimately show ?thesis by (auto simp: log_on_disk_def)
qed

subsection \<open>Checkpoints\<close>

text \<open>C35: A database that is checkpointed while no transaction runs and is then opened again, with nothing
  logged after the checkpoint, forgets every committed transaction. Recovery reads the log from
  the checkpoint on, so the new transaction manager has the highest committed number 0 and hands
  out the numbers from 1 again. In the snapshot of the reopened manager no row that a transaction
  wrote is visible, and the first transaction to begin there gets number 1 and sees no row but
  those created under its own number.\<close>

theorem checkpoint_forgets_commits:
  assumes "meta_ok crc st" "tm_active_set m = {}" "log_on_disk crc es m" "\<forall>e \<in> set es. we_lsn e < cw_next_lsn (tm_wal m)"
  shows "\<exists>m' st' m1 res. tm_checkpoint crc m st = (m', st', Inr (cw_next_lsn (tm_wal m))) \<and>
    open_with_recovery crc ops (disk_log m') st' = Some (st', Inr (m1, res)) \<and>
    tm_max_committed m1 = 0 \<and> tm_next_txn_id m1 = 1 \<and>
    (\<forall>h. txn_id_created h \<noteq> 0 \<longrightarrow> \<not> is_visible h (tm_snapshot m1)) \<and>
    (\<forall>level m2 conn. begin_with_isolation crc level m1 = (m2, conn) \<longrightarrow> ct_txn_id conn = 1 \<and>
       (\<forall>h. txn_id_created h \<notin> {0, 1} \<longrightarrow> \<not> is_visible h (active_snapshot m2 conn)))"
proof -
  let ?l = "cw_next_lsn (tm_wal m)" and ?e = "control_entry 0 0 Checkpoint"
  let ?c = "control_entry ?l 0 Checkpoint"
  define m' where "m' = m\<lparr>tm_wal := flush_and_sync (fst (cw_append crc ?e (tm_wal m)))\<rparr>"
  have e: "?e\<lparr>we_lsn := ?l\<rparr> = ?c" "wal_entry_ok ?c"
    by (simp_all add: control_entry_def wal_entry_ok_def serialized_len_def MIN_ENTRY_LEN_def)
  with append_flush [OF assms(3), of ?e] have disk: "log_on_disk crc (es @ [?c]) m'" by (simp add: m'_def)
  obtain st' where st': "write_checkpoint_lsn crc st ?l = Inr st'"
    using write_meta_spec [OF assms(1), of 24 "u64_le ?l"] by (auto simp: write_checkpoint_lsn_def CHECKPOINT_LSN_BODY_OFFSET_def)
  then have rd: "read_checkpoint_lsn st' = Inr ?l"
    using read_after_write_meta(3) [OF assms(1), of 24 "u64_le ?l" st']
    by (simp add: write_checkpoint_lsn_def read_checkpoint_lsn_def CHECKPOINT_LSN_BODY_OFFSET_def)
  have cp: "tm_checkpoint crc m st = (m', st', Inr ?l)"
    using assms(2) st' e(1) by (simp add: tm_checkpoint_def checkpoint_wal_def m'_def cw_append_def cw_reserve_lsns_def Let_def)
  have "filter (\<lambda>e. ?l \<le> we_lsn e) (es @ [?c]) = [?c]" using assms(4) by (auto simp: filter_empty_conv control_entry_def not_le)
  with log_on_disk_read(1) [OF disk, of ?l] log_on_disk_read(2) [OF disk] obtain wal where "read_forward crc (disk_log m') ?l = Inr [Inr ?c]"
    "cw_open crc (disk_log m') = Inr wal" by auto
  then have "open_with_recovery crc ops (disk_log m') st' = Some (st', Inr (tm_opened wal 0 Map.empty,
      \<lparr>rr_max_committed = 0, rr_undone_txns = 0, rr_checkpoint_lsn = ?l, rr_clustered_roots = Map.empty\<rparr>))"
    using rd by (simp add: open_with_recovery_def recover_def scan_entry_def control_entry_def scan_init_def losers_roots_def)
  moreover have "\<not> is_visible h (tm_snapshot (tm_opened wal 0 Map.empty))" if "txn_id_created h \<noteq> 0" for h
    using that word_less_1 [of "txn_id_created h"] by (simp add: is_visible_def tm_snapshot_def tm_opened_def Let_def)
  moreover have "ct_txn_id conn = 1 \<and> (\<forall>h. txn_id_created h \<notin> {0, 1} \<longrightarrow> \<not> is_visible h (active_snapshot m2 conn))"
    if "begin_with_isolation crc level (tm_opened wal 0 Map.empty) = (m2, conn)" for level m2 conn
  proof -
    have "ct_txn_id conn = 1" "snapshot_id (active_snapshot m2 conn) = 1" "current_txn_id (active_snapshot m2 conn) = 1"
      using that by (auto simp: begin_with_isolation_def begin_alloc_def begin_log_def begin_register_def tm_opened_def active_snapshot_def Let_def)
    then show ?thesis using word_less_1 by (auto simp: is_visible_def Let_def)
  qed
  ultimately show ?thesis
    using cp by (intro exI [of _ m'] exI [of _ st'] exI [of _ "tm_opened wal 0 Map.empty"] exI) (auto simp: tm_opened_def)
qed

lemma log_on_disk_create: "log_on_disk crc [] tm_create"
  using ws_log_create [of crc] by (auto simp: log_on_disk_def tm_create_def cw_create_def ws_log_def writer_state.truncate_def)

text \<open>A new log with the records of one committed transaction.\<close>

lemma one_commit_on_disk:
  "\<exists>m. log_on_disk crc [control_entry 1 1 Begin, control_entry 2 1 Commit] m \<and> tm_active_set m = {} \<and> cw_next_lsn (tm_wal m) = 3"
proof -
  have n: "cw_next_lsn (flush_and_sync (fst (cw_append crc e c))) = cw_next_lsn c + 1" for e c
    by (simp add: flush_and_sync_def drain_sorted_def cw_append_def cw_reserve_lsns_def queue_push_def cw_write_drained_def Let_def)
  define m1 where "m1 = tm_create\<lparr>tm_wal := flush_and_sync (fst (cw_append crc (control_entry 0 1 Begin) (tm_wal tm_create)))\<rparr>"
  define m2 where "m2 = m1\<lparr>tm_wal := flush_and_sync (fst (cw_append crc (control_entry 0 1 Commit) (tm_wal m1)))\<rparr>"
  have n0: "cw_next_lsn (tm_wal tm_create) = 1" by (simp add: tm_create_def cw_create_def)
  have n1: "cw_next_lsn (tm_wal m1) = 2" by (simp add: m1_def n n0)
  have e: "(control_entry 0 1 Begin)\<lparr>we_lsn := 1\<rparr> = control_entry 1 1 Begin" "(control_entry 0 1 Commit)\<lparr>we_lsn := 2\<rparr> = control_entry 2 1 Commit"
    "wal_entry_ok (control_entry 1 1 Begin)" "wal_entry_ok (control_entry 2 1 Commit)"
    by (simp_all add: control_entry_def wal_entry_ok_def serialized_len_def MIN_ENTRY_LEN_def)
  have "log_on_disk crc [control_entry 1 1 Begin] m1"
    using append_flush [OF log_on_disk_create, of "control_entry 0 1 Begin" crc] e n0 by (simp add: m1_def)
  from append_flush [OF this, of "control_entry 0 1 Commit"] e n1
  have "log_on_disk crc [control_entry 1 1 Begin, control_entry 2 1 Commit] m2" by (simp add: m2_def)
  moreover have "tm_active_set m2 = {}" "cw_next_lsn (tm_wal m2) = 3"
    using n1 by (simp_all add: m2_def n) (simp add: m1_def tm_create_def)
  ultimately show ?thesis by blast
qed

theorem checkpoint_forgets_commits_witness:
  "\<exists>m st m' st' m1 res. read_forward (\<lambda>_. 0) (disk_log m) 0 = Inr [Inr (control_entry 1 1 Begin), Inr (control_entry 2 1 Commit)] \<and>
     tm_checkpoint (\<lambda>_. 0) m st = (m', st', Inr 3) \<and>
     open_with_recovery (\<lambda>_. 0) no_tree (disk_log m') st' = Some (st', Inr (m1, res)) \<and> tm_max_committed m1 = 0"
proof -
  obtain m where m: "log_on_disk (\<lambda>_. 0) [control_entry 1 1 Begin, control_entry 2 1 Commit] m" "tm_active_set m = {}"
    "cw_next_lsn (tm_wal m) = 3" using one_commit_on_disk by blast
  obtain st where st: "meta_ok (\<lambda>_. 0) st" using fresh_meta by blast
  have "\<forall>e \<in> set [control_entry 1 1 Begin, control_entry 2 1 Commit]. we_lsn e < cw_next_lsn (tm_wal m)"
    using m(3) by (simp add: control_entry_def)
  from checkpoint_forgets_commits [OF st m(2,1) this, of no_tree] m(3)
  have "\<exists>m' st' m1 res. tm_checkpoint (\<lambda>_. 0) m st = (m', st', Inr 3) \<and>
     open_with_recovery (\<lambda>_. 0) no_tree (disk_log m') st' = Some (st', Inr (m1, res)) \<and> tm_max_committed m1 = 0" by auto
  moreover have "read_forward (\<lambda>_. 0) (disk_log m) 0 = Inr [Inr (control_entry 1 1 Begin), Inr (control_entry 2 1 Commit)]"
    using log_on_disk_read(1) [OF m(1), of 0] by simp
  ultimately show ?thesis by blast
qed

subsection \<open>Records that never left the process\<close>

text \<open>C36: Pages are written when a row is inserted, records of the log when a transaction commits. Let the log
  on disk, with no checkpoint taken, hold no unfinished transaction, and let the next transaction,
  whose number follows the highest committed one, insert a row and die before any of its records
  reaches the disk. Recovery finds the row but no record of it and leaves it in place. The next
  transaction gets the number of the dead one; it sees the row in its own snapshot, as if it had
  written it, and once it commits the row is in the snapshot of the manager.\<close>

theorem unlogged_row_resurfaces:
  assumes "heap_st crc H st" "chain_path st root ps" "root \<noteq> 0" "set ps \<subseteq> H" "read_checkpoint_lsn st = Inr 0"
    "log_on_disk crc es m" "scan_log (map Inr es) scan_init = Inr sc" "sc_active sc = {}" "tm_next_txn_id m = sc_max_committed sc + 1"
    "sc_max_committed sc < sc_max_committed sc + 1" "sc_max_committed sc + 1 < sc_max_committed sc + 2"
    "begin_with_isolation crc level m = (m1, conn1)"
    "chain_insert crc w root data (ct_txn_id conn1) None st = Some (b, st', Inr (pid, slot))"
    "record_insert crc tid key val pid slot conn1 m1 = (m2, conn2)"
  shows "\<exists>m3 res m4 conn4 m5. open_with_recovery crc ops (disk_log m2) st' = Some (st', Inr (m3, res)) \<and>
    begin_with_isolation crc level m3 = (m4, conn4) \<and> txn_commit crc conn4 m4 = (m5, None) \<and>
    row_map (insert pid H) st' (pid, slot) = Some (fresh_header (ct_txn_id conn1), data) \<and>
    \<not> is_visible (fresh_header (ct_txn_id conn1)) (tm_snapshot m3) \<and>
    ct_txn_id conn4 = ct_txn_id conn1 \<and> is_visible (fresh_header (ct_txn_id conn1)) (active_snapshot m4 conn4) \<and>
    is_visible (fresh_header (ct_txn_id conn1)) (tm_snapshot m5)"
proof -
  let ?c = "sc_max_committed sc"
  have t: "ct_txn_id conn1 = ?c + 1" "disk_log m1 = disk_log m"
    using assms(9,12) by (auto simp: begin_with_isolation_def begin_alloc_def begin_log_def begin_register_def Let_def
        cw_append_def cw_reserve_lsns_def queue_push_def)
  have f: "disk_log m2 = disk_log m"
    using assms(14) t(2) by (auto simp: record_insert_def log_one_def cw_append_def cw_reserve_lsns_def queue_push_def Let_def)
  have r: "row_added crc H st (pid, slot) (fresh_header (ct_txn_id conn1), data) st'"
    by (rule chain_insert_map [OF assms(1-4,13)])
  have wf: "mem_wf crc st" using assms(1) by (simp add: heap_st_def)
  have "mem_read_page st' 0 = mem_read_page st 0"
    using r assms(1) meta_in_use [OF wf] by (auto simp: row_added_def heap_st_def)
  then have cp: "read_checkpoint_lsn st' = Inr 0" using assms(5) by (simp add: read_checkpoint_lsn_def read_meta_u64_def)
  obtain wal where o: "read_forward crc (disk_log m2) 0 = Inr (map Inr es)" "cw_open crc (disk_log m2) = Inr wal"
    using log_on_disk_read(1) [OF assms(6), of 0] log_on_disk_read(2) [OF assms(6)] f by auto
  have skip: "recover_all crc ops {} xs roots st' = Some (roots, st', Inr ())" for xs roots by (induction xs) simp_all
  define m3 where "m3 = tm_opened wal ?c (losers_roots sc)"
  have op: "\<exists>res. open_with_recovery crc ops (disk_log m2) st' = Some (st', Inr (m3, res))"
    using cp o assms(7,8) skip by (simp add: open_with_recovery_def recover_def m3_def)
  obtain m4 conn4 where bg: "begin_with_isolation crc level m3 = (m4, conn4)" by fastforce
  then have b4: "ct_txn_id conn4 = ?c + 1" "ct_undo_ops conn4 = []" "tm_max_committed m4 = ?c" "tm_active_set m4 = {?c + 1}"
    by (auto simp: m3_def tm_opened_def begin_with_isolation_def begin_alloc_def begin_log_def begin_register_def Let_def)
  let ?m4 = "commit_log crc conn4 m4"
  define m5 where "m5 = commit_housekeeping conn4 (commit_finish True (?c + 1) (?m4\<lparr>tm_wal := flush_no_sync (tm_wal ?m4)\<rparr>))"
  have cm: "txn_commit crc conn4 m4 = (m5, None)" using b4(1,2) by (simp add: txn_commit_def commit_flush_def m5_def)
  have hk: "tm_max_committed (commit_housekeeping c x) = tm_max_committed x" "tm_active_set (commit_housekeeping c x) = tm_active_set x" for c x
    by (simp_all add: commit_housekeeping_def take_for_commit_def Let_def)
  have m5: "tm_max_committed m5 = ?c + 1" "tm_active_set m5 = {}"
    using b4(3,4) less_imp_le [OF assms(10)] by (simp_all add: m5_def hk commit_finish_def remove_active_def commit_log_def max_absorb2)
  then have "is_visible (fresh_header (?c + 1)) (tm_snapshot m5)"
    using assms(11) by (simp add: is_visible_def fresh_header_def tm_snapshot_def Let_def add.assoc)
  moreover have "?c + 1 \<noteq> 0" using assms(10) by auto
  then have "is_visible (fresh_header (?c + 1)) (active_snapshot m4 conn4)"
    using b4(1) by (simp add: is_visible_def fresh_header_def active_snapshot_def Let_def)
  moreover have "\<not> is_visible (fresh_header (?c + 1)) (tm_snapshot m3)"
    by (simp add: is_visible_def fresh_header_def tm_snapshot_def m3_def tm_opened_def Let_def)
  moreover have "row_map (insert pid H) st' (pid, slot) = Some (fresh_header (ct_txn_id conn1), data)" using r by (simp add: row_added_def)
  ultimately show ?thesis using op bg cm b4(1) unfolding t(1) by blast
qed

lemma new_meta_checkpoint: "mem_read_page st 0 = Inr (page_new crc Meta 0) \<Longrightarrow> read_checkpoint_lsn st = Inr 0"
proof -
  assume st: "mem_read_page st 0 = Inr (page_new crc Meta 0)"
  have "page_new crc Meta 0 a = 0" if "88 \<le> a" for a
    using that by (simp add: page_new_def Let_def update_checksum_def byte_put_other write_bytes_def)
  then have "read_bytes (page_new crc Meta 0) 88 8 = replicate 8 0" unfolding read_bytes_def by (intro replicate_eqI) auto
  then show ?thesis
    using st by (simp add: read_checkpoint_lsn_def read_meta_u64_def CHECKPOINT_LSN_BODY_OFFSET_def HEADER_SIZE_def PAGE_SIZE_def
        get_u64_def u64_of_le_def Let_def numeral_eq_Suc)
qed

theorem unlogged_row_resurfaces_witness:
  "\<exists>st' m2 m3 res m4 conn4 m5. open_with_recovery (\<lambda>_. 0) no_tree (disk_log m2) st' = Some (st', Inr (m3, res)) \<and>
     begin_with_isolation (\<lambda>_. 0) ReadCommitted m3 = (m4, conn4) \<and> txn_commit (\<lambda>_. 0) conn4 m4 = (m5, None) \<and>
     ct_txn_id conn4 = 1 \<and> is_visible (fresh_header 1) (active_snapshot m4 conn4) \<and>
     \<not> is_visible (fresh_header 1) (tm_snapshot m3) \<and> is_visible (fresh_header 1) (tm_snapshot m5)"
proof -
  let ?crc = "\<lambda>_ :: u8 list. 0 :: u32"
  obtain st root where st: "mem_wf ?crc st" "chain_path st root [root]" "root \<noteq> 0" "in_use st root"
    "mem_read_page st root = Inr (page_new ?crc Data root)" "fl_total_pages (ms_freelist st) \<le> 128"
    "mem_read_page st 0 = Inr (page_new ?crc Meta 0)" using fresh_chain by blast
  have H: "heap_st ?crc {root} st" using st page_new_ok by (auto simp: heap_st_def)
  obtain m1 conn1 where b: "begin_with_isolation ?crc ReadCommitted tm_create = (m1, conn1)" by fastforce
  then have t: "ct_txn_id conn1 = 1"
    by (auto simp: tm_create_def begin_with_isolation_def begin_alloc_def begin_log_def begin_register_def Let_def)
  have "last_page_id st root = Some (Inr root)" using chain_last(1) [of st root "[]" root] st(2) by simp
  moreover obtain b' st' x where "insert_at ?crc 0 root [1, 2, 3] 1 None st = (b', st', Inr x)"
    using insert_at_succeeds [OF st(1,5) page_new_ok(1) st(4), of "[1, 2, 3]" 0 1] st(6)
    by (auto simp: align8_def PAGE_SIZE_def HEADER_SIZE_def BITMAP_CAPACITY_def BITMAP_BODY_BYTES_def)
  ultimately have i: "chain_insert ?crc 0 root [1, 2, 3] (ct_txn_id conn1) None st = Some (b', st', Inr (fst x, snd x))"
    using t by (simp add: chain_insert_def)
  obtain m2 conn2 where r: "record_insert ?crc 7 [] [1, 2, 3] (fst x) (snd x) conn1 m1 = (m2, conn2)" by fastforce
  have c: "set [root] \<subseteq> {root}" "scan_log (map Inr []) scan_init = Inr scan_init" "sc_active scan_init = {}"
    "tm_next_txn_id tm_create = sc_max_committed scan_init + 1" "sc_max_committed scan_init < sc_max_committed scan_init + 1"
    "sc_max_committed scan_init + 1 < sc_max_committed scan_init + 2"
    by (simp_all add: scan_init_def tm_create_def)
  from unlogged_row_resurfaces [OF H st(2,3) c(1) new_meta_checkpoint [OF st(7)] log_on_disk_create c(2-6) b i r, of no_tree]
  show ?thesis unfolding t by blast
qed

subsection \<open>Recovering twice\<close>

definition in_range :: "page_id set \<Rightarrow> mem_storage \<Rightarrow> row_id \<Rightarrow> bool" where
  "in_range H st k \<longleftrightarrow> fst k \<in> H \<and> unat (snd k) < slot_count st (fst k)"

lemma row_in_range: "heap_st crc H st \<Longrightarrow> row_map H st k \<noteq> None \<Longrightarrow> in_range H st k"
proof -
  assume st: "heap_st crc H st" and "row_map H st k \<noteq> None"
  then obtain t where t: "row_map H st (fst k, snd k) = Some t" by auto
  then have "fst k \<in> H" by (auto simp: row_map_def split: if_splits)
  with row_map_bound [OF st t] show ?thesis by (simp add: in_range_def)
qed

text \<open>An undo operation of recovery also succeeds on a row that is gone.\<close>

lemma recover_op_map:
  assumes "rec_view x = Some (t, u)" "heap_st crc H st" "in_range H st (undo_key u)"
  shows "\<exists>st'. recover_op crc ops roots st (snd x) = Some (roots, st', Inr ()) \<and> heap_st crc H st' \<and> keeps H st st' \<and>
    row_map H st' = undo_map u (row_map H st)"
proof (cases "row_map H st (undo_key u) = None")
  case False
  obtain op where x: "x = (t, op)" using assms(1) by (cases x) (auto simp: rec_view_def split: recovery_op.splits)
  from rec.run_heap [where active = "{t}", OF assms(1) _ assms(2) False] show ?thesis by (simp add: x)
next
  case True
  obtain pid i where k: "undo_key u = (pid, i)" by fastforce
  have H: "pid \<in> H" "unat i < slot_count st pid" using assms(3) k by (simp_all add: in_range_def)
  obtain p where p: "mem_read_page st pid = Inr p" "heap_ok p" "verify_checksum crc p = Inr ()" by (rule heap_stD [OF assms(2) H(1)])
  have i: "i < num_slots p" using H(2) p(1) by (simp add: slot_count_def word_less_nat_alt)
  have wf: "heap_wf p" using p(2) by (simp add: heap_ok_def)
  show ?thesis
  proof (cases u)
    case (HIns k')
    with undo_insert_map [OF assms(2) H] edit_tolerant [of crc pid "\<lambda>p. mark_slot_dead crc p i" st] assms(1) k show ?thesis
      by (auto simp: rec_view_def split: recovery_op.splits)
  next
    case (HDel k')
    have dead: "read_tuple p i = Inr None"
      using True k H(1) p(1) i read_tuple_wf [OF wf, of i] by (auto simp: row_map_def split: if_splits)
    have "tolerant (clear_deletion crc p i) = (p, Inr ())"
      using clear_deletion_dead [OF p(2) i dead] by (simp add: tolerant_def already_deleted_def)
    moreover have "slot_edit crc p p i None" using p(2,3) dead by (simp add: slot_edit_def)
    ultimately obtain st' where st': "edit_page crc pid (\<lambda>p. tolerant (clear_deletion crc p i)) st = (st', Inr ())" "heap_st crc H st'"
      "keeps H st st'" "row_map H st' = (row_map H st)((pid, i) := None)"
      using edit_slot_map [where f = "\<lambda>p. tolerant (clear_deletion crc p i)", OF assms(2) H(1) p(1) i] by blast
    have "row_map H st' = undo_map u (row_map H st)" using st'(4) True k HDel by simp
    with st' HDel k assms(1) show ?thesis by (auto simp: rec_view_def split: recovery_op.splits)
  qed
qed

lemma recover_all_fold:
  assumes "heap_st crc H st" "\<And>x. x \<in> set xs \<Longrightarrow> fst x \<in> active \<Longrightarrow> \<exists>t u. rec_view x = Some (t, u) \<and> in_range H st (undo_key u)"
  shows "\<exists>st'. recover_all crc ops active xs roots st = Some (roots, st', Inr ()) \<and> heap_st crc H st' \<and> keeps H st st' \<and>
    row_map H st' = fold undo_map (map (\<lambda>x. snd (the (rec_view x))) (filter (\<lambda>x. fst x \<in> active) xs)) (row_map H st)"
  using assms
proof (induction xs arbitrary: st)
  case Nil
  then show ?case by (simp add: keeps_def)
next
  case (Cons x xs)
  show ?case
  proof (cases "fst x \<in> active")
    case False
    with Cons show ?thesis by simp
  next
    case True
    with Cons.prems(2) [of x] obtain t u where x: "rec_view x = Some (t, u)" "in_range H st (undo_key u)" by auto
    from recover_op_map [OF x(1) Cons.prems(1) x(2)] obtain st1 where st1: "recover_op crc ops roots st (snd x) = Some (roots, st1, Inr ())"
      "heap_st crc H st1" "keeps H st st1" "row_map H st1 = undo_map u (row_map H st)" by blast
    have "in_range H st1 k \<longleftrightarrow> in_range H st k" for k using st1(3) by (auto simp: in_range_def keeps_def)
    with Cons.IH [OF st1(2)] Cons.prems(2) obtain st' where st': "recover_all crc ops active xs roots st1 = Some (roots, st', Inr ())"
      "heap_st crc H st'" "keeps H st1 st'"
      "row_map H st' = fold undo_map (map (\<lambda>x. snd (the (rec_view x))) (filter (\<lambda>x. fst x \<in> active) xs)) (row_map H st1)" by auto
    with True st1 x(1) keeps_trans [OF st1(3) st'(3)] show ?thesis by simp
  qed
qed

lemma fold_undo_map:
  "fold undo_map us m k =
     (if HIns k \<in> set us then None else if HDel k \<in> set us then map_option undelete (m k) else m k)"
proof (induction us arbitrary: m)
  case (Cons u us)
  then show ?case by (cases u) (auto simp: undelete_def option.map_comp intro: option.map_cong)
qed simp

lemma same_checkpoint: "keeps H st st' \<Longrightarrow> 0 \<notin> H \<Longrightarrow> read_checkpoint_lsn st' = read_checkpoint_lsn st"
  by (simp add: keeps_def read_checkpoint_lsn_def read_meta_u64_def)

lemma no_meta_page: "heap_st crc H st \<Longrightarrow> 0 \<notin> H"
  by (auto simp: heap_st_def)

lemma in_range_keeps: "keeps H st st' \<Longrightarrow> in_range H st' k \<longleftrightarrow> in_range H st k"
  by (auto simp: in_range_def keeps_def)

text \<open>The losers' operations in the log of a reachable state concern slots that exist.\<close>

lemma loser_op:
  assumes "log_account s sc us" "heap_st crc (hs_pages s) (hs_st s)" "x \<in> set (sc_timeline sc)" "fst x \<in> dom (hs_open s)"
  shows "\<exists>t u. rec_view x = Some (t, u) \<and> (t, u) \<in> set us \<and> in_range (hs_pages s) (hs_st s) (undo_key u)"
proof -
  note L = log_accountD [OF assms(1)]
  have "rec_view x \<in> set (map rec_view (filter (\<lambda>x. fst x \<in> dom (hs_open s)) (sc_timeline sc)))" using assms(3,4) by auto
  then obtain t u where u: "rec_view x = Some (t, u)" "(t, u) \<in> set us" unfolding L(4) by auto
  have "row_map (hs_pages s) (hs_st s) (undo_key u) \<noteq> None"
    using undo_invD(7,8) [OF L(5), of t "undo_key u"] u(2) by (cases u) auto
  with row_in_range [OF assms(2)] u show ?thesis by blast
qed

text \<open>C34: Recovery can be repeated. For interleaved transactions of single-row insertions and deletions
  whose whole log is on disk, none of it before the checkpoint position: if the process dies again
  right after recovery, opening the database with the same log succeeds again, sets up the same
  manager and leaves every row as the first run did.\<close>

theorem recovery_repeatable:
  assumes "heap_reach crc s" "all_ok (hs_log s)" "\<forall>e \<in> set (hs_log s). lsn \<le> we_lsn e" "read_checkpoint_lsn (hs_st s) = Inr lsn"
    "f = wal_header start @ stream crc (hs_log s) @ replicate n 0"
  shows "\<exists>st1 m1 r1 st2 m2 r2. open_with_recovery crc ops f (hs_st s) = Some (st1, Inr (m1, r1)) \<and>
    open_with_recovery crc ops f st1 = Some (st2, Inr (m2, r2)) \<and> m2 = m1 \<and> r2 = r1 \<and>
    row_map (hs_pages s) st2 = row_map (hs_pages s) st1"
proof -
  let ?H = "hs_pages s" and ?T = "dom (hs_open s)"
  from recovery_run [OF assms, of ops] obtain sc us wal st1 res where inv: "log_account s sc us" "heap_st crc ?H (hs_st s)"
    and run: "open_with_recovery crc ops f (hs_st s) = Some (st1, Inr (tm_opened wal (sc_max_committed sc) (losers_roots sc), res))"
      "heap_st crc ?H st1" "keeps ?H (hs_st s) st1" "row_map ?H st1 = (\<lambda>k. erase ?T (row_map ?H (hs_st s) k))" by blast
  note L = log_accountD [OF inv(1)]
  have sc: "scan_log (map Inr (hs_log s)) scan_init = Inr sc" using inv(1) by (simp add: log_account_def)
  let ?us = "map (\<lambda>x. snd (the (rec_view x))) (filter (\<lambda>x. fst x \<in> sc_active sc) (rev (sc_timeline sc)))"
  have rng: "\<exists>t u. rec_view x = Some (t, u) \<and> in_range ?H st1 (undo_key u)" if "x \<in> set (rev (sc_timeline sc))" "fst x \<in> sc_active sc" for x
    using loser_op [OF inv, of x] that L(1) in_range_keeps [OF run(3)] by auto
  obtain st2 where st2: "recover_all crc ops (sc_active sc) (rev (sc_timeline sc)) (losers_roots sc) st1 = Some (losers_roots sc, st2, Inr ())"
    "row_map ?H st2 = fold undo_map ?us (row_map ?H st1)" using recover_all_fold [OF run(2) rng] by blast
  have "read_checkpoint_lsn st1 = Inr lsn" using same_checkpoint [OF run(3) no_meta_page [OF inv(2)]] assms(4) by simp
  moreover have "read_forward crc f lsn = Inr (map Inr (hs_log s))" by (rule read_log(1) [OF assms(2,3,5)])
  ultimately have "open_with_recovery crc ops f st1 = Some (st2, Inr (tm_opened wal (sc_max_committed sc) (losers_roots sc), res))"
    using run(1) st2(1) sc assms(4)
    by (auto simp: open_with_recovery_def recover_def ebind_Inr_iff tm_opened_def split: option.splits prod.splits sum.splits Option.bind_splits)
  moreover have "fold undo_map ?us (row_map ?H st1) k = row_map ?H st1 k" for k
  proof -
    have "erase ?T (row_map ?H (hs_st s) k) = None" if "HIns k \<in> set ?us"
    proof -
      from that obtain x where x: "x \<in> set (sc_timeline sc)" "fst x \<in> ?T" "HIns k = snd (the (rec_view x))" using L(1) by auto
      with loser_op [OF inv x(1,2)] obtain t where "(t, HIns k) \<in> set us" by auto
      with undo_invD(7) [OF L(5) this] undo_invD(4) [OF L(5) this] show ?thesis by (auto simp: erase_def)
    qed
    moreover have "map_option undelete (erase ?T (row_map ?H (hs_st s) k)) = erase ?T (row_map ?H (hs_st s) k)" if "HDel k \<in> set ?us"
    proof -
      from that obtain x where x: "x \<in> set (sc_timeline sc)" "fst x \<in> ?T" "HDel k = snd (the (rec_view x))" using L(1) by auto
      with loser_op [OF inv x(1,2)] obtain t where "(t, HDel k) \<in> set us" by auto
      with undo_invD(8) [OF L(5) this] undo_invD(4) [OF L(5) this] show ?thesis by (auto simp: erase_def undelete_def)
    qed
    ultimately show ?thesis by (simp only: fold_undo_map run(4)) auto
  qed
  then have "row_map ?H st2 = row_map ?H st1" unfolding st2(2) by (intro ext)
  ultimately show ?thesis using run(1) by blast
qed

theorem recovery_repeatable_witness:
  "\<exists>(s :: heap_sys) f st1 m1 r1 st2. dom (hs_open s) = {1} \<and> open_with_recovery (\<lambda>_. 0) no_tree f (hs_st s) = Some (st1, Inr (m1, r1)) \<and>
     open_with_recovery (\<lambda>_. 0) no_tree f st1 = Some (st2, Inr (m1, r1))"
proof -
  obtain s root ps pid slot lsn where s: "heap_reach (\<lambda>_. 0) s" "hs_open s = [1 \<mapsto> [UndoInsert pid slot]]"
    "hs_log s = [control_entry lsn 1 Begin, insert_record lsn 1 7 [] (pid, slot) [1, 2, 3]]" "read_checkpoint_lsn (hs_st s) = Inr lsn"
    using open_insert by blast
  have "all_ok (hs_log s)" "\<forall>e \<in> set (hs_log s). lsn \<le> we_lsn e"
    using s(3) by (auto simp: wal_entry_ok_def serialized_len_def control_entry_def dml_entry_def encode_physical_loc_def MIN_ENTRY_LEN_def)
  from recovery_repeatable [OF s(1) this s(4) refl, of no_tree] have "\<exists>f st1 m1 r1 st2.
      open_with_recovery (\<lambda>_. 0) no_tree f (hs_st s) = Some (st1, Inr (m1, r1)) \<and>
      open_with_recovery (\<lambda>_. 0) no_tree f st1 = Some (st2, Inr (m1, r1))" by blast
  moreover have "dom (hs_open s) = {1}" using s(2) by simp
  ultimately show ?thesis by blast
qed

text \<open>The log after a transaction that deletes one row and commits.\<close>

abbreviation deletion_log :: "u64 \<Rightarrow> txn_id \<Rightarrow> row_id \<Rightarrow> u8 list \<Rightarrow> wal_entry list" where
  "deletion_log lsn t k val \<equiv> [control_entry lsn t Begin, delete_record lsn t 0 [] k val, control_entry lsn t Commit]"

lemma scan_deletion:
  assumes "log_account s sc us"
  shows "\<exists>sc'. scan_log (map Inr (hs_log s @ deletion_log lsn t k val)) scan_init = Inr sc' \<and> sc_active sc' = dom (hs_open s) - {t} \<and>
    sc_timeline sc' = sc_timeline sc @ [(t, RecDelete (fst k) (snd k))] \<and> t \<le> sc_max_committed sc'"
proof -
  have sc: "scan_log (map Inr (hs_log s)) scan_init = Inr sc" using assms by (simp add: log_account_def)
  have "\<exists>sc'. scan_log (map Inr (deletion_log lsn t k val)) sc = Inr sc' \<and> sc_active sc' = sc_active sc - {t} \<and>
    sc_timeline sc' = sc_timeline sc @ [(t, RecDelete (fst k) (snd k))] \<and> t \<le> sc_max_committed sc'"
    by (cases k) (simp add: scan_entry_def control_entry_def dml_entry_def heap_ops_def loc_op_def push_ops_def Let_def)
  with scan_log_append [OF sc, of "map Inr (deletion_log lsn t k val)"] log_accountD(1) [OF assms] show ?thesis by simp
qed


lemma open_deletion:
  "\<exists>s pid slot lsn. heap_reach crc s \<and> dom (hs_open s) = {2, 3} \<and> committed_ids (hs_log s) = [1] \<and>
     row_map (hs_pages s) (hs_st s) (pid, slot) = Some ((fresh_header 1)\<lparr>txn_id_deleted := 3\<rparr>, [1, 2, 3]) \<and>
     read_checkpoint_lsn (hs_st s) = Inr lsn \<and> all_ok (hs_log s) \<and> (\<forall>e \<in> set (hs_log s). lsn \<le> we_lsn e)"
proof -
  obtain s root ps pid slot lsn where s: "heap_reach crc s" "hs_open s = [1 \<mapsto> [UndoInsert pid slot]]"
    "hs_log s = [control_entry lsn 1 Begin, insert_record lsn 1 7 [] (pid, slot) [1, 2, 3]]"
    "row_map (hs_pages s) (hs_st s) (pid, slot) = Some (fresh_header 1, [1, 2, 3])" "read_checkpoint_lsn (hs_st s) = Inr lsn"
    "hs_next s = 2"
    using open_insert by blast
  have H: "heap_st crc (hs_pages s) (hs_st s)" using heap_reach_inv [OF s(1)] by (simp add: heap_inv_def)
  from chain_delete_map [OF H s(4), of 3] obtain st' where st': "chain_delete crc pid slot 3 (hs_st s) = Inr st'"
    "keeps (hs_pages s) (hs_st s) st'"
    "row_map (hs_pages s) st' = (row_map (hs_pages s) (hs_st s))((pid, slot) \<mapsto> ((fresh_header 1)\<lparr>txn_id_deleted := 3\<rparr>, [1, 2, 3]))" by blast
  define s1 where "s1 = s\<lparr>hs_open := Map.empty, hs_log := hs_log s @ [control_entry lsn 1 Commit]\<rparr>"
  define s2 where "s2 = s1\<lparr>hs_open := [2 \<mapsto> []], hs_next := 3, hs_log := hs_log s1 @ [control_entry lsn 2 Begin]\<rparr>"
  define s3 where "s3 = s2\<lparr>hs_open := [2 \<mapsto> [], 3 \<mapsto> []], hs_next := 4, hs_log := hs_log s2 @ [control_entry lsn 3 Begin]\<rparr>"
  define s4 where "s4 = s3\<lparr>hs_st := st', hs_open := [2 \<mapsto> [], 3 \<mapsto> [UndoDelete pid slot]],
    hs_log := hs_log s3 @ [delete_record lsn 3 7 [] (pid, slot) []]\<rparr>"
  have "heap_step crc s s1" using heap_step.hcommit [of s 1 "[UndoInsert pid slot]" crc lsn] s(2) by (simp add: s1_def)
  moreover have "heap_step crc s1 s2" using heap_step.hbegin [of 2 s1 crc lsn] s(6) by (simp add: s1_def s2_def)
  moreover have "heap_step crc s2 s3" using heap_step.hbegin [of 3 s2 crc lsn] by (simp add: s2_def s3_def)
  moreover have "heap_step crc s3 s4"
    using heap_step.hdelete [of s3 3 "[]" pid slot "fresh_header 1" "[1, 2, 3]" crc st' lsn 7 "[]" "[]"] s(4) st'(1)
    by (simp add: s4_def s3_def s2_def s1_def fresh_header_def)
  ultimately have "heap_reach crc s4" using s(1) by (blast intro: heap_reach.more)
  moreover have "read_checkpoint_lsn st' = Inr lsn" using same_checkpoint [OF st'(2) no_meta_page [OF H]] s(5) by simp
  moreover have log: "hs_log s4 = [control_entry lsn 1 Begin, insert_record lsn 1 7 [] (pid, slot) [1, 2, 3], control_entry lsn 1 Commit,
      control_entry lsn 2 Begin, control_entry lsn 3 Begin, delete_record lsn 3 7 [] (pid, slot) []]"
    by (simp add: s4_def s3_def s2_def s1_def s(3))
  moreover have "all_ok (hs_log s4)" "\<forall>e \<in> set (hs_log s4). lsn \<le> we_lsn e" "committed_ids (hs_log s4) = [1]"
    unfolding log by (auto simp: wal_entry_ok_def serialized_len_def control_entry_def dml_entry_def encode_physical_loc_def
        MIN_ENTRY_LEN_def committed_ids_def)
  moreover have "dom (hs_open s4) = {2, 3}" "hs_st s4 = st'" "hs_pages s4 = hs_pages s"
    by (auto simp: s4_def s3_def s2_def s1_def split: if_splits)
  ultimately show ?thesis using st'(3)
    by (intro exI [of _ s4] exI [of _ pid] exI [of _ slot] exI [of _ lsn]) simp
qed


end
