(* ===== verification/Recovery_Clustered.thy ===== *)
theory Recovery_Clustered
  imports Recovery_Hazards
begin

text \<open>
  What recovery does with two of the records of clustered tables: lightweight deletions and field
  patches.
\<close>

lemma batch_flush:
  assumes "log_on_disk crc es m" "wal_entry_ok (e\<lparr>we_lsn := cw_next_lsn (tm_wal m)\<rparr>)" "log_batch crc [e] ops conn m = (m1, conn1)"
    "m2 = m1\<lparr>tm_wal := flush_and_sync (tm_wal m1)\<rparr>"
  shows "log_on_disk crc (es @ [e\<lparr>we_lsn := cw_next_lsn (tm_wal m)\<rparr>]) m2" "conn1 = conn\<lparr>ct_undo_ops := ct_undo_ops conn @ ops\<rparr>"
proof -
  have "to_bytes crc (e\<lparr>we_lsn := l\<rparr>) \<noteq> []" for l
    using length_to_bytes [of crc "e\<lparr>we_lsn := l\<rparr>"] serialized_len_min [of "e\<lparr>we_lsn := l\<rparr>"] by (metis list.size(3) not_numeral_le_zero)
  then have "m1 = m\<lparr>tm_wal := fst (cw_append crc e (tm_wal m))\<rparr>" "conn1 = conn\<lparr>ct_undo_ops := ct_undo_ops conn @ ops\<rparr>"
    using assms(3) by (auto simp: log_batch_def cw_reserve_lsns_def cw_write_batch_def cw_append_def serialize_into_append Let_def)
  with append_flush [OF assms(1,2)] assms(4)
  show "log_on_disk crc (es @ [e\<lparr>we_lsn := cw_next_lsn (tm_wal m)\<rparr>]) m2" "conn1 = conn\<lparr>ct_undo_ops := ct_undo_ops conn @ ops\<rparr>"
    by simp_all
qed

lemma recover_one_op:
  assumes "log_on_disk crc es m" "scan_log (map Inr es) scan_init = Inr sc" "sc_timeline sc = [(t, op)]" "sc_active sc = {t}"
    "read_checkpoint_lsn st = Inr 0"
  shows "recover crc ops (disk_log m) st =
    recover_op crc ops (losers_roots sc) st op \<bind> (\<lambda>(roots, st, r). Some (st, ebind r (\<lambda>_.
      Inr \<lparr>rr_max_committed = sc_max_committed sc, rr_undone_txns = 1, rr_checkpoint_lsn = 0, rr_clustered_roots = roots\<rparr>)))"
proof -
  have "read_forward crc (disk_log m) 0 = Inr (map Inr es)" using log_on_disk_read(1) [OF assms(1), of 0] by simp
  with assms(2-5) show ?thesis
    by (cases "recover_op crc ops (losers_roots sc) st op") (auto simp: recover_def split: sum.splits)
qed

text \<open>C38: The record of a lightweight deletion holds an empty image of the row, because rollback only clears
  the deletion mark. Recovery takes the image for the old row: if the process dies before the
  deletion, the only change in the log, commits, it hands the exact-image restore of the key an
  empty row created by transaction 0, and ends in the store that this restore returns.\<close>

theorem lightweight_deletion_loses_row:
  assumes "log_on_disk crc es m" "scan_log (map Inr es) scan_init = Inr sc" "sc_active sc = {ct_txn_id conn}" "sc_timeline sc = []"
    "record_clustered_delete_mark_lightweight crc table_id root [key] (m, conn) = ((m1, conn1), Inr ())"
    "m2 = m1\<lparr>tm_wal := flush_and_sync (tm_wal m1)\<rparr>" "length key < 2 ^ 16" "read_checkpoint_lsn st = Inr 0"
    "restore_exact_row_image ops st root key \<lparr>txn_id_created = 0, txn_id_deleted = 0, row_version = 0, row_flags = 0\<rparr> [] = (st', Inr new_root)"
  shows "ct_undo_ops conn1 = ct_undo_ops conn @ [UndoClusteredUndelete table_id key] \<and>
    (\<exists>res. recover crc ops (disk_log m2) st = Some (st', Inr res) \<and> rr_clustered_roots res table_id = Some new_root)"
proof -
  let ?t = "ct_txn_id conn" and ?h0 = "\<lparr>txn_id_created = 0, txn_id_deleted = 0, row_version = 0, row_flags = 0\<rparr>"
  define old_row where "old_row = \<lparr>ri_root_pid = root, ri_row_header = ?h0, ri_row_data = []\<rparr>"
  define new_row where "new_row = \<lparr>ri_root_pid = root, ri_row_header = ?h0\<lparr>txn_id_deleted := ?t\<rparr>, ri_row_data = []\<rparr>"
  obtain ob nb where ob: "row_image_to_bytes old_row = Inr ob" "length ob = 36" and nb: "row_image_to_bytes new_row = Inr nb" "length nb = 36"
    by (simp add: row_image_to_bytes_def old_row_def new_row_def)
  define e where "e = dml_entry ?t ClusteredDeleteMark table_id key ob nb"
  let ?e = "e\<lparr>we_lsn := cw_next_lsn (tm_wal m)\<rparr>"
  have lb: "log_batch crc [e] [UndoClusteredUndelete table_id key] (set_root table_id root conn) m = (m1, conn1)"
    using assms(5) ob(1) nb(1) unfolding record_clustered_delete_mark_lightweight_def old_row_def new_row_def
    by (simp add: log_clustered_batch_def clustered_entry_def e_def Let_def)
  have ok: "wal_entry_ok ?e"
    using assms(7) ob(2) nb(2) by (simp add: e_def dml_entry_def wal_entry_ok_def serialized_len_def MIN_ENTRY_LEN_def)
  note disk = batch_flush [OF assms(1) ok lb assms(6)]
  define sc' where "sc' = push_ops ?t [RecClusteredRestore table_id key old_row] (note_root ?t table_id root sc)"
  have "scan_entry ?e sc = Inr sc'"
    using row_image_roundtrip [OF ob(1)] row_image_roundtrip [OF nb(1)] assms(3)
    by (simp add: scan_entry_def e_def dml_entry_def sc'_def new_row_def Let_def)
  then have sc': "scan_log (map Inr (es @ [?e])) scan_init = Inr sc'" using scan_log_append [OF assms(2), of "[Inr ?e]"] by simp
  have "sc_timeline sc' = [(?t, RecClusteredRestore table_id key old_row)]" "sc_active sc' = {?t}" "losers_roots sc' table_id = Some root"
    using assms(3,4) by (simp_all add: sc'_def push_ops_def note_root_def losers_roots_def)
  with recover_one_op [OF disk(1) sc' _ _ assms(8), of ?t "RecClusteredRestore table_id key old_row" ops] assms(9)
  show ?thesis using disk(2) by (simp add: with_root_def clustered_root_for_undo_def old_row_def set_root_def)
qed

text \<open>C39: Field patches do not record the root of their table. If a crash cuts off a transaction whose last
  record is a field patch, and no record that recovery reads, from the checkpoint on, names the
  root of the patched table, then undoing the patch finds no root: recovery fails with
  \<open>BTreeCorrupted\<close> and the database cannot be opened. (With a record that names the root, such as
  the insertion of the row, recovery knows it.)\<close>

theorem field_patch_blocks_recovery:
  assumes "log_on_disk crc es m" "read_checkpoint_lsn st = Inr lsn" "lsn \<le> cw_next_lsn (tm_wal m)"
    "scan_log (map Inr (filter (\<lambda>e. lsn \<le> we_lsn e) es)) scan_init = Inr sc" "ct_txn_id conn \<in> sc_active sc"
    "losers_roots sc table_id = None"
    "record_clustered_field_patch_batch crc table_id root [patch] (m, conn) = ((m1, conn1), Inr ())"
    "m2 = m1\<lparr>tm_wal := flush_and_sync (tm_wal m1)\<rparr>" "length (fp_key patch) < 2 ^ 16"
    "length (fp_field_deltas patch) < 256" "\<forall>d \<in> set (fp_field_deltas patch). delta_ok d"
  shows "\<exists>msg. open_with_recovery crc ops (disk_log m2) st = Some (st, Inl (BTreeCorrupted msg))"
proof -
  let ?t = "ct_txn_id conn"
  define e where "e = dml_entry ?t ClusteredFieldPatch table_id (fp_key patch) (encode_old_value patch) (encode_new_value patch)"
  let ?e = "e\<lparr>we_lsn := cw_next_lsn (tm_wal m)\<rparr>"
  have lb: "log_batch crc [e] [UndoClusteredFieldPatch table_id (fp_key patch) (fp_old_header patch) (fp_field_deltas patch)]
      (set_root table_id root conn) m = (m1, conn1)"
    using assms(7) by (simp add: record_clustered_field_patch_batch_def log_clustered_batch_def clustered_entry_def e_def)
  have len: "length (encode_delta g d) \<le> 11" if "d \<in> set (fp_field_deltas patch)" for g d
    using assms(11) that by (auto simp: encode_delta_def delta_ok_def)
  have sum: "length (concat (map (encode_delta g) ds)) \<le> 11 * length ds" if "set ds \<subseteq> set (fp_field_deltas patch)" for g ds
    using that
  proof (induction ds)
    case (Cons d ds)
    then show ?case using len [of d g] by simp
  qed simp
  have "length (encode_old_value patch) \<le> 3000" "length (encode_new_value patch) \<le> 3000"
    using sum [of "fp_field_deltas patch" fd_old_bytes] sum [of "fp_field_deltas patch" fd_new_bytes] assms(10)
    by (simp_all add: encode_old_value_def encode_new_value_def encode_header_def)
  then have ok: "wal_entry_ok ?e"
    using assms(9) by (simp add: e_def dml_entry_def wal_entry_ok_def serialized_len_def MIN_ENTRY_LEN_def)
  note disk = batch_flush [OF assms(1) ok lb assms(8)]
  let ?p = "patch\<lparr>fp_old_row_data := []\<rparr>"
  define sc' where "sc' = push_ops ?t [RecClusteredFieldPatchRestore table_id ?p] sc"
  have "from_wal_values (fp_key patch) (encode_old_value patch) (encode_new_value patch) = Inr ?p"
    using field_patch_roundtrip [of ?p] assms(10,11) by (simp add: encode_old_value_def encode_new_value_def)
  then have "scan_entry ?e sc = Inr sc'"
    using assms(5) by (simp add: scan_entry_def e_def dml_entry_def sc'_def Let_def)
  then have sc': "scan_log (map Inr (filter (\<lambda>e. lsn \<le> we_lsn e) (es @ [?e]))) scan_init = Inr sc'"
    using scan_log_append [OF assms(4), of "[Inr ?e]"] assms(3) by simp
  have "rev (sc_timeline sc') = (?t, RecClusteredFieldPatchRestore table_id ?p) # rev (sc_timeline sc)" "?t \<in> sc_active sc'"
    "losers_roots sc' table_id = None"
    using assms(5,6) by (simp_all add: sc'_def push_ops_def losers_roots_def)
  then show ?thesis
    using log_on_disk_read(1) [OF disk(1), of lsn] assms(2) sc'
    by (simp add: open_with_recovery_def recover_def with_root_def clustered_root_for_undo_def del: filter_append)
qed

lemma begin_on_disk: "\<exists>m. log_on_disk crc [control_entry 1 1 Begin] m"
proof -
  have "cw_next_lsn (tm_wal tm_create) = 1" by (simp add: tm_create_def cw_create_def)
  moreover have "(control_entry 0 1 Begin)\<lparr>we_lsn := 1\<rparr> = control_entry 1 1 Begin" "wal_entry_ok (control_entry 1 1 Begin)"
    by (simp_all add: control_entry_def wal_entry_ok_def serialized_len_def MIN_ENTRY_LEN_def)
  ultimately show ?thesis using append_flush [OF log_on_disk_create, of "control_entry 0 1 Begin" crc] by auto
qed

lemma scan_begin:
  "\<exists>sc. scan_log (map Inr [control_entry 1 1 Begin]) scan_init = Inr sc \<and> sc_active sc = {1} \<and> sc_timeline sc = [] \<and>
     losers_roots sc = Map.empty"
  by (simp add: scan_entry_def control_entry_def scan_init_def losers_roots_def)

lemma fresh_checkpoint: "\<exists>st. read_checkpoint_lsn st = Inr 0"
  using fresh_chain new_meta_checkpoint by blast

theorem lightweight_deletion_loses_row_witness:
  "\<exists>m m1 conn1 st res. record_clustered_delete_mark_lightweight (\<lambda>_. 0) 7 5 [[1]] (m, conn_of 1 []) = ((m1, conn1), Inr ()) \<and>
     recover (\<lambda>_. 0) no_tree (disk_log (m1\<lparr>tm_wal := flush_and_sync (tm_wal m1)\<rparr>)) st = Some (st, Inr res) \<and>
     rr_clustered_roots res 7 = Some 5"
proof -
  obtain m where m: "log_on_disk (\<lambda>_. 0) [control_entry 1 1 Begin] m" using begin_on_disk by blast
  obtain sc where sc: "scan_log (map Inr [control_entry 1 1 Begin]) scan_init = Inr sc" "sc_active sc = {1}" "sc_timeline sc = []"
    using scan_begin by blast
  obtain st where st: "read_checkpoint_lsn st = Inr 0" using fresh_checkpoint by blast
  obtain m1 conn1 r where r: "record_clustered_delete_mark_lightweight (\<lambda>_. 0) 7 5 [[1]] (m, conn_of 1 []) = ((m1, conn1), r)"
    by (metis surj_pair)
  then have "r = Inr ()"
    by (auto simp: record_clustered_delete_mark_lightweight_def log_clustered_batch_def clustered_entry_def row_image_to_bytes_def Let_def)
  note r = r [unfolded this]
  have "sc_active sc = {ct_txn_id (conn_of 1 [])}" using sc(2) by (simp add: conn_of_def)
  from lightweight_deletion_loses_row [OF m sc(1) this sc(3) r refl _ st, where ops = no_tree] r
  show ?thesis by (fastforce simp: no_tree_def)
qed

theorem field_patch_blocks_recovery_witness:
  "\<exists>m m1 conn1 patch st msg. record_clustered_field_patch_batch (\<lambda>_. 0) 7 5 [patch] (m, conn_of 1 []) = ((m1, conn1), Inr ()) \<and>
     open_with_recovery (\<lambda>_. 0) no_tree (disk_log (m1\<lparr>tm_wal := flush_and_sync (tm_wal m1)\<rparr>)) st = Some (st, Inl (BTreeCorrupted msg))"
proof -
  obtain m where m: "log_on_disk (\<lambda>_. 0) [control_entry 1 1 Begin] m" using begin_on_disk by blast
  obtain sc where sc: "scan_log (map Inr [control_entry 1 1 Begin]) scan_init = Inr sc" "sc_active sc = {1}" "sc_timeline sc = []"
    "losers_roots sc = Map.empty" using scan_begin by blast
  obtain st where st: "read_checkpoint_lsn st = Inr 0" using fresh_checkpoint by blast
  let ?h = "fresh_header 1"
  let ?p = "\<lparr>fp_key = [1], fp_old_header = ?h, fp_new_header = ?h, fp_old_row_data = [], fp_field_deltas = []\<rparr>"
  obtain m1 conn1 r where r: "record_clustered_field_patch_batch (\<lambda>_. 0) 7 5 [?p] (m, conn_of 1 []) = ((m1, conn1), r)" by (metis surj_pair)
  then have "r = Inr ()"
    by (auto simp: record_clustered_field_patch_batch_def log_clustered_batch_def clustered_entry_def)
  note r = r [unfolded this]
  have c: "ct_txn_id (conn_of 1 []) \<in> sc_active sc" "losers_roots sc 7 = None" "0 \<le> cw_next_lsn (tm_wal m)"
    "scan_log (map Inr (filter (\<lambda>e. 0 \<le> we_lsn e) [control_entry 1 1 Begin])) scan_init = Inr sc"
    using sc by (simp_all add: conn_of_def)
  from field_patch_blocks_recovery [OF m st c(3,4,1,2) r refl, where ops = no_tree] r
  show ?thesis by fastforce
qed

end
