(* ===== verification/Spec2Isabelle.thy ===== *)
theory Spec2Isabelle
  imports Lock_Hazards Free_List_Runs Txn_Isolation Txn_Clustered_Log Chain_Hazards Recovery_Clustered
begin

text \<open>
  AxiomDB: storage, logging, locking and transactions.

  The repository under \<open>src/\<close> is a relational database in Rust. This development covers the
  layers below SQL: the lock manager (\<open>crates/axiomdb-lock\<close>), pages, heaps, page allocation and the
  in-memory engine (\<open>crates/axiomdb-storage\<close>), the write-ahead log and the transaction manager
  (\<open>crates/axiomdb-wal\<close>), and the snapshots of \<open>crates/axiomdb-core\<close>. Each definition translates the
  function whose name it has, in the order of the source; structs are records, enums datatypes,
  integers words of their width, \<open>Result\<close> a sum with the error on the left. A panic (slice index out of
  range, failed cast) is the error \<open>Panic\<close>. Code outside the repository appears as a parameter: the
  CRC32C function is the argument \<open>crc\<close> everywhere.

  \<^bold>\<open>How the parts interact.\<close> A statement takes table and record locks, changes rows on heap pages
  obtained from the storage engine through its transaction's page batch, and records each change
  in the log together with an entry of its undo list. Committing appends and flushes a commit
  record, leaves the active set and raises \<open>max_committed\<close>; snapshots taken from these two decide which
  row versions a scan returns. Rolling back applies the undo list; opening the database scans the
  log from the checkpoint position, undoes the transactions that did not end, and sets up the
  transaction manager again.

  \<^bold>\<open>Theories.\<close>

  \<^item> \<open>Axiom_Prelude\<close>: the error type, the error monad \<open>ebind\<close>, little-endian coding, byte memories
    with their frame lemmas, lemmas on words.

  \<^item> \<open>Lock_Mode\<close>, \<open>Slot_Bitmap\<close>, \<open>Lock_Queue\<close>, \<open>Deadlock\<close>, \<open>Lock_Manager\<close> (\<open>mode.rs\<close>, \<open>bitmap.rs\<close>, \<open>entry.rs\<close>,
    \<open>txn_locks.rs\<close>, \<open>deadlock.rs\<close>, \<open>manager.rs\<close>): the conflict matrix, the slot bitmaps, the queue of one
    resource with its grant pass, Brent's cycle search on the wait-for map, and the manager.
    The asynchronous and the blocking request are the same critical sections with different
    wake-up handles, interleaved by the step relation \<open>proc_step\<close>. The lemmas show that tables never
    have conflicting holders, that grant passes are safe and maximal, that releasing everything
    leaves nothing behind and notifies whom it grants, and that the cycle search is sound, and
    complete for up to 10000 waiting transactions (the loop of the source stops at a power of
    \<open>2^20\<close>; the fuel of \<open>brent_loop\<close> exceeds the steps to that bound). \<open>Lock_Safety\<close> ends with a reachable
    state in which two transactions hold one slot.

  \<^item> \<open>Lock_Runs\<close>, \<open>Lock_Hazards\<close>: runs of whole calls under \<open>proc_step\<close>, with the proof that an undisturbed
    release does what the function \<open>release_all_for_txn\<close> says; a run that gives a lock to a deadlock
    victim that has ended, and one in which a timeout leaves a waiter asleep that nothing blocks.

  \<^item> \<open>Free_List\<close>, \<open>Free_List_Runs\<close> (\<open>freelist.rs\<close>): the allocation bitmap as a refinement of a set of free
    pages, the word-wise search for runs, batches, and the byte format.

  \<^item> \<open>Page_Layout\<close>, \<open>Heap_Page\<close>, \<open>Heap_Tuples\<close>, \<open>Heap_Update\<close>, \<open>Heap_Scan\<close>, \<open>Mvcc\<close> (\<open>page.rs\<close>, \<open>heap.rs\<close>, \<open>traits.rs\<close>): a
    page is a function from byte offsets to bytes. The invariant \<open>heap_wf\<close> places the slots and the
    tuples apart from each other; every operation keeps it, changes only its own row, and its undo
    operation restores the page. The scan lemmas combine this with the visibility rule.

  \<^item> \<open>Storage\<close>, \<open>Page_Batch\<close> (\<open>memory.rs\<close>, \<open>engine.rs\<close>, \<open>local_page_batch.rs\<close>): the engine refines a map from page
    numbers to pages (locale \<open>page_store\<close>, interpreted on the engine); a transaction's batch of
    preallocated pages never hands out a page that is in use.

  \<^item> \<open>Zone_Map\<close>, \<open>Heap_Chain\<close>, \<open>Chain_Insert\<close>, \<open>Chain_Scan\<close>, \<open>Chain_Hazards\<close> (\<open>zone_map.rs\<close>, \<open>heap_chain*.rs\<close>): the
    linked pages of a heap. Walks along the links are partial functions, and the lemmas show that
    they return on chains (\<open>chain_path\<close>). Insertion appends exactly one row to the scans of the
    right snapshots, all scans agree, batched reads are single reads. \<open>Chain_Hazards\<close> has the two ways
    in which a row is lost.

  \<^item> \<open>Wal_Entry\<close>, \<open>Wal_Clustered\<close>, \<open>Wal_File\<close>, \<open>Wal_Crash\<close>, \<open>Wal_Concurrent\<close> (\<open>entry.rs\<close>, \<open>clustered.rs\<close>, \<open>writer.rs\<close>,
    \<open>reader.rs\<close>, \<open>concurrent_writer.rs\<close>): record formats and their round trips, the file with its buffer
    and preallocated tail, recovery of the valid prefix after a torn write, and the shared queue
    with several threads as the step relation \<open>wal_step\<close>.

  \<^item> \<open>Txn_Manager\<close>, \<open>Txn_Clustered_Log\<close>, \<open>Txn_Isolation\<close> (\<open>txn*.rs\<close>): begin, commit, snapshots, the functions
    that log changes and their undo entries. \<open>txn_step\<close> interleaves the critical sections of begin,
    commit and rollback; its invariant gives the absence of dirty reads, with the one window in
    which they can occur.

  \<^item> \<open>Meta_Page\<close>, \<open>Clustered_Leaf\<close> (\<open>meta.rs\<close>, \<open>clef_*.rs\<close>): the fields of page 0 with its sequences of ids,
    and the leaf page of a clustered table, whose operations rollback and recovery call.

  \<^item> \<open>Txn_Undo\<close>, \<open>Recovery\<close> (\<open>txn_rollback.rs\<close>, \<open>recovery.rs\<close>, \<open>checkpoint.rs\<close>, \<open>rotation.rs\<close>, \<open>txn_inspect.rs\<close>): applying
    the undo list, savepoints, the release of freed pages; the scan of the log, the undo of its
    losers, opening, checkpoints and rotation. The operations of the clustered tree that they call
    are the argument \<open>ops\<close> of type \<open>tree_ops\<close>.

  \<^item> \<open>Row_Map\<close>, \<open>Undo_Account\<close>, \<open>Heap_Sessions\<close>, \<open>Crash_Safety\<close>: the heap pages as one map from row ids to row
    versions, the account of the marks that unfinished transactions left there, and the step
    relation \<open>heap_step\<close> of interleaved transactions with their log. It covers begin, the insertion of
    one row without a page batch, the deletion of one row, entries of the undo list for indexes,
    commit and rollback; updates in place, batches, truncation, savepoints and checkpoints are
    modelled as functions but are no steps of it. Rollback erases a transaction; recovery with the
    whole log on disk, and none of it before the checkpoint, preserves what the snapshot of the
    manager shows.

  \<^item> \<open>Recovery_Hazards\<close>, \<open>Recovery_Clustered\<close>: recovery can be repeated; a checkpoint, an unlogged row, a
    second crash and two kinds of clustered records with which it loses or keeps the wrong data.

  \<^bold>\<open>Not modelled.\<close> The memory-mapped engine, the clustered tree above its leaves, the B+ tree index,
  values and row formats, the catalog, SQL and the network layers; file system calls, \<open>fsync\<close> and
  latches have no counterpart beyond the order of the sections they delimit. Statistics counters
  and timing (except the timeout of a lock wait, which is a step) are left out.
\<close>

end
